(* ===== verification/Prelude.thy ===== *)
theory Prelude
  imports Complex_Main "HOL-Library.Word" "HOL-Library.AList" "HOL-Library.Multiset"
begin

text \<open>
  Shared vocabulary of the development.

  \<^item> Machine integers: \<open>u8\<close>, \<open>u32\<close>, \<open>u64\<close> are words; sizes that the code keeps as
    \<open>usize\<close>/\<open>u64\<close> but that never wrap in it are natural numbers, with the places where
    the code saturates or checks written out (\<open>sat_add\<close>, \<open>u64_max\<close>).
  \<^item> Results: Rust's \<open>Result<T, E>\<close> is the sum \<open>'e + 't\<close>, \<open>Inl\<close> the error.
  \<^item> Rust's \<open>HashMap\<close>/\<open>BTreeMap\<close> are association lists with distinct keys, read with
    \<open>map_of\<close> and written with the library's \<open>AList.update\<close> and \<open>AList.delete\<close>.
  \<^item> Rust's \<open>str\<close> is its UTF-8 byte sequence (\<open>string\<close>).
\<close>

unbundle bit_operations_syntax

type_synonym u8 = "8 word"
type_synonym u16 = "16 word"
type_synonym u32 = "32 word"
type_synonym u64 = "64 word"
type_synonym bytes = "u8 list"

named_theorems alist_simps \<open>lookup, size and domain of association lists used as hash maps\<close>
named_theorems result_simps \<open>evaluation of results\<close>

section \<open>Integers\<close>

definition u64_max :: nat where
  "u64_max = 2 ^ 64 - 1"

definition sat_add :: "nat \<Rightarrow> nat \<Rightarrow> nat \<Rightarrow> nat" where
  "sat_add mx a b = min (a + b) mx"

lemma sat_add_le [simp]: "sat_add mx a b \<le> mx"
  by (simp add: sat_add_def)

lemma sat_add_exact: "a + b \<le> mx \<Longrightarrow> sat_add mx a b = a + b"
  by (simp add: sat_add_def)

lemma sat_add_le_iff: "m < mx \<Longrightarrow> sat_add mx a b \<le> m \<longleftrightarrow> a + b \<le> m"
  by (auto simp: sat_add_def)

section \<open>Results\<close>

fun is_ok :: "'e + 'a \<Rightarrow> bool" where
  "is_ok (Inl _) = False"
| "is_ok (Inr _) = True"

lemma is_ok_iff [result_simps]: "is_ok r \<longleftrightarrow> (\<exists>x. r = Inr x)"
  by (cases r) auto

text \<open>The \<open>?\<close> operator: go on with the value, return the error.\<close>

fun and_then :: "'e + 'a \<Rightarrow> ('a \<Rightarrow> 'e + 'b) \<Rightarrow> 'e + 'b" where
  "and_then (Inl e) f = Inl e"
| "and_then (Inr x) f = f x"

lemma and_then_Inr_iff [result_simps]: "and_then r f = Inr y \<longleftrightarrow> (\<exists>x. r = Inr x \<and> f x = Inr y)"
  by (cases r) auto

definition ok_or :: "'a option \<Rightarrow> 'e \<Rightarrow> 'e + 'a" where
  "ok_or x e = (case x of None \<Rightarrow> Inl e | Some y \<Rightarrow> Inr y)"

lemma and_then_Inl_cases: "and_then r f = Inl e \<Longrightarrow> r = Inl e \<or> (\<exists>x. r = Inr x \<and> f x = Inl e)"
  by (cases r) auto

lemma ok_or_Inr_iff [result_simps]: "ok_or x e = Inr y \<longleftrightarrow> x = Some y"
  by (cases x) (auto simp: ok_or_def)

text \<open>\<open>Option::or_else\<close> on values already computed.\<close>

fun or_else :: "'a option \<Rightarrow> 'a option \<Rightarrow> 'a option" where
  "or_else (Some x) _ = Some x"
| "or_else None y = y"

section \<open>Hash maps\<close>

declare map_of_eq_Some_iff [simp del] Some_eq_map_of_iff [simp del]

lemma map_of_update [alist_simps]: "map_of (AList.update k v m) = (map_of m)(k \<mapsto> v)"
  by (rule update_conv')

lemma map_of_delete [alist_simps]: "map_of (AList.delete k m) = (map_of m)(k := None)"
  by (rule delete_conv')

lemma length_update [alist_simps]:
  "length (AList.update k v m) = (if map_of m k = None then Suc (length m) else length m)"
  by (induction m) auto

lemma length_delete [alist_simps]: "length (AList.delete k m) \<le> length m"
  by (simp add: AList.delete_eq)

lemma distinct_keys_update [alist_simps]:
  "distinct (map fst (AList.update k v m)) \<longleftrightarrow> distinct (map fst m)"
proof
  assume "distinct (map fst (AList.update k v m))"
  then show "distinct (map fst m)"
    by (induction m) (auto simp: dom_update split: if_splits)
next
  assume "distinct (map fst m)"
  then show "distinct (map fst (AList.update k v m))" by (rule distinct_update)
qed

lemma distinct_keys_delete [alist_simps]:
  "distinct (map fst m) \<Longrightarrow> distinct (map fst (AList.delete k m))"
  by (simp add: AList.delete_eq distinct_map_filter)

lemma set_update_subset: "set (AList.update k v m) \<subseteq> insert (k, v) (set m)"
  by (induction m) auto

lemma map_of_map_self: "map_of (map (\<lambda>s. (s, f s)) xs) s = (if s \<in> set xs then Some (f s) else None)"
  by (induction xs) auto

section \<open>Lists\<close>

lemma ex_le_Suc: "(\<exists>k \<le> Suc n. P k) \<longleftrightarrow> P 0 \<or> (\<exists>k \<le> n. P (Suc k))"
  by (metis Suc_le_mono le0 not0_implies_Suc)

lemma take_drop_append_exact [simp]:
  "take (length xs) (xs @ ys) = xs" "drop (length xs) (xs @ ys) = ys"
  by simp_all

lemma length_concat_map: "length (concat (map f xs)) = (\<Sum>x\<leftarrow>xs. length (f x))"
  by (induction xs) auto

text \<open>A list sorted by a key that is different for all its elements is determined by its set.\<close>

lemma sort_key_eqI:
  assumes "distinct xs" "set xs = set ys" "distinct (map f ys)" "sorted (map f ys)"
  shows "sort_key f xs = ys"
proof (rule properties_for_sort_key)
  have "distinct ys" using assms(3) by (simp add: distinct_map)
  then show "mset ys = mset xs"
    using assms(1,2) by (simp add: set_eq_iff_mset_eq_distinct [symmetric])
  fix k
  assume "k \<in> set ys"
  have one: "filter (\<lambda>x. f k = f x) zs = [k]" if "distinct zs" "set zs = set ys" for zs
  proof -
    have "set (filter (\<lambda>x. f k = f x) zs) = {k}"
      using that(2) \<open>k \<in> set ys\<close> assms(3) by (auto simp: distinct_map dest: inj_onD)
    moreover have "distinct (filter (\<lambda>x. f k = f x) zs)" using that(1) by simp
    ultimately show ?thesis
      by (metis distinct_card card_1_singleton_iff length_0_conv length_Suc_conv One_nat_def
          card.empty card_insert_if empty_iff finite.emptyI list.simps(15) singletonD set_empty2
          insert_not_empty set_ConsD list.set_intros(1))
  qed
  show "filter (\<lambda>x. f k = f x) ys = filter (\<lambda>x. f k = f x) xs"
    using one [of ys] one [of xs] assms(1,2) \<open>distinct ys\<close> by simp
qed (fact assms(4))

end
