(* ===== verification/Token.thy ===== *)
theory Token
  imports Prelude
begin

text \<open>
  Project API tokens, \<open>src/token.rs\<close>: the one validator every capture endpoint calls
  (\<open>validate\<close>) with its checks in the order of the code.
\<close>

datatype token_error = Empty | TooLong | NotAscii | NullByte | PersonalApiKey

definition max_token_bytes :: nat where
  "max_token_bytes = 64"

definition personal_key_prefix :: string where
  "personal_key_prefix = ''phx_''"

definition is_ascii :: "char \<Rightarrow> bool" where
  "is_ascii c \<longleftrightarrow> (of_char c :: nat) < 128"

definition validate :: "string \<Rightarrow> token_error + unit" where
  "validate token =
     (if token = [] then Inl Empty
      else if max_token_bytes < length token then Inl TooLong
      else if \<not> list_all is_ascii token then Inl NotAscii
      else if CHR 0x00 \<in> set token then Inl NullByte
      else if take (length personal_key_prefix) token = personal_key_prefix then Inl PersonalApiKey
      else Inr ())"

text \<open>The contract, stated without the order of the checks.\<close>

definition well_formed_token :: "string \<Rightarrow> bool" where
  "well_formed_token t \<longleftrightarrow>
     0 < length t \<and> length t \<le> 64 \<and> (\<forall>c \<in> set t. 0 < (of_char c :: nat) \<and> (of_char c :: nat) < 128)
     \<and> (\<nexists>rest. t = ''phx_'' @ rest)"

lemma of_char_zero_iff: "(of_char c :: nat) = 0 \<longleftrightarrow> c = CHR 0x00"
proof -
  have "(of_char c :: nat) = of_char (CHR 0x00) \<longleftrightarrow> c = CHR 0x00" by (rule of_char_eq_iff)
  then show ?thesis by simp
qed

lemma prefix_take_iff: "take (length p) t = p \<longleftrightarrow> (\<exists>r. t = p @ r)"
  by (metis append_eq_conv_conj)

lemma no_null_iff: "CHR 0x00 \<notin> set t \<longleftrightarrow> (\<forall>c \<in> set t. 0 < (of_char c :: nat))"
  by (metis gr_zeroI less_irrefl of_char_zero_iff)

lemma validate_ok_iff: "validate t = Inr () \<longleftrightarrow> well_formed_token t"
proof -
  have "validate t = Inr () \<longleftrightarrow>
      t \<noteq> [] \<and> length t \<le> 64 \<and> (\<forall>c \<in> set t. is_ascii c) \<and> CHR 0x00 \<notin> set t
      \<and> take (length ''phx_'') t \<noteq> ''phx_''"
    unfolding validate_def max_token_bytes_def personal_key_prefix_def list_all_iff by simp
  then show ?thesis
    unfolding well_formed_token_def no_null_iff prefix_take_iff is_ascii_def by blast
qed

end
