(* ===== verification/Utf8.thy ===== *)
theory Utf8
  imports Prelude
begin

text \<open>
  The parts of Rust's \<open>str\<close> and integer formatting that the modelled code uses, on UTF-8 byte
  strings: characters, white space and \<open>trim\<close>, decimal formatting with zero padding and
  \<open>parse::<u64>\<close>.
\<close>

section \<open>Characters\<close>

definition code :: "char \<Rightarrow> nat" where
  "code c = of_char c"

definition is_cont :: "char \<Rightarrow> bool" where
  "is_cont c \<longleftrightarrow> 128 \<le> code c \<and> code c < 192"

text \<open>\<open>str::chars\<close>: each leading byte with the continuation bytes that follow it.\<close>

function utf8_chars :: "string \<Rightarrow> string list" where
  "utf8_chars [] = []"
| "utf8_chars (c # cs) = (c # takeWhile is_cont cs) # utf8_chars (dropWhile is_cont cs)"
  by pat_completeness auto
termination
  by (relation "measure length") (auto simp: less_Suc_eq_le length_dropWhile_le)

lemma concat_utf8_chars [simp]: "concat (utf8_chars s) = s"
  by (induction s rule: utf8_chars.induct) auto

lemma utf8_chars_empty_iff [simp]: "utf8_chars s = [] \<longleftrightarrow> s = []"
  by (cases s) auto

text \<open>\<open>char::is_whitespace\<close>: the code points with the Unicode property White\_Space.\<close>

definition white_space :: "string list" where
  "white_space =
     [[CHR 0x09], [CHR 0x0A], [CHR 0x0B], [CHR 0x0C], [CHR 0x0D], [CHR 0x20],
      [CHR 0xC2, CHR 0x85], [CHR 0xC2, CHR 0xA0], [CHR 0xE1, CHR 0x9A, CHR 0x80],
      [CHR 0xE2, CHR 0x80, CHR 0x80], [CHR 0xE2, CHR 0x80, CHR 0x81],
      [CHR 0xE2, CHR 0x80, CHR 0x82], [CHR 0xE2, CHR 0x80, CHR 0x83],
      [CHR 0xE2, CHR 0x80, CHR 0x84], [CHR 0xE2, CHR 0x80, CHR 0x85],
      [CHR 0xE2, CHR 0x80, CHR 0x86], [CHR 0xE2, CHR 0x80, CHR 0x87],
      [CHR 0xE2, CHR 0x80, CHR 0x88], [CHR 0xE2, CHR 0x80, CHR 0x89],
      [CHR 0xE2, CHR 0x80, CHR 0x8A], [CHR 0xE2, CHR 0x80, CHR 0xA8],
      [CHR 0xE2, CHR 0x80, CHR 0xA9], [CHR 0xE2, CHR 0x80, CHR 0xAF],
      [CHR 0xE2, CHR 0x81, CHR 0x9F], [CHR 0xE3, CHR 0x80, CHR 0x80]]"

definition is_ws :: "string \<Rightarrow> bool" where
  "is_ws g \<longleftrightarrow> g \<in> set white_space"

definition trim :: "string \<Rightarrow> string" where
  "trim s = concat (rev (dropWhile is_ws (rev (dropWhile is_ws (utf8_chars s)))))"

lemma nil_not_ws [simp]: "\<not> is_ws []"
  by (simp add: is_ws_def white_space_def)

lemma utf8_chars_nonempty: "g \<in> set (utf8_chars s) \<Longrightarrow> g \<noteq> []"
  by (induction s rule: utf8_chars.induct) auto

text \<open>\<open>s.trim().is_empty()\<close> says that every character is white space.\<close>

lemma concat_empty_iff: "\<forall>x \<in> set xs. x \<noteq> [] \<Longrightarrow> concat xs = [] \<longleftrightarrow> xs = []"
  by (cases xs) auto

lemma trim_empty_iff: "trim s = [] \<longleftrightarrow> (\<forall>g \<in> set (utf8_chars s). is_ws g)"
proof -
  let ?d = "dropWhile is_ws (utf8_chars s)"
  have ne: "\<forall>g \<in> set (dropWhile is_ws (rev ?d)). g \<noteq> []"
    using utf8_chars_nonempty by (fastforce dest!: set_dropWhileD)
  have "trim s = [] \<longleftrightarrow> dropWhile is_ws (rev ?d) = []"
    unfolding trim_def using ne by (intro concat_empty_iff [THEN trans]) auto
  also have "\<dots> \<longleftrightarrow> (\<forall>g \<in> set ?d. is_ws g)" by simp
  also have "\<dots> \<longleftrightarrow> (\<forall>g \<in> set (utf8_chars s). is_ws g)"
  proof
    assume "\<forall>g \<in> set ?d. is_ws g"
    then have "?d = []" by (metis hd_dropWhile list.set_sel(1))
    then show "\<forall>g \<in> set (utf8_chars s). is_ws g" by simp
  qed (meson set_dropWhileD)
  finally show ?thesis .
qed

section \<open>Prefixes, parts and ASCII case\<close>

definition starts_with :: "string \<Rightarrow> string \<Rightarrow> bool" where
  "starts_with pre s = (take (length pre) s = pre)"

fun split_on :: "char \<Rightarrow> string \<Rightarrow> string list" where
  "split_on c [] = [[]]"
| "split_on c (x # xs) =
     (if x = c then [] # split_on c xs
      else case split_on c xs of [] \<Rightarrow> [[x]] | p # ps \<Rightarrow> (x # p) # ps)"

definition ascii_lower :: "string \<Rightarrow> string" where
  "ascii_lower = List.map (\<lambda>c. if 65 \<le> code c \<and> code c \<le> 90 then char_of (code c + 32) else c)"

definition eq_ignore_ascii_case :: "string \<Rightarrow> string \<Rightarrow> bool" where
  "eq_ignore_ascii_case a b \<longleftrightarrow> ascii_lower a = ascii_lower b"

section \<open>Decimal numbers\<close>

definition is_digit :: "char \<Rightarrow> bool" where
  "is_digit c \<longleftrightarrow> 48 \<le> code c \<and> code c \<le> 57"

definition digit_char :: "nat \<Rightarrow> char" where
  "digit_char d = char_of (48 + d)"

fun decimal :: "nat \<Rightarrow> string" where
  "decimal n = (if n < 10 then [digit_char n] else decimal (n div 10) @ [digit_char (n mod 10)])"

declare decimal.simps [simp del]

definition digits_value :: "string \<Rightarrow> nat" where
  "digits_value ds = foldl (\<lambda>v c. 10 * v + (code c - 48)) 0 ds"

text \<open>Rust's \<open>u64::from_str\<close>: an optional plus sign, then decimal digits, no overflow.\<close>

definition parse_u64 :: "string \<Rightarrow> nat option" where
  "parse_u64 s =
     (let ds = (if s \<noteq> [] \<and> hd s = CHR ''+'' then tl s else s) in
      if ds = [] \<or> \<not> list_all is_digit ds \<or> u64_max < digits_value ds then None
      else Some (digits_value ds))"

text \<open>The format \<open>{n:016}\<close>.\<close>

definition pad16 :: "nat \<Rightarrow> string" where
  "pad16 n = replicate (16 - length (decimal n)) (CHR ''0'') @ decimal n"

lemma code_digit_char: "d < 10 \<Longrightarrow> code (digit_char d) = 48 + d"
  by (simp add: code_def digit_char_def)

lemma is_digit_digit_char: "d < 10 \<Longrightarrow> is_digit (digit_char d)"
  by (simp add: is_digit_def code_digit_char)

lemma decimal_digits: "list_all is_digit (decimal n)"
proof (induction n rule: decimal.induct)
  case (1 n)
  then show ?case by (subst decimal.simps) (auto simp: is_digit_digit_char)
qed

lemma decimal_nonempty [simp]: "decimal n \<noteq> []"
  by (subst decimal.simps) simp

lemma digits_value_snoc: "digits_value (ds @ [c]) = 10 * digits_value ds + (code c - 48)"
  by (simp add: digits_value_def)

lemma digits_value_decimal [simp]: "digits_value (decimal n) = n"
proof (induction n rule: decimal.induct)
  case (1 n)
  show ?case
  proof (cases "n < 10")
    case True
    then show ?thesis by (subst decimal.simps) (simp add: digits_value_def code_digit_char)
  next
    case False
    with "1.IH" have "digits_value (decimal (n div 10)) = n div 10" by simp
    with False show ?thesis by (subst decimal.simps) (simp add: digits_value_snoc code_digit_char)
  qed
qed

lemma code_0: "code (CHR ''0'') = 48"
  by (simp add: code_def)

lemma digits_value_zeros: "digits_value (replicate k (CHR ''0'') @ ds) = digits_value ds"
proof -
  have "foldl (\<lambda>v c. 10 * v + (code c - 48)) 0 (replicate k (CHR ''0'')) = (0 :: nat)"
    by (induction k) (simp_all add: code_0)
  then show ?thesis by (simp add: digits_value_def)
qed

lemma length_decimal: "0 < k \<Longrightarrow> n < 10 ^ k \<Longrightarrow> length (decimal n) \<le> k"
proof (induction n arbitrary: k rule: decimal.induct)
  case (1 n)
  show ?case
  proof (cases "n < 10")
    case True
    with "1.prems" show ?thesis by (subst decimal.simps) simp
  next
    case False
    with "1.prems" have k: "1 < k" by (cases "k = 1") auto
    then have "n div 10 < 10 ^ (k - 1)"
      using "1.prems" by (metis One_nat_def Suc_lessD Suc_pred' less_mult_imp_div_less mult.commute power_Suc)
    with "1.IH" [OF False, of "k - 1"] k have "length (decimal (n div 10)) \<le> k - 1" by simp
    with False k show ?thesis by (subst decimal.simps) simp
  qed
qed

lemma pad16_nonempty [simp]: "pad16 n \<noteq> []"
  by (simp add: pad16_def)

lemma pad16_digits: "list_all is_digit (pad16 n)"
  by (auto simp: pad16_def decimal_digits list_all_iff is_digit_def code_0 split: if_splits)
    (use decimal_digits [of n] in \<open>auto simp: list_all_iff is_digit_def\<close>)

lemma length_pad16: "n < 10 ^ 16 \<Longrightarrow> length (pad16 n) = 16"
  using length_decimal [of 16 n] by (simp add: pad16_def)

lemma parse_pad16: "n \<le> u64_max \<Longrightarrow> parse_u64 (pad16 n) = Some n"
proof -
  assume n: "n \<le> u64_max"
  have d: "is_digit (hd (pad16 n))"
    using pad16_digits [of n] by (metis hd_in_set list_all_iff pad16_nonempty)
  then have "hd (pad16 n) \<noteq> CHR ''+''"
    by (auto simp: is_digit_def code_def)
  moreover have "digits_value (pad16 n) = n"
    by (simp add: pad16_def digits_value_zeros)
  ultimately show ?thesis
    using n pad16_digits [of n] by (simp add: parse_u64_def)
qed

lemma pad16_inj: "pad16 m = pad16 n \<Longrightarrow> m = n"
  by (metis pad16_def digits_value_zeros digits_value_decimal)

end
