(* ===== verification/Types.thy ===== *)
theory Types
  imports Utf8
begin

text \<open>
  Data shared by capture, the write-ahead log and the projections: JSON values as
  \<open>serde_json\<close> has them, and the captured event of \<open>src/capture/event.rs\<close>.

  Floating-point numbers (\<open>f64\<close>) are their values: a rational, an infinity or NaN; the sign of
  zero is not kept, since nothing the modelled code does can see it. Instants
  (\<open>DateTime<Utc>\<close>) are integers, nanoseconds since the Unix epoch. JSON objects are
  association lists with distinct keys.
\<close>

datatype f64 = Fin rat | PosInf | NegInf | NaN

datatype number = PosInt u64 | NegInt "64 word" | Float f64

datatype json =
    Null
  | Bool bool
  | Number number
  | String string
  | Array "json list"
  | Object "(string \<times> json) list"

type_synonym object = "(string \<times> json) list"

fun as_str :: "json \<Rightarrow> string option" where
  "as_str (String s) = Some s"
| "as_str _ = None"

fun as_bool :: "json \<Rightarrow> bool option" where
  "as_bool (Bool b) = Some b"
| "as_bool _ = None"

fun as_array :: "json \<Rightarrow> json list option" where
  "as_array (Array xs) = Some xs"
| "as_array _ = None"

fun as_object :: "json \<Rightarrow> object option" where
  "as_object (Object m) = Some m"
| "as_object _ = None"

text \<open>\<open>Value::as_i64\<close>: an integer that fits, never a float.\<close>

fun as_i64 :: "json \<Rightarrow> int option" where
  "as_i64 (Number (PosInt n)) = (if unat n < 2 ^ 63 then Some (uint n) else None)"
| "as_i64 (Number (NegInt n)) = Some (sint n)"
| "as_i64 _ = None"

definition get_str :: "object \<Rightarrow> string \<Rightarrow> string option" where
  "get_str m k = Option.bind (map_of m k) as_str"

type_synonym instant = int

record captured_event =
  uuid :: "128 word"
  event :: string
  distinct_id :: string
  token :: string
  timestamp :: instant
  properties :: object

end
