(* ===== verification/WalFrame.thy ===== *)
theory WalFrame
  imports Types
begin

text \<open>
  Records of the write-ahead log, \<open>src/pipeline/wal.rs\<close>: the captured batch and its
  constructors, cursors and spans, the errors, and the frame
  \<open>[magic:4][version:1][reserved:3][length:u32 LE][crc32:u32 LE][JSON]\<close> with its writer
  \<open>encode_frame\<close> and its reader \<open>read_record\<close>.

  \<open>serde_json\<close> and \<open>crc32fast\<close> are third-party code: they are the record \<open>wal_codec\<close>, an
  argument of the definitions. What the log relies on is that the batch at hand survives
  serialization (\<open>record_ok\<close>).
\<close>

section \<open>Batches\<close>

record captured_batch =
  events :: "captured_event list"
  project_ids_by_token :: "(string \<times> string) list"
  historical_migration :: bool
  received_at_ms :: int

datatype io_error = NotFound | OtherIo

datatype wal_error =
    Io io_error
  | Serialization
  | InvalidConfig
  | EmptyBatch
  | InvalidProjectBinding
  | Poisoned
  | WriterLocked
  | RecordTooLarge nat nat
  | Corruption nat nat string

definition batch_new :: "captured_event list \<Rightarrow> wal_error + captured_batch" where
  "batch_new es =
     (if es = [] then Inl EmptyBatch
      else Inr \<lparr>events = es, project_ids_by_token = [], historical_migration = False,
                received_at_ms = 0\<rparr>)"

definition batch_authorized ::
  "captured_event list \<Rightarrow> (string \<times> string) list \<Rightarrow> bool \<Rightarrow> int \<Rightarrow> wal_error + captured_batch" where
  "batch_authorized es bindings historical now_ms =
     (if es = [] then Inl EmptyBatch
      else if list_ex (\<lambda>(tok, pid). tok = [] \<or> trim pid = []) bindings
           \<or> list_ex (\<lambda>e. map_of bindings (token e) = None) es
      then Inl InvalidProjectBinding
      else Inr \<lparr>events = es, project_ids_by_token = bindings, historical_migration = historical,
                received_at_ms = now_ms\<rparr>)"

definition project_id_for :: "captured_batch \<Rightarrow> captured_event \<Rightarrow> string option" where
  "project_id_for b e = map_of (project_ids_by_token b) (token e)"

fun collect_options :: "'a option list \<Rightarrow> 'a list option" where
  "collect_options [] = Some []"
| "collect_options (None # _) = None"
| "collect_options (Some x # xs) = map_option ((#) x) (collect_options xs)"

definition project_ids :: "captured_batch \<Rightarrow> string list option" where
  "project_ids b = collect_options (map (project_id_for b) (events b))"

section \<open>Cursors, spans, configuration\<close>

record wal_cursor =
  segment :: nat
  byte_offset :: nat

definition cursor_new :: "nat \<Rightarrow> nat \<Rightarrow> wal_cursor" where
  "cursor_new s o' = \<lparr>segment = s, byte_offset = o'\<rparr>"

definition cursor_origin :: wal_cursor where
  "cursor_origin = cursor_new 1 0"

record wal_span =
  span_start :: wal_cursor
  span_end :: wal_cursor
  framed_bytes :: nat

record wal_receipt =
  span :: wal_span
  event_count :: nat

record wal_config =
  segment_target_bytes :: nat
  max_record_bytes :: nat

definition u32_max :: nat where
  "u32_max = 2 ^ 32 - 1"

definition config_new :: "nat \<Rightarrow> nat \<Rightarrow> wal_error + wal_config" where
  "config_new target limit =
     (if target = 0 \<or> limit = 0 \<or> u32_max < limit then Inl InvalidConfig
      else Inr \<lparr>segment_target_bytes = target, max_record_bytes = limit\<rparr>)"

definition config_default :: wal_config where
  "config_default =
     \<lparr>segment_target_bytes = 64 * 1024 * 1024, max_record_bytes = 64 * 1024 * 1024\<rparr>"

definition corruption :: "nat \<Rightarrow> nat \<Rightarrow> string \<Rightarrow> wal_error" where
  "corruption = Corruption"

section \<open>Frames\<close>

record wal_codec =
  to_vec :: "captured_batch \<Rightarrow> bytes option"
  from_slice :: "bytes \<Rightarrow> captured_batch option"
  crc_hash :: "bytes \<Rightarrow> u32"

definition record_magic :: bytes where
  "record_magic = [0x48, 0x47, 0x4C, 0x57]"

definition record_version :: u8 where
  "record_version = 1"

definition record_header_bytes :: nat where
  "record_header_bytes = 16"

definition u32_to_le :: "u32 \<Rightarrow> bytes" where
  "u32_to_le w = [ucast w, ucast (drop_bit 8 w), ucast (drop_bit 16 w), ucast (drop_bit 24 w)]"

definition u32_from_le :: "u8 \<Rightarrow> u8 \<Rightarrow> u8 \<Rightarrow> u8 \<Rightarrow> u32" where
  "u32_from_le a b c d =
     ucast a OR push_bit 8 (ucast b) OR push_bit 16 (ucast c) OR push_bit 24 (ucast d)"

definition encode_frame :: "wal_codec \<Rightarrow> bytes \<Rightarrow> bytes" where
  "encode_frame cd payload =
     record_magic @ [record_version] @ replicate 3 0
     @ u32_to_le (word_of_nat (length payload)) @ u32_to_le (crc_hash cd payload) @ payload"

definition validate_header :: "bytes \<Rightarrow> nat \<Rightarrow> nat \<Rightarrow> wal_error + unit" where
  "validate_header header seg off =
     (if take 4 header \<noteq> record_magic then Inl (corruption seg off ''invalid record magic'')
      else if header ! 4 \<noteq> record_version
      then Inl (corruption seg off ''unsupported record version'')
      else if take 3 (drop 5 header) \<noteq> [0, 0, 0]
      then Inl (corruption seg off ''non-zero reserved header bytes'')
      else Inr ())"

definition header_length :: "bytes \<Rightarrow> nat" where
  "header_length h = unat (u32_from_le (h ! 8) (h ! 9) (h ! 10) (h ! 11))"

definition header_crc :: "bytes \<Rightarrow> u32" where
  "header_crc h = u32_from_le (h ! 12) (h ! 13) (h ! 14) (h ! 15)"

text \<open>
  \<open>read_record\<close> reads from the current position: \<open>rest\<close> is what the file holds from there on
  (\<open>read_up_to\<close> returns fewer bytes only at the end of the file).
\<close>

definition read_record ::
  "wal_codec \<Rightarrow> bytes \<Rightarrow> nat \<Rightarrow> nat \<Rightarrow> nat \<Rightarrow> wal_error + (captured_batch \<times> nat) option" where
  "read_record cd rest seg off limit =
     (let header = take record_header_bytes rest in
      if header = [] then Inr None
      else if length header \<noteq> record_header_bytes
      then Inl (corruption seg off ''incomplete record header'')
      else case validate_header header seg off of
        Inl e \<Rightarrow> Inl e
      | Inr _ \<Rightarrow>
         (let len = header_length header in
          if limit < len then Inl (corruption seg off ''record length exceeds limit'')
          else let payload = take len (drop record_header_bytes rest) in
          if length payload \<noteq> len then Inl (corruption seg off ''incomplete record payload'')
          else if crc_hash cd payload \<noteq> header_crc header
          then Inl (corruption seg off ''record checksum mismatch'')
          else case from_slice cd payload of
            None \<Rightarrow> Inl (corruption seg off ''invalid captured batch payload'')
          | Some batch \<Rightarrow>
              if events batch = [] then Inl (corruption seg off ''empty captured batch'')
              else Inr (Some (batch, record_header_bytes + len))))"

section \<open>Frames read back\<close>

lemma u32_from_to_le:
  "u32_from_le (ucast w) (ucast (drop_bit 8 w)) (ucast (drop_bit 16 w)) (ucast (drop_bit 24 w)) = w"
  for w :: u32
proof (rule bit_word_eqI)
  fix n
  assume "n < LENGTH(32)"
  then consider "n < 8" | "8 \<le> n" "n < 16" | "16 \<le> n" "n < 24" | "24 \<le> n" "n < 32" by fastforce
  then show "bit (u32_from_le (ucast w) (ucast (drop_bit 8 w)) (ucast (drop_bit 16 w))
      (ucast (drop_bit 24 w))) n = bit w n"
    by cases (auto simp: u32_from_le_def bit_simps)
qed

lemma length_u32_to_le [simp]: "length (u32_to_le w) = 4"
  by (simp add: u32_to_le_def)

lemma length_record_magic [simp]: "length record_magic = 4"
  by (simp add: record_magic_def)

lemma length_encode_frame: "length (encode_frame cd p) = record_header_bytes + length p"
  by (simp add: encode_frame_def record_header_bytes_def)

text \<open>The bytes of the header of a frame, and what the reader makes of them.\<close>

definition frame_header :: "wal_codec \<Rightarrow> bytes \<Rightarrow> bytes" where
  "frame_header cd payload = take record_header_bytes (encode_frame cd payload)"

lemma encode_frame_split: "encode_frame cd p = frame_header cd p @ p"
  by (simp add: frame_header_def encode_frame_def record_header_bytes_def numeral_eq_Suc)

lemma length_frame_header [simp]: "length (frame_header cd p) = record_header_bytes"
  by (simp add: frame_header_def length_encode_frame)

lemma frame_header_eq:
  "frame_header cd p = record_magic @ [record_version, 0, 0, 0]
     @ u32_to_le (word_of_nat (length p)) @ u32_to_le (crc_hash cd p)"
  by (simp add: frame_header_def encode_frame_def record_header_bytes_def numeral_eq_Suc)

lemma frame_header_nonempty [simp]: "frame_header cd p \<noteq> []"
  by (simp add: frame_header_eq record_magic_def)

lemma validate_frame_header [simp]: "validate_header (frame_header cd p) seg off = Inr ()"
  by (simp add: validate_header_def frame_header_eq record_magic_def)

lemma header_length_frame: "length p \<le> u32_max \<Longrightarrow> header_length (frame_header cd p) = length p"
  by (simp add: header_length_def frame_header_eq record_magic_def u32_to_le_def u32_from_to_le
      u32_max_def unat_of_nat take_bit_nat_eq_self)

lemma header_crc_frame: "header_crc (frame_header cd p) = crc_hash cd p"
  by (simp add: header_crc_def frame_header_eq record_magic_def u32_to_le_def u32_from_to_le)

lemmas frame_simps =
  encode_frame_split validate_frame_header header_length_frame header_crc_frame

text \<open>
  A batch that the log accepts: it has events, it serializes within the limit, and
  deserialization gives it back.
\<close>

definition record_ok :: "wal_codec \<Rightarrow> nat \<Rightarrow> captured_batch \<Rightarrow> bool" where
  "record_ok cd limit b \<longleftrightarrow>
     limit \<le> u32_max \<and> events b \<noteq> [] \<and>
     (case to_vec cd b of None \<Rightarrow> False
      | Some p \<Rightarrow> length p \<le> limit \<and> from_slice cd p = Some b)"

definition frame_of :: "wal_codec \<Rightarrow> captured_batch \<Rightarrow> bytes" where
  "frame_of cd b = (case to_vec cd b of None \<Rightarrow> [] | Some p \<Rightarrow> encode_frame cd p)"

lemma record_okE:
  assumes "record_ok cd limit b"
  obtains p where "to_vec cd b = Some p" "length p \<le> limit" "length p \<le> u32_max"
    "from_slice cd p = Some b" "events b \<noteq> []" "frame_of cd b = encode_frame cd p"
  using assms by (auto simp: record_ok_def frame_of_def split: option.splits)

lemma length_frame_of:
  "record_ok cd limit b \<Longrightarrow> record_header_bytes \<le> length (frame_of cd b)"
  by (elim record_okE) (simp add: length_encode_frame)

lemma frame_of_nonempty: "record_ok cd limit b \<Longrightarrow> frame_of cd b \<noteq> []"
  using length_frame_of [of cd limit b] by (auto simp: record_header_bytes_def)

theorem read_record_frame:
  assumes "record_ok cd limit b"
  shows "read_record cd (frame_of cd b @ rest) seg off limit = Inr (Some (b, length (frame_of cd b)))"
proof -
  obtain p where p: "to_vec cd b = Some p" "length p \<le> limit" "length p \<le> u32_max"
    "from_slice cd p = Some b" "events b \<noteq> []" "frame_of cd b = encode_frame cd p"
    using assms by (rule record_okE)
  show ?thesis
    unfolding read_record_def Let_def
    using p by (simp add: frame_simps)
qed

text \<open>Every strict prefix of a frame is refused, except that nothing at all is the end.\<close>

theorem read_record_strict_prefix:
  assumes "record_ok cd limit b" and "k < length (frame_of cd b)" and "0 < k"
  shows "\<exists>reason. read_record cd (take k (frame_of cd b)) seg off limit = Inl (corruption seg off reason)"
proof -
  obtain p where p: "to_vec cd b = Some p" "length p \<le> limit" "length p \<le> u32_max"
    "frame_of cd b = encode_frame cd p"
    using assms(1) by (elim record_okE)
  show ?thesis
  proof (cases "k < record_header_bytes")
    case True
    then have "length (take record_header_bytes (take k (frame_of cd b))) = k"
      using assms(2) by simp
    with True assms(3) show ?thesis
      unfolding read_record_def Let_def by (metis (lifting) less_irrefl list.size(3))
  next
    case False
    obtain r where r: "r = take k (frame_of cd b)" by simp
    then have "take record_header_bytes r = frame_header cd p"
      using p False by (simp add: frame_header_def)
    moreover have "length r - record_header_bytes < length p"
      using assms(2) False p r by (simp add: length_encode_frame)
    ultimately have "read_record cd r seg off limit
        = Inl (corruption seg off ''incomplete record payload'')"
      unfolding read_record_def Let_def using p(2,3) by (simp add: frame_simps)
    with r show ?thesis by blast
  qed
qed

section \<open>Framing\<close>

text \<open>
  The interface between records and the segment code: a frame is never empty and can be read
  off the front of any byte sequence. A sequence of frames then has one reading only.
\<close>

locale framing =
  fixes ok :: "'b \<Rightarrow> bool"
    and enc :: "'b \<Rightarrow> 'c list"
    and dec :: "'c list \<Rightarrow> ('b \<times> nat) option"
  assumes dec_enc: "ok b \<Longrightarrow> dec (enc b @ rest) = Some (b, length (enc b))"
    and enc_nonempty: "ok b \<Longrightarrow> enc b \<noteq> []"
begin

lemma enc_inj: "ok a \<Longrightarrow> ok b \<Longrightarrow> enc a @ xs = enc b @ ys \<Longrightarrow> a = b \<and> xs = ys"
  using dec_enc by (metis append_eq_append_conv option.inject prod.inject)

lemma frames_prefix:
  assumes "\<forall>b \<in> set as. ok b" "\<forall>b \<in> set bs. ok b"
    and "concat (map enc as) = concat (map enc bs) @ rest"
  shows "\<exists>cs. as = bs @ cs \<and> rest = concat (map enc cs)"
  using assms
proof (induction bs arbitrary: as)
  case Nil
  then show ?case by simp
next
  case (Cons b bs)
  have okb: "ok b" using Cons.prems(2) by simp
  obtain a as' where as: "as = a # as'"
    using Cons.prems(3) enc_nonempty [OF okb] by (cases as) simp_all
  have oka: "ok a" using Cons.prems(1) as by simp
  have "enc a @ concat (map enc as') = enc b @ (concat (map enc bs) @ rest)"
    using Cons.prems(3) as by simp
  then have ab: "a = b" and rest: "concat (map enc as') = concat (map enc bs) @ rest"
    using enc_inj [OF oka okb] by blast+
  have "\<exists>cs. as' = bs @ cs \<and> rest = concat (map enc cs)"
    by (rule Cons.IH [OF _ _ rest]) (use Cons.prems(1,2) as in simp_all)
  then show ?case using as ab by simp
qed

lemma frames_unique:
  assumes "\<forall>b \<in> set as. ok b" "\<forall>b \<in> set bs. ok b"
    and "concat (map enc as) = concat (map enc bs)"
  shows "as = bs"
proof -
  obtain cs where cs: "as = bs @ cs" "concat (map enc cs) = []"
    using frames_prefix [of as bs "[]"] assms by auto
  then have "cs = []" using assms(1) enc_nonempty by (cases cs) auto
  with cs show ?thesis by simp
qed

end

definition decode_front :: "wal_codec \<Rightarrow> nat \<Rightarrow> bytes \<Rightarrow> (captured_batch \<times> nat) option" where
  "decode_front cd limit rest =
     (case read_record cd rest 0 0 limit of Inr (Some r) \<Rightarrow> Some r | _ \<Rightarrow> None)"

interpretation wal_framing: framing "record_ok cd limit" "frame_of cd" "decode_front cd limit"
  for cd limit
proof
  fix b rest
  assume "record_ok cd limit b"
  then show "decode_front cd limit (frame_of cd b @ rest) = Some (b, length (frame_of cd b))"
    by (simp add: decode_front_def read_record_frame)
qed (rule frame_of_nonempty)

end
