(* ===== verification/WalSegment.thy ===== *)
theory WalSegment
  imports WalFrame
begin

text \<open>
  One segment of the log, \<open>src/pipeline/wal.rs\<close>: the validating scan that \<open>open\<close> runs over
  every segment (\<open>scan_segment\<close>, with tail repair for the active one) and the record-boundary
  check of a cursor (\<open>is_record_boundary\<close>). The content of the segment file is a byte list;
  offsets are \<open>u64\<close> values, kept as naturals with the code's overflow checks.

  The second half shows what the scan does to the files a crash can leave: the acknowledged
  frames, followed by a cut-off frame or by zero-filled blocks.
\<close>

section \<open>The scan\<close>

function scan_loop ::
  "wal_codec \<Rightarrow> bytes \<Rightarrow> nat \<Rightarrow> nat \<Rightarrow> bool \<Rightarrow> nat \<Rightarrow> wal_error + (nat \<times> bool)" where
  "scan_loop cd content seg limit repair off =
     (if off < length content then
        (if length content - off < record_header_bytes
         then (if repair then Inr (off, True)
               else Inl (corruption seg off ''incomplete record header''))
         else
           (let header = take record_header_bytes (drop off content) in
            case validate_header header seg off of
              Inl e \<Rightarrow>
                (if repair \<and> list_all (\<lambda>b. b = 0) (drop off content) then Inr (off, True) else Inl e)
            | Inr _ \<Rightarrow>
                (let len = header_length header in
                 if limit < len then Inl (corruption seg off ''record length exceeds limit'')
                 else if u64_max < record_header_bytes + len
                 then Inl (corruption seg off ''record length overflow'')
                 else if u64_max < off + (record_header_bytes + len)
                 then Inl (corruption seg off ''record offset overflow'')
                 else
                   (let frame_end = off + (record_header_bytes + len);
                        payload = take len (drop (off + record_header_bytes) content);
                        final_record = (frame_end = length content) in
                    if length content < frame_end
                    then (if repair then Inr (off, True)
                          else Inl (corruption seg off ''incomplete record payload''))
                    else if crc_hash cd payload \<noteq> header_crc header
                    then (if repair \<and> final_record then Inr (off, True)
                          else Inl (corruption seg off ''record checksum mismatch''))
                    else case from_slice cd payload of
                      None \<Rightarrow>
                        (if repair \<and> final_record then Inr (off, True)
                         else Inl (corruption seg off ''invalid captured batch payload''))
                    | Some batch \<Rightarrow>
                        (if events batch = []
                         then Inl (corruption seg off ''empty captured batch'')
                         else scan_loop cd content seg limit repair frame_end)))))
      else Inr (off, False))"
  by pat_completeness auto
termination
  by (relation "measure (\<lambda>(cd, content, seg, limit, repair, off). length content - off)")
    (auto simp: record_header_bytes_def)

declare scan_loop.simps [simp del]

record segment_scan =
  valid_bytes :: nat
  truncated_tail :: bool

text \<open>The scan with its effect on the file: a torn tail is cut off (\<open>set_len\<close>).\<close>

definition scan_segment ::
  "wal_codec \<Rightarrow> bytes \<Rightarrow> nat \<Rightarrow> nat \<Rightarrow> bool \<Rightarrow> wal_error + (segment_scan \<times> bytes)" where
  "scan_segment cd content seg limit repair =
     (case scan_loop cd content seg limit repair 0 of
        Inl e \<Rightarrow> Inl e
      | Inr (off, torn) \<Rightarrow>
          Inr (\<lparr>valid_bytes = off, truncated_tail = torn\<rparr>,
               if torn then take off content else content))"

text \<open>\<open>keep_torn_tail\<close>: at most 8 MiB of what the scan drops, kept beside the segment.\<close>

definition max_kept_bytes :: nat where
  "max_kept_bytes = 8 * 1024 * 1024"

definition keep_torn_tail :: "bytes \<Rightarrow> nat \<Rightarrow> bytes option" where
  "keep_torn_tail content from =
     (if length content \<le> from then None else Some (take max_kept_bytes (drop from content)))"

function boundary_loop ::
  "bytes \<Rightarrow> nat \<Rightarrow> nat \<Rightarrow> nat \<Rightarrow> nat \<Rightarrow> wal_error + bool" where
  "boundary_loop content seg target limit off =
     (if off < target then
        (let header = take record_header_bytes (drop off content) in
         if length header < record_header_bytes then Inl (Io OtherIo)
         else case validate_header header seg off of
           Inl e \<Rightarrow> Inl e
         | Inr _ \<Rightarrow>
             (let len = header_length header in
              if limit < len then Inl (corruption seg off ''record length exceeds limit'')
              else if u64_max < record_header_bytes + len
              then Inl (corruption seg off ''record length overflow'')
              else if u64_max < off + (record_header_bytes + len)
              then Inl (corruption seg off ''record offset overflow'')
              else if target < off + (record_header_bytes + len) then Inr False
              else boundary_loop content seg target limit (off + (record_header_bytes + len))))
      else Inr (off = target))"
  by pat_completeness auto
termination
  by (relation "measure (\<lambda>(content, seg, target, limit, off). target - off)")
    (auto simp: record_header_bytes_def)

declare boundary_loop.simps [simp del]

definition is_record_boundary :: "bytes \<Rightarrow> nat \<Rightarrow> nat \<Rightarrow> nat \<Rightarrow> wal_error + bool" where
  "is_record_boundary content seg target limit =
     (if target = 0 then Inr True else boundary_loop content seg target limit 0)"

section \<open>Scanning whole frames\<close>

abbreviation frames :: "wal_codec \<Rightarrow> captured_batch list \<Rightarrow> bytes" where
  "frames cd bs \<equiv> concat (map (frame_of cd) bs)"

definition records_ok :: "wal_codec \<Rightarrow> nat \<Rightarrow> captured_batch list \<Rightarrow> bool" where
  "records_ok cd limit bs \<longleftrightarrow> (\<forall>b \<in> set bs. record_ok cd limit b)"

lemma records_ok_simps [simp]:
  "records_ok cd limit []"
  "records_ok cd limit (b # bs) \<longleftrightarrow> record_ok cd limit b \<and> records_ok cd limit bs"
  "records_ok cd limit (bs @ cs) \<longleftrightarrow> records_ok cd limit bs \<and> records_ok cd limit cs"
  by (auto simp: records_ok_def)

text \<open>One step of the scan over an intact frame.\<close>

lemma scan_frame:
  assumes ok: "record_ok cd limit b"
    and size: "length (pre @ frame_of cd b @ rest) \<le> u64_max"
  shows "scan_loop cd (pre @ frame_of cd b @ rest) seg limit repair (length pre)
       = scan_loop cd (pre @ frame_of cd b @ rest) seg limit repair
           (length (pre @ frame_of cd b))"
proof -
  obtain p where p: "to_vec cd b = Some p" "length p \<le> limit" "length p \<le> u32_max"
    "from_slice cd p = Some b" "events b \<noteq> []" "frame_of cd b = encode_frame cd p"
    using ok by (rule record_okE)
  obtain c where c: "c = pre @ frame_header cd p @ p @ rest" by simp
  have content: "pre @ frame_of cd b @ rest = c"
    using c p(6) by (simp add: encode_frame_split)
  have len: "length c = length pre + (record_header_bytes + length p) + length rest"
    using c by simp
  have hd: "take record_header_bytes (drop (length pre) c) = frame_header cd p"
    using c by simp
  have pl: "take (length p) (drop (length pre + record_header_bytes) c) = p"
    using c by (simp add: drop_drop [symmetric] add.commute del: drop_drop)
  have sz: "length pre + (record_header_bytes + length p) + length rest \<le> u64_max"
    using size content len by simp
  have "scan_loop cd c seg limit repair (length pre)
      = scan_loop cd c seg limit repair (length pre + (record_header_bytes + length p))"
    by (subst scan_loop.simps)
      (use p len hd pl sz in \<open>simp add: frame_simps Let_def record_header_bytes_def\<close>)
  then show ?thesis
    using content c p(6) by (simp add: length_encode_frame)
qed

lemma scan_frames:
  assumes "records_ok cd limit bs" and "length (pre @ frames cd bs @ rest) \<le> u64_max"
  shows "scan_loop cd (pre @ frames cd bs @ rest) seg limit repair (length pre)
       = scan_loop cd (pre @ frames cd bs @ rest) seg limit repair (length (pre @ frames cd bs))"
  using assms
proof (induction bs arbitrary: pre)
  case Nil
  then show ?case by simp
next
  case (Cons b bs)
  have ok: "record_ok cd limit b" "records_ok cd limit bs"
    using Cons.prems(1) by simp_all
  have split: "pre @ frames cd (b # bs) @ rest = pre @ frame_of cd b @ frames cd bs @ rest"
    by simp
  have "scan_loop cd (pre @ frame_of cd b @ frames cd bs @ rest) seg limit repair (length pre)
      = scan_loop cd (pre @ frame_of cd b @ frames cd bs @ rest) seg limit repair
          (length (pre @ frame_of cd b))"
    by (rule scan_frame [OF ok(1)]) (use Cons.prems(2) in simp)
  also have "\<dots> = scan_loop cd ((pre @ frame_of cd b) @ frames cd bs @ rest) seg limit repair
      (length ((pre @ frame_of cd b) @ frames cd bs))"
    using Cons.IH [OF ok(2), of "pre @ frame_of cd b"] Cons.prems(2) by simp
  finally show ?case by simp
qed

lemma scan_at_end: "scan_loop cd content seg limit repair (length content) = Inr (length content, False)"
  by (subst scan_loop.simps) simp

theorem scan_intact:
  assumes "records_ok cd limit bs" and "length (frames cd bs) \<le> u64_max"
  shows "scan_segment cd (frames cd bs) seg limit repair
       = Inr (\<lparr>valid_bytes = length (frames cd bs), truncated_tail = False\<rparr>, frames cd bs)"
  using scan_frames [OF assms(1), of "[]" "[]" seg repair] assms(2)
  by (simp add: scan_segment_def scan_at_end)

section \<open>Torn tails\<close>

text \<open>What a scan that starts at a tail reports, lifted over the intact frames before it.\<close>

lemma scan_repairs_tail:
  assumes ok: "records_ok cd limit bs" and size: "length (frames cd bs @ tail) \<le> u64_max"
    and torn: "scan_loop cd (frames cd bs @ tail) seg limit True (length (frames cd bs))
      = Inr (length (frames cd bs), True)"
  shows "scan_segment cd (frames cd bs @ tail) seg limit True
       = Inr (\<lparr>valid_bytes = length (frames cd bs), truncated_tail = True\<rparr>, frames cd bs)"
  using scan_frames [OF ok, of "[]" tail seg True] size torn
  by (simp add: scan_segment_def)

text \<open>A frame of which only a strict, non-empty prefix reached the file.\<close>

lemma scan_cut_frame:
  assumes ok: "record_ok cd limit b" and k: "0 < k" "k < length (frame_of cd b)"
    and size: "length (pre @ frame_of cd b) \<le> u64_max"
  shows "scan_loop cd (pre @ take k (frame_of cd b)) seg limit True (length pre)
       = Inr (length pre, True)"
proof -
  obtain p where p: "to_vec cd b = Some p" "length p \<le> limit" "length p \<le> u32_max"
    "from_slice cd p = Some b" "events b \<noteq> []" "frame_of cd b = encode_frame cd p"
    using ok by (rule record_okE)
  obtain c where c: "c = pre @ take k (frame_of cd b)" by simp
  have len: "length c = length pre + k" using c k by simp
  show ?thesis
  proof (cases "k < record_header_bytes")
    case True
    then have "scan_loop cd c seg limit True (length pre) = Inr (length pre, True)"
      using len k by (subst scan_loop.simps) simp
    then show ?thesis using c by simp
  next
    case False
    have hd: "take record_header_bytes (drop (length pre) c) = frame_header cd p"
      using c False p(6) by (simp add: frame_header_def)
    have "k < record_header_bytes + length p"
      using k p(6) by (simp add: length_encode_frame)
    moreover have "length pre + (record_header_bytes + length p) \<le> u64_max"
      using size p(6) by (simp add: length_encode_frame)
    ultimately have "scan_loop cd c seg limit True (length pre) = Inr (length pre, True)"
      using hd len k p False by (subst scan_loop.simps) (simp add: frame_simps Let_def)
    then show ?thesis using c by simp
  qed
qed

text \<open>Zero-filled blocks, whatever their number.\<close>

lemma record_magic_not_zero: "replicate 4 0 \<noteq> record_magic"
proof
  assume "replicate 4 0 = record_magic"
  then have "hd record_magic = 0" by (metis hd_replicate zero_neq_numeral)
  then show False by (simp add: record_magic_def)
qed

lemma validate_zero_header:
  "validate_header (replicate record_header_bytes 0) seg off
    = Inl (corruption seg off ''invalid record magic'')"
  by (simp add: validate_header_def record_header_bytes_def record_magic_not_zero)

lemma scan_zero_tail:
  assumes "0 < n"
  shows "scan_loop cd (pre @ replicate n 0) seg limit True (length pre) = Inr (length pre, True)"
proof -
  obtain c where c: "c = pre @ replicate n 0" by simp
  have len: "length c = length pre + n" using c by simp
  have zeros: "list_all (\<lambda>b. b = 0) (drop (length pre) c)" using c by (simp add: list_all_iff)
  show ?thesis
  proof (cases "n < record_header_bytes")
    case True
    then have "scan_loop cd c seg limit True (length pre) = Inr (length pre, True)"
      using len assms by (subst scan_loop.simps) simp
    then show ?thesis using c by simp
  next
    case False
    have "take record_header_bytes (drop (length pre) c) = replicate record_header_bytes 0"
      using c False by simp
    then have "validate_header (take record_header_bytes (drop (length pre) c)) seg (length pre)
        = Inl (corruption seg (length pre) ''invalid record magic'')"
      by (simp add: validate_zero_header)
    then have "scan_loop cd c seg limit True (length pre) = Inr (length pre, True)"
      using len zeros assms False by (subst scan_loop.simps) (simp add: Let_def)
    then show ?thesis using c by simp
  qed
qed

text \<open>
  A frame whose payload does not match its checksum: cut off when it is the last one, damage
  when anything follows.
\<close>

lemma scan_bad_payload:
  assumes ok: "record_ok cd limit b" and to_vec: "to_vec cd b = Some p"
    and q: "length q = length p" "crc_hash cd q \<noteq> crc_hash cd p"
    and size: "length (pre @ frame_of cd b @ rest) \<le> u64_max"
  shows "scan_loop cd (pre @ frame_header cd p @ q @ rest) seg limit repair (length pre)
       = (if repair \<and> rest = [] then Inr (length pre, True)
          else Inl (corruption seg (length pre) ''record checksum mismatch''))"
proof -
  have p: "length p \<le> limit" "length p \<le> u32_max" "frame_of cd b = encode_frame cd p"
    using ok to_vec by (auto elim!: record_okE)
  obtain c where c: "c = pre @ frame_header cd p @ q @ rest" by simp
  have len: "length c = length pre + (record_header_bytes + length p) + length rest" using c q by simp
  have hd: "take record_header_bytes (drop (length pre) c) = frame_header cd p"
    using c by simp
  have pl: "take (length p) (drop (length pre + record_header_bytes) c) = q"
    using c q by (simp add: drop_drop [symmetric] add.commute del: drop_drop)
  have "length pre + (record_header_bytes + length p) + length rest \<le> u64_max"
    using size p(3) by (simp add: length_encode_frame)
  then have "scan_loop cd c seg limit repair (length pre) =
      (if repair \<and> rest = [] then Inr (length pre, True)
       else Inl (corruption seg (length pre) ''record checksum mismatch''))"
    using hd len pl p q
    by (subst scan_loop.simps) (simp add: frame_simps Let_def record_header_bytes_def)
  then show ?thesis using c by simp
qed

end
