(* ===== verification/WalDir.thy ===== *)
theory WalDir
  imports WalSegment
begin

text \<open>
  The directory of the log, \<open>src/pipeline/wal.rs\<close>: segment file names, the listing
  (\<open>list_segments\<close>), the layout check (\<open>discover_segment_layout\<close>), the validation of a cursor
  against it (\<open>validate_cursor\<close>) and the bounded retry around races between the reader and
  the writer (\<open>retry_layout_race\<close>). A directory is the association list of its entries, in the
  order \<open>read_dir\<close> gives them.
\<close>

type_synonym directory = "(string \<times> bytes) list"

section \<open>Names\<close>

definition open_suffix :: string where
  "open_suffix = ''.open''"

definition sealed_suffix :: string where
  "sealed_suffix = ''.wal''"

definition active_path :: "nat \<Rightarrow> string" where
  "active_path s = pad16 s @ open_suffix"

definition sealed_path :: "nat \<Rightarrow> string" where
  "sealed_path s = pad16 s @ sealed_suffix"

definition ends_with :: "string \<Rightarrow> string \<Rightarrow> bool" where
  "ends_with s suf \<longleftrightarrow> length suf \<le> length s \<and> drop (length s - length suf) s = suf"

definition strip_suffix :: "string \<Rightarrow> string \<Rightarrow> string" where
  "strip_suffix s suf = take (length s - length suf) s"

definition sequence_of :: "string \<Rightarrow> nat option" where
  "sequence_of ds = (if length ds = 16 then parse_u64 ds else None)"

definition sealed_entry :: "string \<Rightarrow> (nat \<times> string) option" where
  "sealed_entry name =
     (if ends_with name sealed_suffix
      then map_option (\<lambda>s. (s, name)) (sequence_of (strip_suffix name sealed_suffix))
      else None)"

definition open_entry :: "string \<Rightarrow> (nat \<times> string) option" where
  "open_entry name =
     (if \<not> ends_with name sealed_suffix \<and> ends_with name open_suffix
      then map_option (\<lambda>s. (s, name)) (sequence_of (strip_suffix name open_suffix))
      else None)"

definition list_segments :: "directory \<Rightarrow> (nat \<times> string) list \<times> (nat \<times> string) list" where
  "list_segments d =
     (sort_key fst (List.map_filter sealed_entry (map fst d)),
      sort_key fst (List.map_filter open_entry (map fst d)))"

section \<open>Layout\<close>

record segment_layout =
  sealed :: "(nat \<times> string) list"
  active :: "(nat \<times> string) option"

definition next_segment_cursor :: "segment_layout \<Rightarrow> wal_cursor option" where
  "next_segment_cursor l =
     (if active l \<noteq> None then None
      else if sealed l = [] then None
      else (let top = fst (last (sealed l)) in
            if u64_max < top + 1 then None else Some (cursor_new (top + 1) 0)))"

fun check_contiguous :: "nat list \<Rightarrow> wal_error option" where
  "check_contiguous (p # c # rest) =
     (if u64_max < p + 1 then Some (corruption p 0 ''segment sequence overflow'')
      else if c = p then Some (corruption c 0 ''duplicate segment sequence'')
      else if c \<noteq> p + 1 then Some (corruption c 0 ''missing WAL segment before this sequence'')
      else check_contiguous (c # rest))"
| "check_contiguous _ = None"

definition discover_segment_layout :: "directory \<Rightarrow> wal_error + segment_layout" where
  "discover_segment_layout d =
     (let (sl, op) = list_segments d in
      if 1 < length op then Inl (corruption 0 0 ''multiple active segments'')
      else
        (let act = (case op of [] \<Rightarrow> None | a # _ \<Rightarrow> Some a);
             sequences = sort (map fst sl @ (case act of None \<Rightarrow> [] | Some (s, _) \<Rightarrow> [s])) in
         if sequences \<noteq> [] \<and> hd sequences = 0
         then Inl (corruption 0 0 ''segment sequence must be positive'')
         else case check_contiguous sequences of
           Some e \<Rightarrow> Inl e
         | None \<Rightarrow>
             (case act of
                Some (s, _) \<Rightarrow>
                  (if s \<noteq> last sequences then Inl (corruption s 0 ''active segment is not newest'')
                   else Inr \<lparr>sealed = sl, active = act\<rparr>)
              | None \<Rightarrow> Inr \<lparr>sealed = sl, active = act\<rparr>)))"

section \<open>Cursors\<close>

definition segment_path :: "segment_layout \<Rightarrow> nat \<Rightarrow> string option" where
  "segment_path l s =
     (case map_of (sealed l) s of
        Some p \<Rightarrow> Some p
      | None \<Rightarrow> (case active l of Some (a, p) \<Rightarrow> if a = s then Some p else None | None \<Rightarrow> None))"

definition validate_cursor ::
  "wal_codec \<Rightarrow> directory \<Rightarrow> segment_layout \<Rightarrow> wal_cursor \<Rightarrow> nat \<Rightarrow> wal_error + nat" where
  "validate_cursor cd d l c limit =
     (case segment_path l (segment c) of
        None \<Rightarrow>
          (if byte_offset c = 0 \<and> next_segment_cursor l = Some c then Inr 0
           else Inl (corruption (segment c) (byte_offset c) ''cursor segment does not exist''))
      | Some path \<Rightarrow>
          (case map_of d path of
             None \<Rightarrow> Inl (Io NotFound)
           | Some content \<Rightarrow>
               (case scan_segment cd content (segment c) limit False of
                  Inl e \<Rightarrow> Inl e
                | Inr (scan, _) \<Rightarrow>
                    if valid_bytes scan < byte_offset c
                    then Inl (corruption (segment c) (byte_offset c) ''cursor is beyond segment EOF'')
                    else case is_record_boundary content (segment c) (byte_offset c) limit of
                      Inl e \<Rightarrow> Inl e
                    | Inr False \<Rightarrow>
                        Inl (corruption (segment c) (byte_offset c)
                               ''cursor is not on a record boundary'')
                    | Inr True \<Rightarrow> Inr (valid_bytes scan))))"

section \<open>Races between reader and writer\<close>

definition layout_race_attempts :: nat where
  "layout_race_attempts = 50"

fun is_layout_race :: "wal_error \<Rightarrow> bool" where
  "is_layout_race (Io e) = (e = NotFound)"
| "is_layout_race (Corruption _ _ reason) =
     (reason \<in> set [''missing WAL segment before this sequence'', ''active segment is not newest'',
        ''duplicate segment sequence'', ''multiple active segments'',
        ''cursor segment does not exist''])"
| "is_layout_race _ = False"

text \<open>Attempt \<open>i\<close> sees the directory as it is then: \<open>attempt i\<close> is its result.\<close>

fun retry_loop :: "nat \<Rightarrow> nat \<Rightarrow> (nat \<Rightarrow> wal_error + 'a) \<Rightarrow> wal_error + 'a" where
  "retry_loop 0 i attempt = attempt i"
| "retry_loop (Suc k) i attempt =
     (case attempt i of
        Inl e \<Rightarrow> if is_layout_race e then retry_loop k (Suc i) attempt else Inl e
      | Inr x \<Rightarrow> Inr x)"

definition retry_layout_race :: "(nat \<Rightarrow> wal_error + 'a) \<Rightarrow> wal_error + 'a" where
  "retry_layout_race attempt = retry_loop (layout_race_attempts - 1) 0 attempt"

lemma retry_loop_reaches:
  assumes "\<And>j. j < k \<Longrightarrow> \<exists>e. attempt (i + j) = Inl e \<and> is_layout_race e"
    and "k \<le> n" and "attempt (i + k) = Inr x"
  shows "retry_loop n i attempt = Inr x"
  using assms
proof (induction k arbitrary: n i)
  case 0
  then show ?case by (cases n) simp_all
next
  case (Suc k)
  from Suc.prems(2) obtain n' where n: "n = Suc n'" "k \<le> n'" by (cases n) auto
  have "retry_loop n' (Suc i) attempt = Inr x"
  proof (rule Suc.IH [OF _ n(2)])
    show "\<exists>e. attempt (Suc i + j) = Inl e \<and> is_layout_race e" if "j < k" for j
      using Suc.prems(1) [of "Suc j"] that by simp
    show "attempt (Suc i + k) = Inr x" using Suc.prems(3) by simp
  qed
  then show ?case using Suc.prems(1) [of 0] n(1) by auto
qed

lemma retry_loop_constant: "(\<And>j. attempt j = r) \<Longrightarrow> retry_loop n i attempt = r"
  by (induction n arbitrary: i) (auto split: sum.splits)

section \<open>Names are read back\<close>

lemma ends_with_append [simp]: "ends_with (xs @ suf) suf"
  by (simp add: ends_with_def)

lemma strip_suffix_append [simp]: "strip_suffix (xs @ suf) suf = xs"
  by (simp add: strip_suffix_def)

lemma not_ends_with_sealed: "\<not> ends_with (xs @ open_suffix) sealed_suffix"
  by (simp add: ends_with_def open_suffix_def sealed_suffix_def)

text \<open>Sixteen digits hold every sequence number below \<open>10 ^ 16\<close>.\<close>

definition seq_limit :: nat where
  "seq_limit = 10 ^ 16"

lemma seq_limit_le: "s < seq_limit \<Longrightarrow> s < u64_max"
  by (simp add: seq_limit_def u64_max_def)

lemma sequence_of_pad16: "s < seq_limit \<Longrightarrow> sequence_of (pad16 s) = Some s"
  using length_pad16 [of s] parse_pad16 [of s] seq_limit_le [of s]
  by (simp add: sequence_of_def seq_limit_def)

lemma sealed_entry_path [simp]: "s < seq_limit \<Longrightarrow> sealed_entry (sealed_path s) = Some (s, sealed_path s)"
  by (simp add: sealed_entry_def sealed_path_def sequence_of_pad16)

lemma open_entry_path [simp]: "s < seq_limit \<Longrightarrow> open_entry (active_path s) = Some (s, active_path s)"
  by (simp add: open_entry_def active_path_def sequence_of_pad16 not_ends_with_sealed)

lemma sealed_entry_active [simp]: "sealed_entry (active_path s) = None"
  by (simp add: sealed_entry_def active_path_def not_ends_with_sealed)

lemma open_entry_sealed [simp]: "open_entry (sealed_path s) = None"
  by (simp add: open_entry_def sealed_path_def)

lemma sealed_path_inj [simp]: "sealed_path s = sealed_path t \<longleftrightarrow> s = t"
  by (auto simp: sealed_path_def dest: pad16_inj)

lemma active_path_inj [simp]: "active_path s = active_path t \<longleftrightarrow> s = t"
  by (auto simp: active_path_def dest: pad16_inj)

lemma sealed_neq_active [simp]: "sealed_path s \<noteq> active_path t" "active_path t \<noteq> sealed_path s"
proof -
  show "sealed_path s \<noteq> active_path t"
  proof
    assume "sealed_path s = active_path t"
    then have "last (sealed_path s) = last (active_path t)" by simp
    then show False by (simp add: sealed_path_def active_path_def sealed_suffix_def open_suffix_def)
  qed
  then show "active_path t \<noteq> sealed_path s" by simp
qed

end
