(* ===== verification/WalLog.thy ===== *)
theory WalLog
  imports WalDir
begin

text \<open>
  What the directory of the log stands for: a run of sealed segments and, unless the writer is
  between two segments, an active one, each a list of batches (\<open>log\<close>, \<open>dir_repr\<close>). The layout
  check and the cursor validation of \<open>WalDir\<close> are computed from it here, for the writer and
  the reader to rest on.
\<close>

record log =
  log_first :: nat
  log_sealed :: "captured_batch list list"
  log_active :: "captured_batch list option"

definition log_next :: "log \<Rightarrow> nat" where
  "log_next l = log_first l + length (log_sealed l)"

lemma log_next_active [simp]: "log_next (l\<lparr>log_active := a\<rparr>) = log_next l"
  by (simp add: log_next_def)

text \<open>All records, oldest first.\<close>

definition log_records :: "log \<Rightarrow> captured_batch list" where
  "log_records l = concat (log_sealed l) @ (case log_active l of None \<Rightarrow> [] | Some bs \<Rightarrow> bs)"

definition segment_ok :: "wal_codec \<Rightarrow> nat \<Rightarrow> captured_batch list \<Rightarrow> bool" where
  "segment_ok cd limit bs \<longleftrightarrow> records_ok cd limit bs \<and> length (frames cd bs) \<le> u64_max"

definition dir_repr :: "wal_codec \<Rightarrow> nat \<Rightarrow> directory \<Rightarrow> log \<Rightarrow> bool" where
  "dir_repr cd limit d l \<longleftrightarrow>
     distinct (map fst d) \<and> 1 \<le> log_first l \<and> log_next l < seq_limit
     \<and> (\<forall>bs \<in> set (log_sealed l). segment_ok cd limit bs)
     \<and> (\<forall>i < length (log_sealed l).
          map_of d (sealed_path (log_first l + i)) = Some (frames cd (log_sealed l ! i)))
     \<and> (case log_active l of None \<Rightarrow> True
        | Some bs \<Rightarrow> segment_ok cd limit bs
            \<and> map_of d (active_path (log_next l)) = Some (frames cd bs))
     \<and> (\<forall>n \<in> fst ` set d. \<forall>s p. sealed_entry n = Some (s, p) \<longrightarrow>
          n = sealed_path s \<and> log_first l \<le> s \<and> s < log_next l)
     \<and> (\<forall>n \<in> fst ` set d. \<forall>s p. open_entry n = Some (s, p) \<longrightarrow>
          n = active_path s \<and> s = log_next l \<and> log_active l \<noteq> None)"

lemma dir_repr_cong:
  assumes "dir_repr cd limit d l" and m: "map_of d' = map_of d" and "distinct (map fst d')"
  shows "dir_repr cd limit d' l"
proof -
  have "fst ` set d' = fst ` set d" using m by (metis dom_map_of_conv_image_fst)
  then show ?thesis using assms(1,3) unfolding dir_repr_def m by simp
qed

lemma frames_nonempty_iff: "records_ok cd limit bs \<Longrightarrow> 0 < length (frames cd bs) \<longleftrightarrow> bs \<noteq> []"
  using frame_of_nonempty by (cases bs) auto

section \<open>The listing\<close>

lemma entry_snd: "sealed_entry n = Some (s, p) \<Longrightarrow> p = n" "open_entry n = Some (s, p) \<Longrightarrow> p = n"
  by (auto simp: sealed_entry_def open_entry_def split: if_splits)

lemma set_map_filter: "set (List.map_filter f xs) = {y. \<exists>x \<in> set xs. f x = Some y}"
  by (force simp: List.map_filter_def)

lemma distinct_map_filter_entry:
  assumes "distinct xs" and "\<And>x s p. f x = Some (s, p) \<Longrightarrow> p = x"
  shows "distinct (List.map_filter f xs)"
proof -
  have "inj_on (the \<circ> f) {x \<in> set xs. f x \<noteq> None}"
    using assms(2) by (intro inj_onI) (metis (mono_tags, lifting) comp_apply mem_Collect_eq option.collapse
        surj_pair)
  then show ?thesis
    using assms(1) by (simp add: List.map_filter_def distinct_map)
qed

lemma dir_repr_list_segments:
  assumes "dir_repr cd limit d l"
  shows "list_segments d =
    (map (\<lambda>s. (s, sealed_path s)) [log_first l ..< log_next l],
     case log_active l of None \<Rightarrow> [] | Some _ \<Rightarrow> [(log_next l, active_path (log_next l))])"
proof -
  let ?names = "map fst d"
  note r = assms [unfolded dir_repr_def]
  have lim: "s < seq_limit" if "s \<le> log_next l" for s using r that by simp
  have present: "sealed_path s \<in> set ?names" if "log_first l \<le> s" "s < log_next l" for s
  proof -
    have "s = log_first l + (s - log_first l)" "s - log_first l < length (log_sealed l)"
      using that by (simp_all add: log_next_def)
    then have "map_of d (sealed_path s) \<noteq> None" using r by (metis option.distinct(1))
    then show ?thesis by (auto simp: map_of_eq_None_iff)
  qed
  have "set (List.map_filter sealed_entry ?names)
      = set (map (\<lambda>s. (s, sealed_path s)) [log_first l ..< log_next l])" (is "?A = ?B")
  proof
    show "?A \<subseteq> ?B" using r by (fastforce simp: set_map_filter dest: entry_snd)
    show "?B \<subseteq> ?A"
    proof
      fix y
      assume "y \<in> ?B"
      then obtain s where s: "y = (s, sealed_path s)" "log_first l \<le> s" "s < log_next l" by auto
      then have "sealed_path s \<in> set ?names" "sealed_entry (sealed_path s) = Some y"
        using present lim by simp_all
      then show "y \<in> ?A" unfolding set_map_filter by blast
    qed
  qed
  then have sealed: "sort_key fst (List.map_filter sealed_entry ?names)
      = map (\<lambda>s. (s, sealed_path s)) [log_first l ..< log_next l]"
    using r by (intro sort_key_eqI distinct_map_filter_entry) (auto simp: o_def dest: entry_snd)
  let ?op = "case log_active l of None \<Rightarrow> [] | Some _ \<Rightarrow> [(log_next l, active_path (log_next l))]"
  have "set (List.map_filter open_entry ?names) = set ?op"
  proof (cases "log_active l")
    case None
    then show ?thesis using r by (fastforce simp: set_map_filter)
  next
    case (Some bs)
    then have "map_of d (active_path (log_next l)) \<noteq> None" using r by simp
    then have "active_path (log_next l) \<in> set ?names" by (auto simp: map_of_eq_None_iff)
    then have "(log_next l, active_path (log_next l)) \<in> set (List.map_filter open_entry ?names)"
      using lim [of "log_next l"] by (force simp: set_map_filter)
    moreover have "set (List.map_filter open_entry ?names) \<subseteq> {(log_next l, active_path (log_next l))}"
      using r by (fastforce simp: set_map_filter dest: entry_snd)
    ultimately show ?thesis using Some by auto
  qed
  then have "sort_key fst (List.map_filter open_entry ?names) = ?op"
    using r by (intro sort_key_eqI distinct_map_filter_entry)
      (auto dest: entry_snd split: option.splits)
  with sealed show ?thesis by (simp add: list_segments_def)
qed

section \<open>The layout\<close>

definition layout_of :: "log \<Rightarrow> segment_layout" where
  "layout_of l =
     \<lparr>sealed = map (\<lambda>s. (s, sealed_path s)) [log_first l ..< log_next l],
      active = map_option (\<lambda>_. (log_next l, active_path (log_next l))) (log_active l)\<rparr>"

lemma check_contiguous_upt: "b \<le> u64_max \<Longrightarrow> check_contiguous [a ..< b] = None"
proof (induction "b - a" arbitrary: a)
  case 0
  then show ?case by simp
next
  case (Suc n)
  then have a: "a < b" by simp
  show ?case
  proof (cases "Suc a < b")
    case True
    then have "[a ..< b] = a # Suc a # [Suc (Suc a) ..< b]" "[Suc a ..< b] = Suc a # [Suc (Suc a) ..< b]"
      using a by (simp_all add: upt_conv_Cons)
    then show ?thesis using Suc.hyps(1) [of "Suc a"] Suc.hyps(2) Suc.prems True by simp
  next
    case False
    then have "[a ..< b] = [a]" using a by (simp add: upt_conv_Cons)
    then show ?thesis by simp
  qed
qed

lemma dir_repr_layout:
  assumes "dir_repr cd limit d l"
  shows "discover_segment_layout d = Inr (layout_of l)"
proof -
  note r = assms [unfolded dir_repr_def]
  have le: "log_first l \<le> log_next l" by (simp add: log_next_def)
  have lim: "Suc (log_next l) \<le> u64_max" using r seq_limit_le [of "log_next l"] by simp
  have fsts: "map fst (map (\<lambda>s. (s, sealed_path s)) [a ..< b]) = [a ..< b]" for a b
    by (simp add: o_def)
  show ?thesis
  proof (cases "log_active l")
    case None
    have "sort [log_first l ..< log_next l] = [log_first l ..< log_next l]"
      by (simp add: sort_key_id_if_sorted)
    then show ?thesis
      using r None lim check_contiguous_upt [of "log_next l" "log_first l"]
      by (cases "log_first l < log_next l")
        (simp_all add: discover_segment_layout_def dir_repr_list_segments [OF assms] layout_of_def
          o_def Let_def)
  next
    case (Some bs)
    have "sort ([log_first l ..< log_next l] @ [log_next l]) = [log_first l ..< Suc (log_next l)]"
      using le by (simp add: sort_key_id_if_sorted del: upt_Suc add: upt_Suc_append [symmetric])
    moreover have "hd [log_first l ..< Suc (log_next l)] = log_first l"
      using le by (simp del: upt_Suc add: upt_conv_Cons)
    ultimately show ?thesis
      using r Some le lim check_contiguous_upt [of "Suc (log_next l)" "log_first l"]
      by (simp add: discover_segment_layout_def dir_repr_list_segments [OF assms] layout_of_def o_def)
  qed
qed

lemma segment_path_layout:
  "segment_path (layout_of l) s =
     (if log_first l \<le> s \<and> s < log_next l then Some (sealed_path s)
      else if s = log_next l \<and> log_active l \<noteq> None then Some (active_path s)
      else None)"
  by (auto simp: segment_path_def layout_of_def map_of_map_self split: option.splits)

lemma next_segment_cursor_layout:
  assumes "dir_repr cd limit d l"
  shows "next_segment_cursor (layout_of l) =
    (if log_active l = None \<and> log_sealed l \<noteq> [] then Some (cursor_new (log_next l) 0) else None)"
proof (cases "log_active l = None \<and> log_sealed l \<noteq> []")
  case True
  then have "log_first l < log_next l" by (simp add: log_next_def)
  moreover have "log_next l \<le> u64_max"
    using assms seq_limit_le [of "log_next l"] by (simp add: dir_repr_def)
  ultimately show ?thesis
    using True by (simp add: next_segment_cursor_def layout_of_def last_map)
next
  case False
  then show ?thesis by (auto simp: next_segment_cursor_def layout_of_def log_next_def)
qed

section \<open>Contents\<close>

text \<open>The batches of segment \<open>s\<close>.\<close>

definition log_segment :: "log \<Rightarrow> nat \<Rightarrow> captured_batch list option" where
  "log_segment l s =
     (if log_first l \<le> s \<and> s < log_next l then Some (log_sealed l ! (s - log_first l))
      else if s = log_next l then log_active l
      else None)"

lemma log_segment_content:
  assumes "dir_repr cd limit d l" and "log_segment l s = Some bs"
  shows "segment_ok cd limit bs
    \<and> (\<exists>path. segment_path (layout_of l) s = Some path \<and> map_of d path = Some (frames cd bs))"
proof (cases "log_first l \<le> s \<and> s < log_next l")
  case True
  then have i: "s - log_first l < length (log_sealed l)" "s = log_first l + (s - log_first l)"
    by (auto simp: log_next_def)
  have bs: "bs = log_sealed l ! (s - log_first l)" using assms(2) True by (simp add: log_segment_def)
  have "map_of d (sealed_path s) = Some (frames cd bs)"
    using assms(1) i bs unfolding dir_repr_def by metis
  moreover have "segment_ok cd limit bs" using assms(1) i(1) bs by (simp add: dir_repr_def)
  ultimately show ?thesis using True by (simp add: segment_path_layout)
next
  case False
  then have "s = log_next l" "log_active l = Some bs"
    using assms(2) by (auto simp: log_segment_def split: if_splits)
  with assms(1) show ?thesis by (simp add: dir_repr_def segment_path_layout log_next_def)
qed

lemma log_segment_none:
  "log_segment l s = None \<Longrightarrow> segment_path (layout_of l) s = None"
  by (auto simp: log_segment_def segment_path_layout split: if_splits)

section \<open>Cursors on record boundaries\<close>

text \<open>The offset after the first \<open>k\<close> records of a segment.\<close>

abbreviation offset_at :: "wal_codec \<Rightarrow> captured_batch list \<Rightarrow> nat \<Rightarrow> nat" where
  "offset_at cd bs k \<equiv> length (frames cd (take k bs))"

lemma boundary_step:
  assumes ok: "record_ok cd limit b" and size: "length (pre @ frame_of cd b @ rest) \<le> u64_max"
    and target: "length pre < target"
  shows "boundary_loop (pre @ frame_of cd b @ rest) seg target limit (length pre) =
    (if target < length pre + length (frame_of cd b) then Inr False
     else boundary_loop (pre @ frame_of cd b @ rest) seg target limit (length (pre @ frame_of cd b)))"
proof -
  obtain p where p: "length p \<le> limit" "length p \<le> u32_max" "frame_of cd b = encode_frame cd p"
    using ok by (rule record_okE)
  obtain c where c: "c = pre @ frame_header cd p @ p @ rest" by simp
  have content: "pre @ frame_of cd b @ rest = c" using c p(3) by (simp add: encode_frame_split)
  have hd: "take record_header_bytes (drop (length pre) c) = frame_header cd p" using c by simp
  have "length pre + (record_header_bytes + length p) \<le> u64_max"
    using size p(3) by (simp add: length_encode_frame)
  then have "boundary_loop c seg target limit (length pre) =
    (if target < length pre + (record_header_bytes + length p) then Inr False
     else boundary_loop c seg target limit (length pre + (record_header_bytes + length p)))"
    using p hd target by (subst boundary_loop.simps) (simp add: frame_simps Let_def)
  then show ?thesis using content p(3) by (simp add: length_encode_frame)
qed

lemma boundary_frames:
  assumes "records_ok cd limit bs" and "length (pre @ frames cd bs) \<le> u64_max"
    and "length pre \<le> target" and "target \<le> length (pre @ frames cd bs)"
  shows "boundary_loop (pre @ frames cd bs) seg target limit (length pre) =
    Inr (\<exists>k \<le> length bs. target = length pre + offset_at cd bs k)"
  using assms
proof (induction bs arbitrary: pre)
  case Nil
  then show ?case by (subst boundary_loop.simps) simp
next
  case (Cons b bs)
  have ok: "record_ok cd limit b" "records_ok cd limit bs" using Cons.prems(1) by simp_all
  have split: "(\<exists>k \<le> length (b # bs). target = length pre + offset_at cd (b # bs) k) \<longleftrightarrow>
      target = length pre \<or>
      (\<exists>k \<le> length bs. target = length (pre @ frame_of cd b) + offset_at cd bs k)"
    unfolding list.size(4) One_nat_def add_Suc_right add_0_right ex_le_Suc by (simp add: add.assoc)
  show ?case
  proof (cases "target = length pre")
    case True
    then show ?thesis using split by (subst boundary_loop.simps) simp
  next
    case False
    then have "length pre < target" using Cons.prems(3) by simp
    then have step: "boundary_loop (pre @ frames cd (b # bs)) seg target limit (length pre) =
      (if target < length (pre @ frame_of cd b) then Inr False
       else boundary_loop ((pre @ frame_of cd b) @ frames cd bs) seg target limit
              (length (pre @ frame_of cd b)))"
      using boundary_step [OF ok(1), of pre "frames cd bs" target seg] Cons.prems(2) by simp
    show ?thesis
    proof (cases "target < length (pre @ frame_of cd b)")
      case True
      then show ?thesis using step split False by auto
    next
      case False
      then have "boundary_loop ((pre @ frame_of cd b) @ frames cd bs) seg target limit
          (length (pre @ frame_of cd b))
        = Inr (\<exists>k \<le> length bs. target = length (pre @ frame_of cd b) + offset_at cd bs k)"
        by (intro Cons.IH ok) (use Cons.prems(2,4) in simp_all)
      then show ?thesis using step split False \<open>target \<noteq> length pre\<close> by simp
    qed
  qed
qed

lemma record_boundary_iff:
  assumes "segment_ok cd limit bs" and "target \<le> length (frames cd bs)"
  shows "is_record_boundary (frames cd bs) seg target limit =
    Inr (\<exists>k \<le> length bs. target = offset_at cd bs k)"
proof (cases "target = 0")
  case True
  then show ?thesis by (auto simp: is_record_boundary_def intro!: exI [where x = 0])
next
  case False
  then show ?thesis
    using boundary_frames [of cd limit bs "[]" target seg] assms
    by (simp add: is_record_boundary_def segment_ok_def)
qed

theorem validate_cursor_iff:
  assumes r: "dir_repr cd limit d l" and s: "log_segment l (segment c) = Some bs"
  shows "validate_cursor cd d (layout_of l) c limit = Inr v \<longleftrightarrow>
    v = length (frames cd bs) \<and> (\<exists>k \<le> length bs. byte_offset c = offset_at cd bs k)"
proof -
  obtain path where path: "segment_ok cd limit bs" "segment_path (layout_of l) (segment c) = Some path"
    "map_of d path = Some (frames cd bs)"
    using log_segment_content [OF r s] by blast
  have scan: "scan_segment cd (frames cd bs) (segment c) limit False
      = Inr (\<lparr>valid_bytes = length (frames cd bs), truncated_tail = False\<rparr>, frames cd bs)"
    by (rule scan_intact) (use path(1) in \<open>simp_all add: segment_ok_def\<close>)
  have bound: "offset_at cd bs k \<le> length (frames cd bs)" for k
  proof -
    have "frames cd bs = frames cd (take k bs) @ frames cd (drop k bs)"
      by (metis append_take_drop_id concat_append map_append)
    then show ?thesis by (metis le_add1 length_append)
  qed
  show ?thesis
  proof (cases "length (frames cd bs) < byte_offset c")
    case True
    then show ?thesis using path scan bound by (auto simp: validate_cursor_def not_less [symmetric])
  next
    case False
    then have "is_record_boundary (frames cd bs) (segment c) (byte_offset c) limit =
        Inr (\<exists>k \<le> length bs. byte_offset c = offset_at cd bs k)"
      using record_boundary_iff [OF path(1)] by simp
    then show ?thesis using path scan False
      by (cases "\<exists>k \<le> length bs. byte_offset c = offset_at cd bs k") (auto simp: validate_cursor_def)
  qed
qed

end
