(* ===== verification/WalCorrect.thy ===== *)
theory WalCorrect
  imports WalWriter
begin

text \<open>
  Correctness of the writer of the log: it implements an append-only list of records
  (\<open>log_put\<close>, \<open>log_rotate\<close>), failures poison it, and \<open>open\<close> recovers after a crash exactly
  the intact records, which include every synced one.
\<close>

section \<open>The contract\<close>

definition log_rotate :: "log \<Rightarrow> log" where
  "log_rotate l =
     (case log_active l of
        None \<Rightarrow> l
      | Some bs \<Rightarrow> l\<lparr>log_sealed := log_sealed l @ [bs], log_active := Some []\<rparr>)"

definition log_put :: "wal_codec \<Rightarrow> nat \<Rightarrow> captured_batch \<Rightarrow> log \<Rightarrow> log" where
  "log_put cd target b l =
     (case log_active l of
        None \<Rightarrow> l
      | Some bs \<Rightarrow>
          if bs \<noteq> [] \<and> target < length (frames cd bs) + length (frame_of cd b)
          then (log_rotate l)\<lparr>log_active := Some [b]\<rparr>
          else l\<lparr>log_active := Some (bs @ [b])\<rparr>)"

lemma log_records_put: "log_active l \<noteq> None \<Longrightarrow> log_records (log_put cd target b l) = log_records l @ [b]"
  by (auto simp: log_put_def log_rotate_def log_records_def)

lemma log_records_rotate: "log_records (log_rotate l) = log_records l"
  by (auto simp: log_rotate_def log_records_def split: option.splits)

definition config_ok :: "wal_config \<Rightarrow> bool" where
  "config_ok cfg \<longleftrightarrow> max_record_bytes cfg \<le> u32_max \<and> segment_target_bytes cfg < u64_max"

definition writer_inv :: "wal_codec \<Rightarrow> wal_writer \<Rightarrow> log \<Rightarrow> bool" where
  "writer_inv cd w l \<longleftrightarrow>
     \<not> w_poisoned w \<and> config_ok (w_config w)
     \<and> dir_repr cd (max_record_bytes (w_config w)) (w_dir w) l
     \<and> w_seq w = log_next l
     \<and> (\<exists>bs. log_active l = Some bs \<and> w_bytes w = length (frames cd bs)
          \<and> (\<exists>k \<le> length bs. w_synced w = offset_at cd bs k))"

text \<open>The records that lie wholly within the first \<open>n\<close> bytes of a segment.\<close>

fun whole_records :: "wal_codec \<Rightarrow> captured_batch list \<Rightarrow> nat \<Rightarrow> captured_batch list" where
  "whole_records cd [] n = []"
| "whole_records cd (b # bs) n =
     (if length (frame_of cd b) \<le> n
      then b # whole_records cd bs (n - length (frame_of cd b)) else [])"

definition durable_records :: "wal_codec \<Rightarrow> wal_writer \<Rightarrow> log \<Rightarrow> captured_batch list" where
  "durable_records cd w l =
     concat (log_sealed l) @
     (case log_active l of None \<Rightarrow> [] | Some bs \<Rightarrow> whole_records cd bs (w_synced w))"

lemma whole_records_all: "length (frames cd bs) \<le> n \<Longrightarrow> whole_records cd bs n = bs"
  by (induction bs arbitrary: n) auto

lemma whole_records_mono: "m \<le> n \<Longrightarrow> \<exists>cs. whole_records cd bs n = whole_records cd bs m @ cs"
  by (induction bs arbitrary: m n) auto

lemma whole_records_prefix: "\<exists>cs. bs = whole_records cd bs n @ cs"
  by (induction bs arbitrary: n) auto

lemma whole_records_ok:
  assumes "segment_ok cd limit bs"
  shows "segment_ok cd limit (whole_records cd bs n)"
proof -
  obtain cs where cs: "whole_records cd bs n @ cs = bs" using whole_records_prefix by metis
  have "segment_ok cd limit (whole_records cd bs n @ cs)" using assms unfolding cs .
  then show ?thesis by (simp add: segment_ok_def)
qed

text \<open>A file cut after \<open>k\<close> bytes: the whole records, then a strict prefix of the next frame.\<close>

lemma cut_frames:
  assumes "records_ok cd limit bs" and "k \<le> length (frames cd bs)"
  shows "take k (frames cd bs) = frames cd (whole_records cd bs k) \<or>
    (\<exists>b m. record_ok cd limit b \<and> 0 < m \<and> m < length (frame_of cd b)
       \<and> length (frames cd (whole_records cd bs k) @ frame_of cd b) \<le> length (frames cd bs)
       \<and> take k (frames cd bs) = frames cd (whole_records cd bs k) @ take m (frame_of cd b))"
  using assms
proof (induction bs arbitrary: k)
  case Nil
  then show ?case by simp
next
  case (Cons b bs)
  show ?case
  proof (cases "length (frame_of cd b) \<le> k")
    case True
    then have t: "take k (frames cd (b # bs)) = frame_of cd b @ take (k - length (frame_of cd b)) (frames cd bs)"
      by simp
    have w: "whole_records cd (b # bs) k = b # whole_records cd bs (k - length (frame_of cd b))"
      using True by simp
    have "take (k - length (frame_of cd b)) (frames cd bs)
        = frames cd (whole_records cd bs (k - length (frame_of cd b))) \<or>
      (\<exists>c m. record_ok cd limit c \<and> 0 < m \<and> m < length (frame_of cd c)
         \<and> length (frames cd (whole_records cd bs (k - length (frame_of cd b))) @ frame_of cd c)
             \<le> length (frames cd bs)
         \<and> take (k - length (frame_of cd b)) (frames cd bs)
             = frames cd (whole_records cd bs (k - length (frame_of cd b))) @ take m (frame_of cd c))"
      by (rule Cons.IH) (use Cons.prems True in auto)
    then show ?thesis unfolding t w by auto
  next
    case False
    show ?thesis
    proof (cases "k = 0")
      case False
      then show ?thesis using Cons.prems \<open>\<not> length (frame_of cd b) \<le> k\<close>
        by (intro disjI2 exI [of _ b] exI [of _ k]) simp
    qed (use \<open>\<not> length (frame_of cd b) \<le> k\<close> in simp)
  qed
qed

section \<open>Writing\<close>

lemma whole_records_append: "\<exists>more. whole_records cd (bs @ cs) n = whole_records cd bs n @ more"
  by (induction bs arbitrary: n) auto

lemma seal_nonempty_refines:
  assumes inv: "writer_inv cd w l" and io: "io_fine io" and lim: "w_seq w + 1 < seq_limit"
  shows "\<exists>w'. seal_nonempty io w = (Inr (), w') \<and> writer_inv cd w' (log_rotate l)
    \<and> w_config w' = w_config w \<and> w_bytes w' = 0"
proof -
  let ?limit = "max_record_bytes (w_config w)"
  obtain bs where a: "log_active l = Some bs" and r: "dir_repr cd ?limit (w_dir w) l"
    and s: "w_seq w = log_next l"
    using inv by (auto simp: writer_inv_def)
  let ?l1 = "l\<lparr>log_sealed := log_sealed l @ [bs], log_active := None\<rparr>"
  let ?d1 = "AList.update (sealed_path (log_next l)) (frames cd bs)
    (AList.delete (active_path (log_next l)) (w_dir w))"
  have "map_of (w_dir w) (active_path (log_next l)) = Some (frames cd bs)"
    using r a by (simp add: dir_repr_def)
  then have ren: "dir_rename (active_path (w_seq w)) (sealed_path (w_seq w)) (w_dir w) = Some ?d1"
    using s by (simp add: dir_rename_def)
  have r1: "dir_repr cd ?limit ?d1 ?l1" using dir_repr_seal [OF r a] lim s by simp
  have n1: "log_next ?l1 = w_seq w + 1" using s by (simp add: log_next_def)
  note c = dir_repr_create [OF r1, simplified n1]
  have "seal_nonempty io w = (Inr (), w\<lparr>w_dir := AList.update (active_path (w_seq w + 1)) [] ?d1,
      w_seq := w_seq w + 1, w_bytes := 0, w_synced := 0\<rparr>)"
    using io ren c(2) lim seq_limit_le [of "w_seq w + 1"]
    by (simp add: seal_nonempty_def io_fine_def open_new_active_def)
  moreover have "log_rotate l = ?l1\<lparr>log_active := Some []\<rparr>"
    using a by (simp add: log_rotate_def)
  moreover have "log_next (?l1\<lparr>log_active := Some []\<rparr>) = w_seq w + 1" using n1 by (simp add: log_next_def)
  ultimately show ?thesis
    using inv c(1) by (auto simp: writer_inv_def)
qed

text \<open>Writing one frame into an active segment with room for it.\<close>

lemma write_frame_refines:
  assumes inv: "writer_inv cd w l" and io: "io_fine io"
    and ok: "record_ok cd (max_record_bytes (w_config w)) b" and p: "to_vec cd b = Some p"
    and room: "w_bytes w + (record_header_bytes + length p) \<le> u64_max"
    and a: "log_active l = Some bs"
  shows "\<exists>r w'. write_frame io cd w p n = (Inr r, w')
    \<and> writer_inv cd w' (l\<lparr>log_active := Some (bs @ [b])\<rparr>)
    \<and> w_config w' = w_config w \<and> w_synced w' = w_synced w \<and> w_seq w' = w_seq w
    \<and> r = \<lparr>span = \<lparr>span_start = cursor_new (w_seq w) (w_bytes w),
                   span_end = cursor_new (w_seq w) (w_bytes w + length (frame_of cd b)),
                   framed_bytes = length (frame_of cd b)\<rparr>, event_count = n\<rparr>"
proof -
  let ?limit = "max_record_bytes (w_config w)"
  have r: "dir_repr cd ?limit (w_dir w) l" and s: "w_seq w = log_next l"
    and bytes: "w_bytes w = length (frames cd bs)"
    using inv a by (auto simp: writer_inv_def)
  obtain k where k: "k \<le> length bs" "w_synced w = offset_at cd bs k"
    using inv a by (auto simp: writer_inv_def)
  have f: "frame_of cd b = encode_frame cd p" using p by (simp add: frame_of_def)
  have lf: "length (frame_of cd b) = record_header_bytes + length p"
    using f by (simp add: length_encode_frame)
  have ok': "segment_ok cd ?limit (bs @ [b])"
    using r a ok room bytes lf by (auto simp: dir_repr_def segment_ok_def)
  have "map_of (w_dir w) (active_path (w_seq w)) = Some (frames cd bs)"
    using r a s by (simp add: dir_repr_def)
  then have d: "dir_append (active_path (w_seq w)) (encode_frame cd p) (w_dir w)
      = AList.update (active_path (log_next l)) (frames cd (bs @ [b])) (w_dir w)"
    using s f by (simp add: dir_append_def)
  have r': "dir_repr cd ?limit (AList.update (active_path (log_next l)) (frames cd (bs @ [b])) (w_dir w))
      (l\<lparr>log_active := Some (bs @ [b])\<rparr>)"
    by (rule dir_repr_write [OF r a ok'])
  let ?w = "w\<lparr>w_dir := AList.update (active_path (log_next l)) (frames cd (bs @ [b])) (w_dir w),
    w_bytes := w_bytes w + length (frame_of cd b)\<rparr>"
  let ?l = "l\<lparr>log_active := Some (bs @ [b])\<rparr>"
  have "writer_inv cd ?w ?l"
    unfolding writer_inv_def
  proof (intro conjI exI [where x = "bs @ [b]"] exI [where x = k])
    show "w_seq ?w = log_next ?l" using s by (simp add: log_next_def)
    show "dir_repr cd (max_record_bytes (w_config ?w)) (w_dir ?w) ?l" using r' by simp
  qed (use inv k bytes in \<open>simp_all add: writer_inv_def\<close>)
  moreover have "write_frame io cd w p n
      = (Inr \<lparr>span = \<lparr>span_start = cursor_new (w_seq w) (w_bytes w),
                   span_end = cursor_new (w_seq w) (w_bytes w + length (frame_of cd b)),
                   framed_bytes = length (frame_of cd b)\<rparr>, event_count = n\<rparr>, ?w)"
    using io d lf by (simp add: write_frame_def io_fine_def Let_def)
  ultimately show ?thesis by auto
qed

text \<open>The append-only contract of \<open>write\<close>: one record more, the receipt names its bytes.\<close>

theorem wal_write_refines:
  assumes inv: "writer_inv cd w l" and io: "io_fine io" and lim: "w_seq w + 1 < seq_limit"
    and ok: "record_ok cd (max_record_bytes (w_config w)) b"
  shows "\<exists>r w'. wal_write io cd w b = (Inr r, w')
    \<and> writer_inv cd w' (log_put cd (segment_target_bytes (w_config w)) b l)
    \<and> w_config w' = w_config w
    \<and> event_count r = length (events b)
    \<and> framed_bytes (span r) = length (frame_of cd b)
    \<and> segment (span_start (span r)) = w_seq w'
    \<and> span_end (span r) = cursor_new (w_seq w') (w_bytes w')
    \<and> byte_offset (span_start (span r)) + length (frame_of cd b) = w_bytes w'
    \<and> (\<exists>more. durable_records cd w' (log_put cd (segment_target_bytes (w_config w)) b l)
         = durable_records cd w l @ more)"
proof -
  obtain p where p: "to_vec cd b = Some p" "length p \<le> max_record_bytes (w_config w)"
    "length p \<le> u32_max" "events b \<noteq> []" "frame_of cd b = encode_frame cd p"
    using ok by (rule record_okE)
  obtain bs where a: "log_active l = Some bs" and bytes: "w_bytes w = length (frames cd bs)"
    and r: "dir_repr cd (max_record_bytes (w_config w)) (w_dir w) l"
    and target: "segment_target_bytes (w_config w) < u64_max"
    using inv by (auto simp: writer_inv_def config_ok_def)
  have oks: "records_ok cd (max_record_bytes (w_config w)) bs"
    using r a by (simp add: dir_repr_def segment_ok_def)
  have lf: "length (frame_of cd b) = record_header_bytes + length p"
    using p(5) by (simp add: length_encode_frame)
  have small: "record_header_bytes + length p \<le> u64_max"
    using p(3) by (simp add: u32_max_def u64_max_def record_header_bytes_def)
  have np: "\<not> w_poisoned w" using inv by (simp add: writer_inv_def)
  let ?rotate = "0 < w_bytes w
    \<and> segment_target_bytes (w_config w) < sat_add u64_max (w_bytes w) (record_header_bytes + length p)"
  have rot_iff: "?rotate \<longleftrightarrow>
      bs \<noteq> [] \<and> segment_target_bytes (w_config w) < length (frames cd bs) + length (frame_of cd b)"
    using frames_nonempty_iff [OF oks] sat_add_le_iff [OF target] bytes lf by (auto simp: not_le [symmetric])
  show ?thesis
  proof (cases ?rotate)
    case True
    obtain w1 where w1: "seal_nonempty io w = (Inr (), w1)" "writer_inv cd w1 (log_rotate l)"
      "w_config w1 = w_config w" "w_bytes w1 = 0"
      using seal_nonempty_refines [OF inv io lim] by blast
    have a1: "log_active (log_rotate l) = Some []" using a by (simp add: log_rotate_def)
    have ok1: "record_ok cd (max_record_bytes (w_config w1)) b"
      and room1: "w_bytes w1 + (record_header_bytes + length p) \<le> u64_max"
      using ok w1(3,4) small by simp_all
    obtain rc w2 where w2: "write_frame io cd w1 p (length (events b)) = (Inr rc, w2)"
      "writer_inv cd w2 ((log_rotate l)\<lparr>log_active := Some ([] @ [b])\<rparr>)" "w_config w2 = w_config w1"
      "w_seq w2 = w_seq w1"
      "rc = \<lparr>span = \<lparr>span_start = cursor_new (w_seq w1) (w_bytes w1),
             span_end = cursor_new (w_seq w1) (w_bytes w1 + length (frame_of cd b)),
             framed_bytes = length (frame_of cd b)\<rparr>, event_count = length (events b)\<rparr>"
      using write_frame_refines [OF w1(2) io ok1 p(1) room1 a1] by blast
    have "w_bytes w2 = length (frame_of cd b)" using w2(2) by (auto simp: writer_inv_def)
    moreover have "log_put cd (segment_target_bytes (w_config w)) b l
        = (log_rotate l)\<lparr>log_active := Some [b]\<rparr>"
      using True rot_iff a by (simp add: log_put_def)
    moreover have "\<exists>more. durable_records cd w2 ((log_rotate l)\<lparr>log_active := Some [b]\<rparr>)
        = durable_records cd w l @ more"
    proof -
      obtain rest where "bs = whole_records cd bs (w_synced w) @ rest" using whole_records_prefix by blast
      then have "concat (log_sealed l) @ bs = durable_records cd w l @ rest"
        using a by (simp add: durable_records_def)
      moreover have "durable_records cd w2 ((log_rotate l)\<lparr>log_active := Some [b]\<rparr>)
          = (concat (log_sealed l) @ bs) @ whole_records cd [b] (w_synced w2)"
        using a by (simp add: durable_records_def log_rotate_def)
      ultimately show ?thesis by (metis append_assoc)
    qed
    ultimately show ?thesis
      using True np p w1 w2 by (simp add: wal_write_def Let_def cursor_new_def)
  next
    case False
    have room: "w_bytes w + (record_header_bytes + length p) \<le> u64_max"
    proof (cases "w_bytes w = 0")
      case False
      then show ?thesis using \<open>\<not> ?rotate\<close> sat_add_le_iff [OF target] target by (auto simp: not_less)
    qed (use small in simp)
    obtain rc w2 where w2: "write_frame io cd w p (length (events b)) = (Inr rc, w2)"
      "writer_inv cd w2 (l\<lparr>log_active := Some (bs @ [b])\<rparr>)" "w_config w2 = w_config w"
      "w_seq w2 = w_seq w" "w_synced w2 = w_synced w"
      "rc = \<lparr>span = \<lparr>span_start = cursor_new (w_seq w) (w_bytes w),
             span_end = cursor_new (w_seq w) (w_bytes w + length (frame_of cd b)),
             framed_bytes = length (frame_of cd b)\<rparr>, event_count = length (events b)\<rparr>"
      using write_frame_refines [OF inv io ok p(1) room a] by blast
    have "w_bytes w2 = w_bytes w + length (frame_of cd b)"
      using w2(2) bytes by (auto simp: writer_inv_def)
    moreover have "log_put cd (segment_target_bytes (w_config w)) b l = l\<lparr>log_active := Some (bs @ [b])\<rparr>"
      using False rot_iff a by (auto simp: log_put_def)
    moreover have "\<exists>more. durable_records cd w2 (l\<lparr>log_active := Some (bs @ [b])\<rparr>)
        = durable_records cd w l @ more"
      using a w2(5) whole_records_append [of cd bs "[b]"] by (simp add: durable_records_def)
    ultimately show ?thesis
      using False np p w2 by (auto simp: wal_write_def Let_def cursor_new_def)
  qed
qed

section \<open>Sync, append, seal\<close>

lemma wal_sync_refines:
  assumes "writer_inv cd w l" and "io_fine io"
  shows "\<exists>w'. wal_sync io w = (Inr (), w') \<and> writer_inv cd w' l \<and> w_config w' = w_config w
    \<and> w_dir w' = w_dir w \<and> w_seq w' = w_seq w \<and> w_bytes w' = w_bytes w
    \<and> durable_records cd w' l = log_records l"
proof -
  obtain bs where a: "log_active l = Some bs" "w_bytes w = length (frames cd bs)"
    using assms(1) by (auto simp: writer_inv_def)
  let ?w = "w\<lparr>w_synced := w_bytes w\<rparr>"
  have "writer_inv cd ?w l"
    using assms(1) a by (auto simp: writer_inv_def intro!: exI [where x = "length bs"])
  moreover have "wal_sync io w = (Inr (), ?w)"
    using assms by (simp add: wal_sync_def io_fine_def writer_inv_def)
  moreover have "durable_records cd ?w l = log_records l"
    using a by (simp add: durable_records_def log_records_def whole_records_all)
  ultimately show ?thesis by auto
qed

theorem wal_append_refines:
  assumes inv: "writer_inv cd w l" and io: "io_fine io" and lim: "w_seq w + 1 < seq_limit"
    and ok: "record_ok cd (max_record_bytes (w_config w)) b"
  shows "\<exists>r w' l'. wal_append io cd w b = (Inr r, w') \<and> writer_inv cd w' l'
    \<and> log_records l' = log_records l @ [b] \<and> durable_records cd w' l' = log_records l @ [b]
    \<and> w_config w' = w_config w"
proof -
  let ?l = "log_put cd (segment_target_bytes (w_config w)) b l"
  obtain r w1 where w1: "wal_write io cd w b = (Inr r, w1)" "writer_inv cd w1 ?l"
    "w_config w1 = w_config w"
    using wal_write_refines [OF inv io lim ok] by blast
  obtain w2 where w2: "wal_sync io w1 = (Inr (), w2)" "writer_inv cd w2 ?l"
    "w_config w2 = w_config w1" "durable_records cd w2 ?l = log_records ?l"
    using wal_sync_refines [OF w1(2) io] by blast
  have "log_active l \<noteq> None" using inv by (auto simp: writer_inv_def)
  then have "log_records ?l = log_records l @ [b]" by (rule log_records_put)
  then show ?thesis using w1 w2 by (auto simp: wal_append_def)
qed

lemma wal_seal_refines:
  assumes inv: "writer_inv cd w l" and io: "io_fine io" and lim: "w_seq w + 1 < seq_limit"
  shows "\<exists>w' l'. wal_seal io w = (Inr (cursor_new (w_seq w') 0), w') \<and> writer_inv cd w' l'
    \<and> log_records l' = log_records l \<and> log_active l' = Some [] \<and> w_config w' = w_config w
    \<and> durable_records cd w' l' = log_records l"
proof (cases "0 < w_bytes w")
  case True
  obtain w1 where w1: "seal_nonempty io w = (Inr (), w1)" "writer_inv cd w1 (log_rotate l)"
    "w_config w1 = w_config w"
    using seal_nonempty_refines [OF inv io lim] by blast
  moreover have "log_active (log_rotate l) = Some []"
    using inv by (auto simp: writer_inv_def log_rotate_def)
  ultimately show ?thesis
    using True inv by (auto simp: wal_seal_def writer_inv_def log_records_rotate durable_records_def
        log_records_def log_rotate_def)
next
  case False
  obtain bs where bs: "log_active l = Some bs" "w_bytes w = length (frames cd bs)"
    "dir_repr cd (max_record_bytes (w_config w)) (w_dir w) l"
    using inv by (auto simp: writer_inv_def)
  then have "records_ok cd (max_record_bytes (w_config w)) bs"
    by (simp add: dir_repr_def segment_ok_def)
  then have "bs = []" using False bs(2) frames_nonempty_iff by fastforce
  then show ?thesis using False inv bs(1)
    by (auto simp: wal_seal_def writer_inv_def durable_records_def log_records_def)
qed

section \<open>Poison\<close>

text \<open>
  A failed system call poisons the writer, and a poisoned writer refuses everything and changes
  nothing. (A full number range stops the writer without poisoning it; the bound on sequence
  numbers excludes it.)
\<close>

theorem poisoned_refuses:
  assumes "w_poisoned w"
  shows "wal_write io cd w b = (Inl Poisoned, w)" and "wal_sync io w = (Inl Poisoned, w)"
    and "wal_append io cd w b = (Inl Poisoned, w)" and "wal_seal io w = (Inl Poisoned, w)"
  using assms by (simp_all add: wal_write_def wal_sync_def wal_append_def wal_seal_def)

lemma open_new_active_io: "open_new_active io d s = (Inl e, d') \<Longrightarrow> e = Io OtherIo"
  by (auto simp: open_new_active_def Let_def split: if_splits)

lemma seal_nonempty_io:
  "seal_nonempty io w = (Inl (Io e), w') \<Longrightarrow> w_poisoned w'"
  by (auto simp: seal_nonempty_def split: if_splits option.splits prod.splits sum.splits)

theorem io_failure_poisons:
  assumes "wal_append io cd w b = (Inl (Io e), w')"
  shows "w_poisoned w'"
  using assms seal_nonempty_io [of io w e w']
  by (auto simp: wal_append_def wal_write_def wal_sync_def write_frame_def Let_def
      split: if_splits option.splits prod.splits sum.splits)

section \<open>Recovery\<close>

lemma map_fst_update: "k \<in> fst ` set d \<Longrightarrow> map fst (AList.update k v d) = map fst d"
  by (induction d) auto

lemma layout_names:
  "map fst d' = map fst d \<Longrightarrow> discover_segment_layout d' = discover_segment_layout d"
  by (simp add: discover_segment_layout_def list_segments_def)

lemma torn_path_active: "torn_path (active_path s) = pad16 s @ ''.torn''"
  by (simp add: torn_path_def active_path_def)

lemma torn_path_entries:
  "sealed_entry (torn_path (active_path s)) = None" "open_entry (torn_path (active_path s)) = None"
  by (simp_all add: torn_path_active sealed_entry_def open_entry_def ends_with_def
      sealed_suffix_def open_suffix_def)

lemma dir_repr_other:
  assumes r: "dir_repr cd limit d l" and e: "sealed_entry n = None" "open_entry n = None"
  shows "dir_repr cd limit (AList.update n v d) l"
proof -
  note r' = r [unfolded dir_repr_def]
  have "sealed_path (log_first l + i) \<noteq> n" if "i < length (log_sealed l)" for i
  proof -
    have "log_first l + i < seq_limit" using r' that by (simp add: log_next_def)
    then show ?thesis using e(1) sealed_entry_path by force
  qed
  moreover have "active_path (log_next l) \<noteq> n"
    using r' e(2) open_entry_path [of "log_next l"] by force
  ultimately show ?thesis
    unfolding dir_repr_def using r' e by (simp add: dir_simps split: option.splits)
qed

lemma scan_sealed_ok:
  assumes r: "dir_repr cd limit d l"
    and same: "\<And>s. map_of d' (sealed_path s) = map_of d (sealed_path s)"
  shows "scan_sealed cd d' limit (sealed (layout_of l)) = Inr ()"
proof -
  have "scan_sealed cd d' limit (map (\<lambda>s. (s, sealed_path s)) ss) = Inr ()"
    if "\<forall>s \<in> set ss. log_first l \<le> s \<and> s < log_next l" for ss
    using that
  proof (induction ss)
    case Nil
    then show ?case by simp
  next
    case (Cons s ss)
    then have "log_segment l s = Some (log_sealed l ! (s - log_first l))"
      by (simp add: log_segment_def)
    from log_segment_content [OF r this] Cons.prems
    have ok: "segment_ok cd limit (log_sealed l ! (s - log_first l))"
      and c: "map_of d' (sealed_path s) = Some (frames cd (log_sealed l ! (s - log_first l)))"
      by (simp_all add: segment_path_layout same)
    have "scan_segment cd (frames cd (log_sealed l ! (s - log_first l))) s limit False
        = Inr (\<lparr>valid_bytes = length (frames cd (log_sealed l ! (s - log_first l))),
                truncated_tail = False\<rparr>, frames cd (log_sealed l ! (s - log_first l)))"
      by (rule scan_intact) (use ok in \<open>simp_all add: segment_ok_def\<close>)
    then show ?case using c Cons.IH Cons.prems by simp
  qed
  then show ?thesis by (simp add: layout_of_def)
qed

text \<open>Opening a log whose active segment scans as the frames \<open>cs\<close>.\<close>

lemma wal_open_repairs:
  assumes r: "dir_repr cd (max_record_bytes cfg) d l" and a: "log_active l = Some bs"
    and cfg: "config_ok cfg" and ok: "segment_ok cd (max_record_bytes cfg) cs"
    and scan: "scan_segment cd content (log_next l) (max_record_bytes cfg) True
      = Inr (\<lparr>valid_bytes = length (frames cd cs), truncated_tail = t\<rparr>, frames cd cs)"
  shows "\<exists>w. wal_open io cd (AList.update (active_path (log_next l)) content d) cfg False = Inr (w, t)
    \<and> writer_inv cd w (l\<lparr>log_active := Some cs\<rparr>) \<and> w_config w = cfg
    \<and> durable_records cd w (l\<lparr>log_active := Some cs\<rparr>) = concat (log_sealed l) @ cs"
proof -
  let ?limit = "max_record_bytes cfg" and ?path = "active_path (log_next l)"
  let ?d = "AList.update ?path content d" and ?l = "l\<lparr>log_active := Some cs\<rparr>"
  have mem: "?path \<in> fst ` set d"
  proof -
    have "map_of d ?path \<noteq> None" using r a by (simp add: dir_repr_def)
    then show ?thesis by (simp add: map_of_eq_None_iff)
  qed
  have layout: "discover_segment_layout ?d = Inr (layout_of l)"
    using dir_repr_layout [OF r] layout_names [OF map_fst_update [OF mem]] by simp
  have sealed: "scan_sealed cd ?d ?limit (sealed (layout_of l)) = Inr ()"
    by (rule scan_sealed_ok [OF r]) (simp add: dir_simps)
  obtain d1 where d1: "d1 = (case (if t then keep_torn_tail content (length (frames cd cs)) else None) of
      None \<Rightarrow> ?d | Some x \<Rightarrow> AList.update (torn_path ?path) x ?d)" by simp
  let ?w = "\<lparr>w_dir = AList.update ?path (frames cd cs) d1, w_config = cfg, w_seq = log_next l,
    w_bytes = length (frames cd cs), w_poisoned = False, w_synced = length (frames cd cs)\<rparr>"
  have open_eq: "wal_open io cd ?d cfg False = Inr (?w, t)"
    using layout sealed scan a d1
    by (simp add: wal_open_def layout_of_def dir_simps Let_def)
  have "dir_repr cd ?limit (AList.update ?path (frames cd cs) d1) ?l"
  proof -
    have dist: "distinct (map fst d)" using r by (simp add: dir_repr_def)
    have base: "dir_repr cd ?limit (AList.update ?path (frames cd cs) d) ?l"
      by (rule dir_repr_write [OF r a ok])
    then have plain: "dir_repr cd ?limit (AList.update ?path (frames cd cs) ?d) ?l"
      by (rule dir_repr_cong) (use dist in \<open>simp_all add: dir_simps\<close>)
    have "torn_path ?path \<noteq> ?path"
      unfolding torn_path_active by (simp add: active_path_def open_suffix_def)
    then have "dir_repr cd ?limit
        (AList.update ?path (frames cd cs) (AList.update (torn_path ?path) x ?d)) ?l" for x
      by (intro dir_repr_cong [OF dir_repr_other [OF base torn_path_entries(1) [of "log_next l"]
          torn_path_entries(2) [of "log_next l"], where v = x]])
        (use dist in \<open>simp_all add: dir_simps fun_upd_twist\<close>)
    with plain show ?thesis using d1 by (simp split: option.splits)
  qed
  then have "writer_inv cd ?w ?l"
    using cfg by (auto simp: writer_inv_def log_next_def intro!: exI [where x = "length cs"])
  moreover have "durable_records cd ?w ?l = concat (log_sealed l) @ cs"
    by (simp add: durable_records_def whole_records_all)
  ultimately show ?thesis using open_eq by auto
qed

section \<open>Crashes\<close>

text \<open>
  What a power loss leaves of the active segment: it keeps the synced bytes and loses any number
  of the bytes after them. Sealed segments were synced before their rename.
\<close>

inductive crash :: "wal_writer \<Rightarrow> directory \<Rightarrow> bool" where
  cut: "map_of (w_dir w) (active_path (w_seq w)) = Some content \<Longrightarrow> w_synced w \<le> k
    \<Longrightarrow> k \<le> length content
    \<Longrightarrow> crash w (AList.update (active_path (w_seq w)) (take k content) (w_dir w))"

inductive_cases crashE: "crash w d"

lemma scan_cut:
  assumes ok: "segment_ok cd limit bs" and k: "k \<le> length (frames cd bs)"
  shows "\<exists>t. scan_segment cd (take k (frames cd bs)) seg limit True
    = Inr (\<lparr>valid_bytes = length (frames cd (whole_records cd bs k)), truncated_tail = t\<rparr>,
           frames cd (whole_records cd bs k))"
proof -
  let ?ws = "whole_records cd bs k"
  have ws: "records_ok cd limit ?ws" "length (frames cd ?ws) \<le> u64_max"
    using whole_records_ok [OF ok, of k] by (simp_all add: segment_ok_def)
  have oks: "records_ok cd limit bs" "length (frames cd bs) \<le> u64_max"
    using ok by (simp_all add: segment_ok_def)
  from cut_frames [OF oks(1) k] show ?thesis
  proof (elim disjE exE conjE)
    assume "take k (frames cd bs) = frames cd ?ws"
    then show ?thesis using scan_intact [OF ws, of seg True] by auto
  next
    fix b m
    assume b: "record_ok cd limit b" "0 < m" "m < length (frame_of cd b)"
      "length (frames cd ?ws @ frame_of cd b) \<le> length (frames cd bs)"
      "take k (frames cd bs) = frames cd ?ws @ take m (frame_of cd b)"
    have size: "length (frames cd ?ws @ frame_of cd b) \<le> u64_max" using b(4) oks(2) by simp
    have "scan_loop cd (frames cd ?ws @ take m (frame_of cd b)) seg limit True (length (frames cd ?ws))
        = Inr (length (frames cd ?ws), True)"
      by (rule scan_cut_frame [OF b(1-3) size])
    then have "scan_segment cd (frames cd ?ws @ take m (frame_of cd b)) seg limit True
      = Inr (\<lparr>valid_bytes = length (frames cd ?ws), truncated_tail = True\<rparr>, frames cd ?ws)"
      by (rule scan_repairs_tail [OF ws(1), rotated]) (use size b(3) in simp)
    then show ?thesis using b(5) by auto
  qed
qed

theorem crash_recovery:
  assumes inv: "writer_inv cd w l" and crash: "crash w d"
  shows "\<exists>w' t l' kept lost. wal_open io cd d (w_config w) False = Inr (w', t)
    \<and> writer_inv cd w' l'
    \<and> log_records l' = durable_records cd w l @ kept
    \<and> log_records l = log_records l' @ lost
    \<and> durable_records cd w' l' = log_records l'"
proof -
  let ?limit = "max_record_bytes (w_config w)"
  obtain bs where a: "log_active l = Some bs" and r: "dir_repr cd ?limit (w_dir w) l"
    and s: "w_seq w = log_next l" and cfg: "config_ok (w_config w)"
    using inv by (auto simp: writer_inv_def)
  have content: "map_of (w_dir w) (active_path (w_seq w)) = Some (frames cd bs)"
    using r a s by (simp add: dir_repr_def)
  obtain k where k: "w_synced w \<le> k" "k \<le> length (frames cd bs)"
    "d = AList.update (active_path (w_seq w)) (take k (frames cd bs)) (w_dir w)"
    using crash content by (auto elim!: crashE)
  have ok: "segment_ok cd ?limit bs" using r a by (simp add: dir_repr_def)
  let ?ws = "whole_records cd bs k"
  obtain t where scan: "scan_segment cd (take k (frames cd bs)) (log_next l) ?limit True
      = Inr (\<lparr>valid_bytes = length (frames cd ?ws), truncated_tail = t\<rparr>, frames cd ?ws)"
    using scan_cut [OF ok k(2)] by blast
  obtain w' where w': "wal_open io cd d (w_config w) False = Inr (w', t)"
    "writer_inv cd w' (l\<lparr>log_active := Some ?ws\<rparr>)"
    "durable_records cd w' (l\<lparr>log_active := Some ?ws\<rparr>) = concat (log_sealed l) @ ?ws"
    using wal_open_repairs [OF r a cfg whole_records_ok [OF ok] scan] k(3) s by auto
  obtain kept where "?ws = whole_records cd bs (w_synced w) @ kept"
    using whole_records_mono [OF k(1)] by blast
  moreover obtain lost where "bs = ?ws @ lost" using whole_records_prefix by blast
  ultimately have "log_records (l\<lparr>log_active := Some ?ws\<rparr>) = durable_records cd w l @ kept"
    and "log_records l = log_records (l\<lparr>log_active := Some ?ws\<rparr>) @ lost"
    using a by (simp_all add: log_records_def durable_records_def)
  moreover have "durable_records cd w' (l\<lparr>log_active := Some ?ws\<rparr>)
      = log_records (l\<lparr>log_active := Some ?ws\<rparr>)"
    using w'(3) by (simp add: log_records_def)
  ultimately show ?thesis using w'(1,2) by blast
qed

text \<open>A crash between the rename of a full segment and the creation of the next one.\<close>

theorem open_between_segments:
  assumes r: "dir_repr cd (max_record_bytes cfg) d l" and a: "log_active l = None"
    and ne: "log_sealed l \<noteq> []" and cfg: "config_ok cfg" and io: "io_fine io"
  shows "\<exists>w. wal_open io cd d cfg False = Inr (w, False)
    \<and> writer_inv cd w (l\<lparr>log_active := Some []\<rparr>)
    \<and> log_records (l\<lparr>log_active := Some []\<rparr>) = log_records l"
proof -
  note c = dir_repr_create [OF r a]
  have lt: "log_first l < log_next l" using ne by (simp add: log_next_def)
  have lim: "log_next l \<le> u64_max" using r seq_limit_le [of "log_next l"] by (simp add: dir_repr_def)
  have "wal_open io cd d cfg False = Inr (\<lparr>w_dir = AList.update (active_path (log_next l)) [] d,
      w_config = cfg, w_seq = log_next l, w_bytes = 0, w_poisoned = False, w_synced = 0\<rparr>, False)"
    using dir_repr_layout [OF r] scan_sealed_ok [OF r refl] a lt lim io c(2)
    by (simp add: wal_open_def layout_of_def open_new_active_def io_fine_def Let_def last_map)
  moreover have "log_next (l\<lparr>log_active := Some []\<rparr>) = log_next l" by (simp add: log_next_def)
  ultimately show ?thesis
    using c(1) cfg a by (auto simp: writer_inv_def log_records_def)
qed

text \<open>A fresh directory.\<close>

definition empty_log :: log where
  "empty_log = \<lparr>log_first = 1, log_sealed = [], log_active = None\<rparr>"

lemma open_empty:
  assumes r: "dir_repr cd (max_record_bytes cfg) d empty_log" and cfg: "config_ok cfg" and io: "io_fine io"
  shows "\<exists>w. wal_open io cd d cfg False = Inr (w, False) \<and> w_seq w = 1 \<and> w_config w = cfg
    \<and> writer_inv cd w (empty_log\<lparr>log_active := Some []\<rparr>)"
proof -
  have e: "log_active empty_log = None" "log_sealed empty_log = []" "log_next empty_log = 1"
    by (simp_all add: empty_log_def log_next_def)
  note c = dir_repr_create [OF r e(1), unfolded e(3)]
  have "discover_segment_layout d = Inr \<lparr>sealed = [], active = None\<rparr>"
    using dir_repr_layout [OF r] by (simp add: layout_of_def empty_log_def log_next_def)
  then have "wal_open io cd d cfg False = Inr (\<lparr>w_dir = AList.update (active_path 1) [] d,
      w_config = cfg, w_seq = 1, w_bytes = 0, w_poisoned = False, w_synced = 0\<rparr>, False)"
    using io c(2) by (simp add: wal_open_def open_new_active_def io_fine_def u64_max_def)
  moreover have "log_next (empty_log\<lparr>log_active := Some []\<rparr>) = 1" using e(3) by simp
  ultimately show ?thesis using c(1) cfg by (auto simp: writer_inv_def)
qed

lemma dir_repr_nothing: "dir_repr cd limit [] empty_log"
  by (simp add: dir_repr_def empty_log_def log_next_def seq_limit_def)

lemma dir_repr_emptied:
  assumes "dir_repr cd limit d l" and "log_sealed l = []" and "log_active l = None"
  shows "dir_repr cd limit d empty_log"
  using assms by (fastforce simp: dir_repr_def empty_log_def log_next_def seq_limit_def)

section \<open>Zero-filled tails\<close>

text \<open>
  Blocks of zeros after the last record are cut off. But a group commit writes several frames
  before one sync; when the zeros begin inside the payload of a frame that is not the last one,
  \<open>open\<close> takes the torn group for damage and refuses the log, although nothing acknowledged is
  missing.
\<close>

theorem zero_tail_recovered:
  assumes "segment_ok cd limit bs" and "0 < n" and "length (frames cd bs) + n \<le> u64_max"
  shows "scan_segment cd (frames cd bs @ replicate n 0) seg limit True
    = Inr (\<lparr>valid_bytes = length (frames cd bs), truncated_tail = True\<rparr>, frames cd bs)"
  using assms scan_zero_tail [OF assms(2), of cd "frames cd bs" seg limit]
  by (intro scan_repairs_tail) (simp_all add: segment_ok_def)

theorem zero_fill_inside_group_refused:
  assumes ok: "segment_ok cd limit bs" and b: "record_ok cd limit b" "to_vec cd b = Some p"
    and j: "crc_hash cd (take j p @ replicate (length p - j) 0) \<noteq> crc_hash cd p" "j \<le> length p"
    and n: "0 < n" and size: "length (frames cd bs @ frame_of cd b) + n \<le> u64_max"
  shows "scan_segment cd
      (frames cd bs @ frame_header cd p @ (take j p @ replicate (length p - j) 0) @ replicate n 0)
      seg limit True
    = Inl (corruption seg (length (frames cd bs)) ''record checksum mismatch'')"
proof -
  let ?q = "take j p @ replicate (length p - j) 0"
  let ?c = "frames cd bs @ frame_header cd p @ ?q @ replicate n 0"
  have f: "length (frame_of cd b) = record_header_bytes + length p"
    using b(2) by (simp add: frame_of_def length_encode_frame)
  have "scan_loop cd ?c seg limit True (length (frames cd bs))
      = Inl (corruption seg (length (frames cd bs)) ''record checksum mismatch'')"
    using scan_bad_payload [OF b _ j(1), of "frames cd bs" "replicate n 0" seg True] j(2) n size f
    by simp
  moreover have "scan_loop cd ?c seg limit True 0 = scan_loop cd ?c seg limit True (length (frames cd bs))"
    using scan_frames [of cd limit bs "[]" "frame_header cd p @ ?q @ replicate n 0" seg True]
      ok size f j(2) by (simp add: segment_ok_def)
  ultimately show ?thesis by (simp add: scan_segment_def)
qed

end
