(* ===== verification/WalReaderCorrect.thy ===== *)
theory WalReaderCorrect
  imports WalReader
begin

text \<open>
  What the publisher's side of the log does to the records still pending at a cursor
  (\<open>cursor_pending\<close>): the iterator yields them in order and each once, a window yields a prefix of
  them that fits its budget, and the checkpoint after it is a cursor at which exactly the rest is
  pending. Between two calls the writer may append, seal and create segments: all that the reader
  relies on is that the sealed files of its snapshot are still there (\<open>holds_sealed\<close>).
\<close>

section \<open>Pending records\<close>

definition holds_sealed :: "wal_codec \<Rightarrow> directory \<Rightarrow> log \<Rightarrow> bool" where
  "holds_sealed cd d l \<longleftrightarrow> (\<forall>i < length (log_sealed l).
     map_of d (sealed_path (log_first l + i)) = Some (frames cd (log_sealed l ! i)))"

abbreviation sealed_at :: "log \<Rightarrow> nat \<Rightarrow> captured_batch list" where
  "sealed_at l s \<equiv> log_sealed l ! (s - log_first l)"

abbreviation after_segment :: "log \<Rightarrow> nat \<Rightarrow> captured_batch list" where
  "after_segment l s \<equiv> concat (drop (Suc (s - log_first l)) (log_sealed l))"

definition cursor_pending :: "wal_codec \<Rightarrow> log \<Rightarrow> wal_cursor \<Rightarrow> captured_batch list \<Rightarrow> bool" where
  "cursor_pending cd l c ps \<longleftrightarrow>
     log_first l \<le> segment c \<and>
     (if segment c < log_next l
      then (\<exists>k \<le> length (sealed_at l (segment c)).
              byte_offset c = offset_at cd (sealed_at l (segment c)) k
              \<and> ps = drop k (sealed_at l (segment c)) @ after_segment l (segment c))
      else segment c = log_next l \<and> ps = [] \<and>
        (case log_active l of
           Some bs \<Rightarrow> \<exists>k \<le> length bs. byte_offset c = offset_at cd bs k
         | None \<Rightarrow> byte_offset c = 0 \<and> log_sealed l \<noteq> []))"

lemma dir_repr_holds_sealed: "dir_repr cd limit d l \<Longrightarrow> holds_sealed cd d l"
  by (simp add: dir_repr_def holds_sealed_def)

lemma sealed_at_in:
  assumes "log_first l \<le> s" and "s < log_next l"
  shows "sealed_at l s \<in> set (log_sealed l)"
  using assms by (auto simp: log_next_def intro!: nth_mem)

lemma holds_sealedD:
  assumes "holds_sealed cd d l" and "log_first l \<le> s" and "s < log_next l"
  shows "map_of d (sealed_path s) = Some (frames cd (sealed_at l s))"
proof -
  have "s - log_first l < length (log_sealed l)" using assms(2,3) by (auto simp: log_next_def)
  then show ?thesis using assms(1,2) unfolding holds_sealed_def by force
qed

lemma validate_cursor_pending:
  assumes r: "dir_repr cd limit d l" and c: "cursor_pending cd l c ps"
  shows "validate_cursor cd d (layout_of l) c limit =
    Inr (case log_segment l (segment c) of None \<Rightarrow> 0 | Some bs \<Rightarrow> length (frames cd bs))"
proof (cases "log_segment l (segment c)")
  case (Some bs)
  moreover have "\<exists>k \<le> length bs. byte_offset c = offset_at cd bs k"
    using c Some by (auto simp: cursor_pending_def log_segment_def split: if_splits)
  ultimately show ?thesis using validate_cursor_iff [OF r Some] by simp
next
  case None
  then have "segment c = log_next l" "log_active l = None" "byte_offset c = 0" "log_sealed l \<noteq> []"
    using c by (auto simp: cursor_pending_def log_segment_def split: if_splits)
  then show ?thesis
    using None log_segment_none [OF None] next_segment_cursor_layout [OF r]
    by (simp add: validate_cursor_def cursor_new_def)
qed

lemma cursor_pending_start:
  assumes "log_first l \<le> s" and "s < log_next l"
  shows "cursor_pending cd l (cursor_new s 0) (concat (drop (s - log_first l) (log_sealed l)))"
proof -
  have "s - log_first l < length (log_sealed l)" using assms by (auto simp: log_next_def)
  then have "concat (drop (s - log_first l) (log_sealed l)) = sealed_at l s @ after_segment l s"
    by (simp add: Cons_nth_drop_Suc [symmetric])
  then show ?thesis
    using assms by (auto simp: cursor_pending_def cursor_new_def intro!: exI [where x = 0])
qed

lemma cursor_pending_end:
  assumes "log_first l < log_next l"
  shows "cursor_pending cd l (cursor_new (log_next l) 0) []"
  using assms by (auto simp: cursor_pending_def cursor_new_def log_next_def split: option.splits
      intro!: exI [where x = 0])

text \<open>A cursor the iterator leaves behind is never the end of a sealed segment.\<close>

definition cursor_normal :: "wal_codec \<Rightarrow> log \<Rightarrow> wal_cursor \<Rightarrow> bool" where
  "cursor_normal cd l c \<longleftrightarrow>
     (segment c < log_next l \<longrightarrow> byte_offset c < length (frames cd (sealed_at l (segment c))))"

lemma frames_drop: "frames cd bs = frames cd (take k bs) @ frames cd (drop k bs)"
  by (metis append_take_drop_id concat_append map_append)

section \<open>The iterator\<close>

text \<open>The segments of the snapshot from \<open>a\<close> on, and where the iterator stands in them.\<close>

definition reader_at ::
  "wal_codec \<Rightarrow> log \<Rightarrow> nat \<Rightarrow> sealed_records \<Rightarrow> captured_batch list \<Rightarrow> bool" where
  "reader_at cd l s st ps \<longleftrightarrow>
     log_first l \<le> s \<and> s < log_next l \<and>
     (\<exists>k \<le> length (sealed_at l s).
        next_position st = cursor_new s (offset_at cd (sealed_at l s) k)
        \<and> ps = drop k (sealed_at l s) @ after_segment l s
        \<and> (sr_file st = None
           \<or> sr_file st = Some (frames cd (sealed_at l s), offset_at cd (sealed_at l s) k)))"

definition reader_inv ::
  "wal_codec \<Rightarrow> nat \<Rightarrow> log \<Rightarrow> sealed_records \<Rightarrow> captured_batch list \<Rightarrow> bool" where
  "reader_inv cd limit l st ps \<longleftrightarrow>
     (\<forall>bs \<in> set (log_sealed l). segment_ok cd limit bs)
     \<and> record_limit st = limit \<and> \<not> sr_finished st
     \<and> terminal_cursor st = Some (cursor_new (log_next l) 0)
     \<and> cursor_pending cd l (next_position st) ps
     \<and> (\<exists>a. log_first l \<le> a
          \<and> segments st = map (\<lambda>s. (s, sealed_path s)) [a ..< log_next l]
          \<and> (if a + segment_index st < log_next l then reader_at cd l (a + segment_index st) st ps
             else ps = [] \<and> segment (next_position st) = log_next l))"

lemma filter_from: "filter (\<lambda>(s, _). m \<le> s) (map (\<lambda>s. (s, p s)) [f ..< n])
    = map (\<lambda>s. (s, p s)) [max f m ..< n]" for f :: nat
proof (induction n)
  case 0
  then show ?case by simp
next
  case (Suc n)
  then show ?case by (cases "f \<le> n"; cases "m \<le> n") (auto simp: max_def)
qed

lemma reader_open_inv:
  assumes r: "dir_repr cd limit d l" and c: "cursor_pending cd l c ps"
  shows "\<exists>st. sealed_records_open_once cd d c limit = Inr st \<and> reader_inv cd limit l st ps
    \<and> next_position st = c"
proof -
  let ?a = "max (log_first l) (segment c)"
  have first: "log_first l \<le> segment c" using c by (simp add: cursor_pending_def)
  have terminal: "(case active (layout_of l) of Some (s, _) \<Rightarrow> Some (cursor_new s 0)
      | None \<Rightarrow> next_segment_cursor (layout_of l)) = Some (cursor_new (log_next l) 0)"
  proof (cases "log_active l")
    case None
    then have "log_sealed l \<noteq> []"
      using c by (auto simp: cursor_pending_def log_next_def split: if_splits)
    then show ?thesis using None next_segment_cursor_layout [OF r] by (simp add: layout_of_def)
  qed (simp add: layout_of_def)
  have segs: "filter (\<lambda>(s, _). segment c \<le> s) (sealed (layout_of l))
      = map (\<lambda>s. (s, sealed_path s)) [segment c ..< log_next l]"
    using first by (simp add: layout_of_def filter_from max_absorb2)
  obtain st where st: "st = \<lparr>segments = map (\<lambda>s. (s, sealed_path s)) [segment c ..< log_next l],
      segment_index = 0, sr_file = None, next_position = c,
      terminal_cursor = Some (cursor_new (log_next l) 0), record_limit = limit,
      sr_finished = False\<rparr>" by simp
  have "sealed_records_open_once cd d c limit = Inr st"
    using dir_repr_layout [OF r] validate_cursor_pending [OF r c] segs terminal st
    by (simp add: sealed_records_open_once_def)
  moreover have "reader_inv cd limit l st ps"
  proof -
    have "\<forall>bs \<in> set (log_sealed l). segment_ok cd limit bs" using r by (simp add: dir_repr_def)
    moreover have "if segment c < log_next l then reader_at cd l (segment c) st ps
        else ps = [] \<and> segment (next_position st) = log_next l"
    proof (cases "segment c < log_next l")
      case True
      then obtain k where "k \<le> length (sealed_at l (segment c))"
        "byte_offset c = offset_at cd (sealed_at l (segment c)) k"
        "ps = drop k (sealed_at l (segment c)) @ after_segment l (segment c)"
        using c by (auto simp: cursor_pending_def)
      then show ?thesis using True first st
        by (auto simp: reader_at_def cursor_new_def intro!: exI [where x = k])
    next
      case False
      then show ?thesis using c st by (simp add: cursor_pending_def)
    qed
    ultimately show ?thesis
      using c first st unfolding reader_inv_def by (auto intro!: exI [where x = "segment c"])
  qed
  ultimately show ?thesis using st by auto
qed

lemma advance_inv:
  assumes inv: "reader_inv cd limit l st ps"
    and a: "segments st = map (\<lambda>s. (s, sealed_path s)) [a ..< log_next l]" "log_first l \<le> a"
      "a + segment_index st < log_next l"
    and st': "segments st' = segments st" "segment_index st' = segment_index st"
      "terminal_cursor st' = terminal_cursor st" "record_limit st' = record_limit st"
      "sr_finished st' = sr_finished st"
    and ps': "ps' = after_segment l (a + segment_index st)"
  shows "reader_inv cd limit l (advance_segment f st') ps'"
proof -
  let ?s = "a + segment_index st"
  let ?st = "advance_segment f st'"
  have len: "length (segments st) = log_next l - a" using a(1) by simp
  have "cursor_pending cd l (next_position ?st) ps' \<and>
    (if a + segment_index ?st < log_next l then reader_at cd l (a + segment_index ?st) ?st ps'
     else ps' = [] \<and> segment (next_position ?st) = log_next l)"
  proof (cases "Suc ?s < log_next l")
    case True
    have i: "Suc (segment_index st) < length (segments st)" using True len by simp
    then have nxt: "next_position ?st = cursor_new (Suc ?s) 0"
      using a(1) st' by (simp add: advance_segment_def Let_def)
    have drop: "Suc (?s - log_first l) = Suc ?s - log_first l" using a(2) by simp
    have "ps' = sealed_at l (Suc ?s) @ after_segment l (Suc ?s)"
    proof -
      have "Suc ?s - log_first l < length (log_sealed l)" using True a(2) by (auto simp: log_next_def)
      then show ?thesis using ps' unfolding drop by (simp add: Cons_nth_drop_Suc [symmetric])
    qed
    moreover have "cursor_pending cd l (cursor_new (Suc ?s) 0) ps'"
      using cursor_pending_start [of l "Suc ?s" cd] True a(2) ps' unfolding drop by simp
    ultimately show ?thesis
      using nxt True a(2) st' by (auto simp: reader_at_def advance_segment_def Let_def
          intro!: exI [where x = 0])
  next
    case False
    then have "\<not> Suc (segment_index st) < length (segments st)" using len by simp
    then have nxt: "next_position ?st = cursor_new (log_next l) 0"
      using inv st' by (simp add: advance_segment_def Let_def reader_inv_def)
    have "ps' = []" using False ps' a(2) by (simp add: log_next_def)
    then show ?thesis
      using nxt False a cursor_pending_end [of l cd] st'
      by (simp add: advance_segment_def Let_def cursor_new_def)
  qed
  moreover have "segments ?st = segments st" "record_limit ?st = record_limit st"
    "terminal_cursor ?st = terminal_cursor st" "sr_finished ?st = sr_finished st"
    using st' by (simp_all add: advance_segment_def Let_def)
  moreover have "\<forall>bs \<in> set (log_sealed l). segment_ok cd limit bs" "record_limit st = limit"
    "\<not> sr_finished st" "terminal_cursor st = Some (cursor_new (log_next l) 0)"
    using inv by (simp_all add: reader_inv_def)
  ultimately show ?thesis
    using a(1,2) unfolding reader_inv_def by (intro conjI exI [where x = a]) simp_all
qed

lemma advance_normal:
  assumes inv: "reader_inv cd limit l st ps" and ne: "[] \<notin> set (log_sealed l)"
    and st': "segments st' = segments st" "terminal_cursor st' = terminal_cursor st"
  shows "cursor_normal cd l (next_position (advance_segment f st'))"
proof -
  obtain a where a: "log_first l \<le> a" "segments st = map (\<lambda>s. (s, sealed_path s)) [a ..< log_next l]"
    "terminal_cursor st = Some (cursor_new (log_next l) 0)"
    using inv unfolding reader_inv_def by auto
  let ?i = "segment_index st' + 1"
  show ?thesis
  proof (cases "?i < length (segments st)")
    case True
    then have s: "next_position (advance_segment f st') = cursor_new (a + ?i) 0" "a + ?i < log_next l"
      using st' a(2) by (auto simp: advance_segment_def Let_def)
    then have "sealed_at l (a + ?i) \<in> set (log_sealed l)" using a(1) by (intro sealed_at_in) simp_all
    moreover from this have "sealed_at l (a + ?i) \<noteq> []" using ne by metis
    moreover have "\<forall>bs \<in> set (log_sealed l). records_ok cd limit bs"
      using inv by (simp add: reader_inv_def segment_ok_def)
    ultimately have "0 < length (frames cd (sealed_at l (a + ?i)))"
      using frames_nonempty_iff by blast
    then show ?thesis using s by (simp add: cursor_normal_def cursor_new_def)
  next
    case False
    then show ?thesis using st' a(3)
      by (simp add: advance_segment_def Let_def cursor_normal_def cursor_new_def)
  qed
qed

text \<open>One call: the next pending record, or the end.\<close>

lemma next_record_pending:
  assumes "reader_inv cd limit l st ps" and "holds_sealed cd d l"
  shows "case ps of
      [] \<Rightarrow> \<exists>st'. next_record cd d st = (Inr None, st') \<and> reader_inv cd limit l st' []
        \<and> cursor_normal cd l (next_position st')
    | b # ps' \<Rightarrow> \<exists>st' r. next_record cd d st = (Inr (Some r), st') \<and> reader_inv cd limit l st' ps'
        \<and> batch r = b \<and> record_ok cd limit b \<and> framed_bytes (record_span r) = length (frame_of cd b)
        \<and> ([] \<notin> set (log_sealed l) \<longrightarrow> cursor_normal cd l (next_position st'))"
  using assms(1)
proof (induction "length (segments st) - segment_index st" arbitrary: st rule: less_induct)
  case less
  note inv = less.prems
  obtain a where a: "log_first l \<le> a" "segments st = map (\<lambda>s. (s, sealed_path s)) [a ..< log_next l]"
    "if a + segment_index st < log_next l then reader_at cd l (a + segment_index st) st ps
     else ps = [] \<and> segment (next_position st) = log_next l"
    using inv unfolding reader_inv_def by auto
  show ?case
  proof (cases "a + segment_index st < log_next l")
    case False
    then have "length (segments st) \<le> segment_index st" "ps = []" using a by auto
    then have "ps = []" "next_record cd d st = (Inr None, st)"
      by (simp, subst next_record.simps) simp
    then show ?thesis using inv a(3) False by (simp add: cursor_normal_def)
  next
    case True
    let ?s = "a + segment_index st"
    let ?bs = "sealed_at l ?s"
    obtain k where k: "k \<le> length ?bs" "next_position st = cursor_new ?s (offset_at cd ?bs k)"
      "ps = drop k ?bs @ after_segment l ?s"
      "sr_file st = None \<or> sr_file st = Some (frames cd ?bs, offset_at cd ?bs k)"
      using a(3) True by (auto simp: reader_at_def)
    have first: "log_first l \<le> ?s" using a(1) by simp
    have content: "map_of d (sealed_path ?s) = Some (frames cd ?bs)"
      by (rule holds_sealedD [OF assms(2) first True])
    have nth: "segments st ! segment_index st = (?s, sealed_path ?s)"
      unfolding a(2) using True by (subst nth_map) (auto simp: nth_upt)
    have limit: "record_limit st = limit" using inv by (simp add: reader_inv_def)
    obtain st1 where st1: "st1 = st\<lparr>next_position := cursor_new ?s (offset_at cd ?bs k),
        sr_file := Some (frames cd ?bs, offset_at cd ?bs k)\<rparr>" by simp
    have opened: "open_segment d st = Inr st1"
      using k(2,4) nth content st1 by (auto simp: open_segment_def cursor_new_def Let_def)
    have tail: "drop (offset_at cd ?bs k) (frames cd ?bs) = frames cd (drop k ?bs)"
      by (metis append_eq_conv_conj append_take_drop_id concat_append map_append)
    have inside: "\<not> length (segments st) \<le> segment_index st" using a(2) True by auto
    show ?thesis
    proof (cases "k < length ?bs")
      case False
      then have "k = length ?bs" "drop k ?bs = []" using k(1) by simp_all
      then have read: "read_record cd (drop (offset_at cd ?bs k) (frames cd ?bs)) ?s
          (offset_at cd ?bs k) limit = Inr None"
        by (simp add: read_record_def)
      obtain st2 where st2: "st2 = advance_segment (next_position st1) st1" by simp
      have step: "next_record cd d st = next_record cd d st2"
        using inside opened read limit nth st1 st2
        by (subst next_record.simps) (simp add: cursor_new_def Let_def)
      have "reader_inv cd limit l st2 ps"
        unfolding st2 by (rule advance_inv [OF inv a(2,1) True])
          (use st1 k(3) False in simp_all)
      moreover have "length (segments st2) - segment_index st2
          < length (segments st) - segment_index st"
        using st1 st2 inside by (simp add: advance_segment_def Let_def)
      ultimately show ?thesis unfolding step by (intro less.hyps)
    next
      case inseg: True
      then have drop: "drop k ?bs = ?bs ! k # drop (Suc k) ?bs" by (simp add: Cons_nth_drop_Suc)
      have ok: "record_ok cd limit (?bs ! k)"
        using inv sealed_at_in [OF first True] inseg
        by (auto simp: reader_inv_def segment_ok_def records_ok_def)
      let ?n = "length (frame_of cd (?bs ! k))"
      have read: "read_record cd (drop (offset_at cd ?bs k) (frames cd ?bs)) ?s
          (offset_at cd ?bs k) limit = Inr (Some (?bs ! k, ?n))"
        unfolding tail drop using read_record_frame [OF ok] by simp
      have off: "offset_at cd ?bs (Suc k) = offset_at cd ?bs k + ?n"
        using inseg by (simp add: take_Suc_conv_app_nth)
      obtain st2 where st2: "st2 = st1\<lparr>sr_file := Some (frames cd ?bs, offset_at cd ?bs (Suc k))\<rparr>"
        by simp
      obtain e where e: "e = cursor_new ?s (offset_at cd ?bs (Suc k))" by simp
      obtain st3 where st3: "st3 = (if offset_at cd ?bs (Suc k) = length (frames cd ?bs)
          then advance_segment e st2 else st2\<lparr>next_position := e\<rparr>)" by simp
      obtain r where r: "r = \<lparr>batch = ?bs ! k, record_span =
          \<lparr>span_start = next_position st1, span_end = e, framed_bytes = ?n\<rparr>\<rparr>" by simp
      have step: "next_record cd d st = (Inr (Some r), st3)"
        using inside opened read limit nth st1 st2 st3 e r off
        by (subst next_record.simps) (simp add: cursor_new_def Let_def)
      have ps: "ps = ?bs ! k # (drop (Suc k) ?bs @ after_segment l ?s)" using k(3) drop by simp
      have "reader_inv cd limit l st3 (drop (Suc k) ?bs @ after_segment l ?s)
        \<and> ([] \<notin> set (log_sealed l) \<longrightarrow> cursor_normal cd l (next_position st3))"
      proof (cases "offset_at cd ?bs (Suc k) = length (frames cd ?bs)")
        case True
        have "frames cd (drop (Suc k) ?bs) = []"
          using True frames_drop [of cd ?bs "Suc k"] by (metis append_eq_append_conv append_Nil2)
        moreover have "records_ok cd limit (drop (Suc k) ?bs)"
          using inv sealed_at_in [OF first \<open>?s < log_next l\<close>]
          by (auto simp: reader_inv_def segment_ok_def records_ok_def dest: in_set_dropD)
        ultimately have "drop (Suc k) ?bs = []"
          using frame_of_nonempty by (cases "drop (Suc k) ?bs") (auto simp: records_ok_def)
        then show ?thesis
          using True st3 advance_inv [OF inv a(2,1) \<open>?s < log_next l\<close>, of st2] st1 st2
            advance_normal [OF inv] by simp
      next
        case False
        have "cursor_pending cd l e (drop (Suc k) ?bs @ after_segment l ?s)"
          using inseg first True e by (auto simp: cursor_pending_def cursor_new_def
              intro!: exI [where x = "Suc k"])
        moreover have "reader_at cd l ?s st3 (drop (Suc k) ?bs @ after_segment l ?s)"
          using inseg first True False e st2 st3 by (auto simp: reader_at_def
              intro!: exI [where x = "Suc k"])
        ultimately have "reader_inv cd limit l st3 (drop (Suc k) ?bs @ after_segment l ?s)"
          using inv a(1,2) True False st1 st2 st3 unfolding reader_inv_def
          by (auto intro!: exI [where x = a])
        moreover have "offset_at cd ?bs (Suc k) < length (frames cd ?bs)"
          using False frames_drop [of cd ?bs "Suc k"] by (metis le_add1 length_append le_neq_implies_less)
        ultimately show ?thesis using e st3 False by (simp add: cursor_normal_def cursor_new_def)
      qed
      then show ?thesis using step ps r ok by simp
    qed
  qed
qed

section \<open>Windows\<close>

lemma sealed_records_next_pending:
  assumes "reader_inv cd limit l st ps" and "holds_sealed cd d l"
  shows "case ps of
      [] \<Rightarrow> \<exists>st'. sealed_records_next cd d st = (None, st') \<and> cursor_pending cd l (next_position st') []
        \<and> cursor_normal cd l (next_position st')
    | b # ps' \<Rightarrow> \<exists>st' r. sealed_records_next cd d st = (Some (Inr r), st')
        \<and> reader_inv cd limit l st' ps' \<and> cursor_pending cd l (next_position st') ps'
        \<and> batch r = b \<and> record_ok cd limit b \<and> framed_bytes (record_span r) = length (frame_of cd b)
        \<and> ([] \<notin> set (log_sealed l) \<longrightarrow> cursor_normal cd l (next_position st'))"
proof (cases ps)
  case Nil
  then obtain st' where "next_record cd d st = (Inr None, st')" "reader_inv cd limit l st' []"
    "cursor_normal cd l (next_position st')"
    using next_record_pending [OF assms] by auto
  then show ?thesis using Nil assms(1) by (auto simp: sealed_records_next_def reader_inv_def)
next
  case (Cons b ps')
  then obtain st' r where "next_record cd d st = (Inr (Some r), st')" "reader_inv cd limit l st' ps'"
    "batch r = b" "record_ok cd limit b" "framed_bytes (record_span r) = length (frame_of cd b)"
    "[] \<notin> set (log_sealed l) \<longrightarrow> cursor_normal cd l (next_position st')"
    using next_record_pending [OF assms] by auto
  then show ?thesis using Cons assms(1) by (auto simp: sealed_records_next_def reader_inv_def)
qed

definition window_inv ::
  "wal_codec \<Rightarrow> nat \<Rightarrow> log \<Rightarrow> publication_window \<Rightarrow> captured_batch list \<Rightarrow> bool" where
  "window_inv cd limit l w ps \<longleftrightarrow>
     reader_inv cd limit l (records w) ps \<and> \<not> finished w \<and> max_bytes w < u64_max
     \<and> cursor_pending cd l (checkpoint w) ps
     \<and> (0 < window_bytes w \<and> [] \<notin> set (log_sealed l) \<longrightarrow> cursor_normal cd l (checkpoint w))"

lemma window_next_cons:
  assumes "window_inv cd limit l w (b # ps)" and "holds_sealed cd d l"
  obtains (yields) r w' where "window_next cd d w = (Some (Inr r), w')" "batch r = b"
      "window_inv cd limit l w' ps" "max_bytes w' = max_bytes w"
      "window_bytes w' = window_bytes w + length (frame_of cd b)" "0 < window_bytes w'"
      "window_bytes w = 0 \<or> window_bytes w' \<le> max_bytes w"
  | (full) w' where "window_next cd d w = (None, w')" "checkpoint w' = checkpoint w"
      "window_bytes w' = window_bytes w" "0 < window_bytes w"
      "max_bytes w < window_bytes w + length (frame_of cd b)"
proof -
  obtain st' r where step: "sealed_records_next cd d (records w) = (Some (Inr r), st')"
    "reader_inv cd limit l st' ps" "cursor_pending cd l (next_position st') ps"
    "batch r = b" "record_ok cd limit b" "framed_bytes (record_span r) = length (frame_of cd b)"
    "[] \<notin> set (log_sealed l) \<longrightarrow> cursor_normal cd l (next_position st')"
    using assms sealed_records_next_pending [of cd limit l "records w" "b # ps" d]
    by (auto simp: window_inv_def)
  let ?n = "length (frame_of cd b)"
  have m: "max_bytes w < u64_max" "\<not> finished w" using assms(1) by (simp_all add: window_inv_def)
  have sat: "max_bytes w < sat_add u64_max (window_bytes w) ?n \<longleftrightarrow> max_bytes w < window_bytes w + ?n"
    using sat_add_le_iff [OF m(1)] by (simp add: not_le [symmetric])
  show thesis
  proof (cases "0 < window_bytes w \<and> max_bytes w < window_bytes w + ?n")
    case True
    then show ?thesis using step m sat 
      by (intro full [of "w\<lparr>records := st', finished := True\<rparr>"]) (simp_all add: window_next_def)
  next
    case False
    then show ?thesis using step m sat frame_of_nonempty [OF step(5)]
      by (intro yields [of r "w\<lparr>records := st', window_bytes := window_bytes w + ?n,
            checkpoint := next_position st'\<rparr>"])
        (auto simp: window_next_def window_inv_def)
  qed
qed

lemma window_next_nil:
  assumes "window_inv cd limit l w []" and "holds_sealed cd d l"
  obtains w' where "window_next cd d w = (None, w')" "cursor_pending cd l (checkpoint w') []"
    "cursor_normal cd l (checkpoint w')" "window_bytes w' = window_bytes w"
  using assms sealed_records_next_pending [of cd limit l "records w" "[]" d]
  by (auto simp: window_inv_def window_next_def)

lemma window_collect_pending:
  assumes "window_inv cd limit l w ps" and "\<And>i. holds_sealed cd (ds i) l" and "length ps < fuel"
  shows "\<exists>n rs w'. window_collect fuel cd ds w = Some (Inr (rs, w'))
    \<and> n \<le> length ps \<and> map batch rs = take n ps \<and> cursor_pending cd l (checkpoint w') (drop n ps)
    \<and> ([] \<notin> set (log_sealed l) \<longrightarrow> cursor_normal cd l (checkpoint w'))
    \<and> window_bytes w' = window_bytes w + length (frames cd (take n ps))
    \<and> (window_bytes w = 0 \<and> ps \<noteq> [] \<longrightarrow> 0 < n)
    \<and> (n \<le> (if window_bytes w = 0 then 1 else 0) \<or> window_bytes w' \<le> max_bytes w)
    \<and> (n < length ps \<longrightarrow> max_bytes w < window_bytes w' + length (frame_of cd (ps ! n)))"
  using assms
proof (induction ps arbitrary: w fuel ds)
  case Nil
  obtain f where f: "fuel = Suc f" using Nil.prems(3) by (cases fuel) simp_all
  obtain w' where "window_next cd (ds 0) w = (None, w')" "cursor_pending cd l (checkpoint w') []"
    "cursor_normal cd l (checkpoint w')" "window_bytes w' = window_bytes w"
    using window_next_nil [OF Nil.prems(1,2)] by metis
  then show ?case using f by simp
next
  case (Cons b ps)
  obtain f where f: "fuel = Suc f" "length ps < f" using Cons.prems(3) by (cases fuel) simp_all
  show ?case
  proof (rule window_next_cons [OF Cons.prems(1,2)])
    fix w'
    assume full: "window_next cd (ds 0) w = (None, w')" "checkpoint w' = checkpoint w"
      "window_bytes w' = window_bytes w" "0 < window_bytes w"
      "max_bytes w < window_bytes w + length (frame_of cd b)"
    then show ?thesis
      using f Cons.prems(1) by (auto simp: window_inv_def intro!: exI [where x = 0])
  next
    fix r w1
    assume y: "window_next cd (ds 0) w = (Some (Inr r), w1)" "batch r = b"
      "window_inv cd limit l w1 ps" "max_bytes w1 = max_bytes w"
      "window_bytes w1 = window_bytes w + length (frame_of cd b)" "0 < window_bytes w1"
      "window_bytes w = 0 \<or> window_bytes w1 \<le> max_bytes w"
    obtain n rs w' where ih: "window_collect f cd (\<lambda>i. ds (Suc i)) w1 = Some (Inr (rs, w'))"
      "n \<le> length ps" "map batch rs = take n ps" "cursor_pending cd l (checkpoint w') (drop n ps)"
      "[] \<notin> set (log_sealed l) \<longrightarrow> cursor_normal cd l (checkpoint w')"
      "window_bytes w' = window_bytes w1 + length (frames cd (take n ps))"
      "n \<le> (if window_bytes w1 = 0 then 1 else 0) \<or> window_bytes w' \<le> max_bytes w1"
      "n < length ps \<longrightarrow> max_bytes w1 < window_bytes w' + length (frame_of cd (ps ! n))"
      using Cons.IH [OF y(3) Cons.prems(2) f(2)] by blast
    show ?thesis
    proof (intro exI conjI)
      show "window_collect fuel cd ds w = Some (Inr (r # rs, w'))" using y(1) ih(1) f(1) by simp
      show "Suc n \<le> length (b # ps)" using ih(2) by simp
      show "Suc n \<le> (if window_bytes w = 0 then 1 else 0) \<or> window_bytes w' \<le> max_bytes w"
        using ih(6,7) y(4,5,6,7) by (auto split: if_splits)
    qed (use ih y in \<open>simp_all add: add.assoc\<close>)
  qed
qed

section \<open>Windows of the publisher\<close>

lemma read_window_pending:
  assumes "k < layout_race_attempts"
    and "\<And>j. j < k \<Longrightarrow>
      \<exists>e. sealed_records_open_once cd (opens j) c (max_record_bytes cfg) = Inl e \<and> is_layout_race e"
    and "dir_repr cd (max_record_bytes cfg) (opens k) l" and "[] \<notin> set (log_sealed l)"
    and "cursor_pending cd l c ps" and "0 < budget" and "budget < u64_max"
    and "\<And>i. holds_sealed cd (reads i) l" and "length ps < fuel"
  shows "\<exists>w n rs w'. read_window cd opens cfg c budget = Inr w
    \<and> window_collect fuel cd reads w = Some (Inr (rs, w'))
    \<and> n \<le> length ps \<and> map batch rs = take n ps \<and> (ps \<noteq> [] \<longrightarrow> 0 < n)
    \<and> (n \<le> 1 \<or> length (frames cd (take n ps)) \<le> budget)
    \<and> (n < length ps \<longrightarrow> budget < length (frames cd (take (Suc n) ps)))
    \<and> cursor_pending cd l (checkpoint w') (drop n ps) \<and> cursor_normal cd l (checkpoint w')"
proof -
  obtain st where st: "sealed_records_open_once cd (opens k) c (max_record_bytes cfg) = Inr st"
    "reader_inv cd (max_record_bytes cfg) l st ps"
    using reader_open_inv [OF assms(3,5)] by blast
  have "sealed_records_open cd opens c (max_record_bytes cfg) = Inr st"
    unfolding sealed_records_open_def retry_layout_race_def
    by (rule retry_loop_reaches [where k = k]) (use assms(1,2) st(1) in simp_all)
  moreover obtain w where "w = \<lparr>records = st, checkpoint = c, max_bytes = budget, window_bytes = 0,
      finished = False\<rparr>" by simp
  ultimately have w: "read_window cd opens cfg c budget = Inr w" "records w = st"
    "checkpoint w = c" "max_bytes w = budget" "window_bytes w = 0" "\<not> finished w"
    using assms(6) by (simp_all add: read_window_def)
  have inv: "window_inv cd (max_record_bytes cfg) l w ps"
    using w st(2) assms(5,7) by (simp add: window_inv_def)
  obtain n rs w' where c: "window_collect fuel cd reads w = Some (Inr (rs, w'))" "n \<le> length ps"
    "map batch rs = take n ps" "cursor_pending cd l (checkpoint w') (drop n ps)"
    "cursor_normal cd l (checkpoint w')" "window_bytes w' = length (frames cd (take n ps))"
    "ps \<noteq> [] \<longrightarrow> 0 < n" "n \<le> 1 \<or> window_bytes w' \<le> budget"
    "n < length ps \<longrightarrow> budget < window_bytes w' + length (frame_of cd (ps ! n))"
  proof -
    note all = window_collect_pending [OF inv, of reads fuel, OF assms(8,9), unfolded w(4,5)]
    show thesis using all assms(4) by (elim exE conjE) (rule that, auto)
  qed
  then show ?thesis
    using w(1) by (intro exI [where x = w] exI [where x = n] exI [where x = rs] exI [where x = w'])
      (auto simp: take_Suc_conv_app_nth)
qed

end
