(* ===== verification/WalReclaim.thy ===== *)
theory WalReclaim
  imports WalCorrect WalReaderCorrect
begin

text \<open>
  Reclamation at a checkpoint: it drops a prefix of the sealed segments (\<open>log_drop\<close>), never a
  record that is still pending, also when a removal fails half way. The last section is the case
  that goes wrong: when the writer is between two segments, reclamation can leave a directory
  with no segment at all, and the log forgets its sequence numbers.
\<close>

section \<open>Dropping segments\<close>

definition log_drop :: "nat \<Rightarrow> log \<Rightarrow> log" where
  "log_drop j l = l\<lparr>log_first := log_first l + j, log_sealed := drop j (log_sealed l)\<rparr>"

lemma log_drop_simps [simp]:
  "log_first (log_drop j l) = log_first l + j" "log_sealed (log_drop j l) = drop j (log_sealed l)"
  "log_active (log_drop j l) = log_active l"
  by (simp_all add: log_drop_def)

lemma log_next_drop: "j \<le> length (log_sealed l) \<Longrightarrow> log_next (log_drop j l) = log_next l"
  by (simp add: log_next_def)

lemma log_drop_drop: "log_drop j (log_drop i l) = log_drop (i + j) l"
  by (simp add: log_drop_def add.commute add.left_commute)

lemma log_drop_0: "log_drop 0 l = l"
  by (simp add: log_drop_def)

lemma log_records_drop: "\<exists>gone. log_records l = gone @ log_records (log_drop j l)"
proof -
  have "concat (log_sealed l) = concat (take j (log_sealed l)) @ concat (drop j (log_sealed l))"
    by (metis append_take_drop_id concat_append)
  then show ?thesis by (simp add: log_records_def)
qed

lemma dir_repr_drop_first:
  assumes r: "dir_repr cd limit d l" and ne: "log_sealed l \<noteq> []"
  shows "dir_repr cd limit (AList.delete (sealed_path (log_first l)) d) (log_drop 1 l)"
proof -
  note r' = r [unfolded dir_repr_def]
  have len: "1 \<le> length (log_sealed l)" using ne by (cases "log_sealed l") simp_all
  have next': "log_next (log_drop 1 l) = log_next l" by (rule log_next_drop [OF len])
  have lim: "log_first l < seq_limit" using r' by (simp add: log_next_def)
  have sealed: "map_of d (sealed_path (log_first l + 1 + i)) = Some (frames cd (log_sealed l ! (1 + i)))"
    if "i < length (log_sealed l) - 1" for i
  proof -
    have "1 + i < length (log_sealed l)" using that by simp
    then show ?thesis using r' by (metis add.assoc)
  qed
  have first: "log_first l + 1 \<le> s"
    if "n \<in> fst ` set d" "n \<noteq> sealed_path (log_first l)" "sealed_entry n = Some (s, p)" for n s p
  proof -
    have "n = sealed_path s" "log_first l \<le> s" using r' that by blast+
    then show ?thesis using that(2) by (cases "s = log_first l") simp_all
  qed
  have upper: "n = sealed_path s" "s < log_next l"
    if "n \<in> fst ` set d" "sealed_entry n = Some (s, p)" for n s p
    using r' that by blast+
  have opens: "n = active_path s" "s = log_next l" "log_active l \<noteq> None"
    if "n \<in> fst ` set d" "open_entry n = Some (s, p)" for n s p
    using r' that by blast+
  have "\<forall>bs \<in> set (drop 1 (log_sealed l)). segment_ok cd limit bs"
    using r' by (auto dest: in_set_dropD)
  moreover have "\<forall>n \<in> fst ` set (AList.delete (sealed_path (log_first l)) d). \<forall>s p.
      sealed_entry n = Some (s, p) \<longrightarrow> n = sealed_path s \<and> log_first l + 1 \<le> s \<and> s < log_next l"
    unfolding dom_dir_delete using first upper by blast
  moreover have "\<forall>n \<in> fst ` set (AList.delete (sealed_path (log_first l)) d). \<forall>s p.
      open_entry n = Some (s, p) \<longrightarrow> n = active_path s \<and> s = log_next l \<and> log_active l \<noteq> None"
    unfolding dom_dir_delete using opens by blast
  ultimately show ?thesis
    using r' sealed unfolding dir_repr_def next' log_drop_simps
    by (auto simp: dir_simps split: option.splits)
qed

section \<open>Removing files\<close>

lemma remove_all_repr:
  assumes "dir_repr cd limit d l" and "m \<le> length (log_sealed l)"
  shows "\<exists>j \<le> m. \<exists>res d'. remove_all ok (map (\<lambda>s. (s, sealed_path s)) [log_first l ..< log_first l + m]) d
      = (res, d') \<and> dir_repr cd limit d' (log_drop j l)
    \<and> (res = Inr () \<and> j = m \<or> res = Inl (Io OtherIo))
    \<and> ((\<forall>p. ok p) \<longrightarrow> res = Inr ())"
  using assms
proof (induction m arbitrary: d l)
  case 0
  then show ?case by (simp add: log_drop_0)
next
  case (Suc m)
  have ne: "log_sealed l \<noteq> []" using Suc.prems(2) by auto
  let ?d = "AList.delete (sealed_path (log_first l)) d"
  have present: "map_of d (sealed_path (log_first l)) \<noteq> None"
    using Suc.prems ne by (auto simp: dir_repr_def)
  have upt: "[log_first l ..< log_first l + Suc m] = log_first l # [log_first l + 1 ..< log_first l + 1 + m]"
    by (simp add: upt_conv_Cons)
  show ?case
  proof (cases "ok (sealed_path (log_first l))")
    case False
    then show ?thesis
      using present Suc.prems(1) unfolding upt
      by (intro exI [where x = 0]) (auto simp: log_drop_0)
  next
    case True
    obtain j res d' where ih: "j \<le> m"
      "remove_all ok (map (\<lambda>s. (s, sealed_path s)) [log_first l + 1 ..< log_first l + 1 + m]) ?d = (res, d')"
      "dir_repr cd limit d' (log_drop j (log_drop 1 l))"
      "res = Inr () \<and> j = m \<or> res = Inl (Io OtherIo)" "(\<forall>p. ok p) \<longrightarrow> res = Inr ()"
    proof -
      have "m \<le> length (log_sealed (log_drop 1 l))" using Suc.prems(2) by simp
      from Suc.IH [OF dir_repr_drop_first [OF Suc.prems(1) ne] this]
      show thesis using that unfolding log_drop_simps by metis
    qed
    have "remove_all ok (map (\<lambda>s. (s, sealed_path s)) [log_first l ..< log_first l + Suc m]) d = (res, d')"
      using True present ih(2) unfolding upt by (auto simp del: upt_Suc)
    then show ?thesis
      using ih(1,3,4,5) by (intro exI [where x = "Suc j"]) (auto simp: log_drop_drop)
  qed
qed

lemma cursor_pending_drop:
  assumes c: "cursor_pending cd l c ps" and j: "log_first l + j \<le> segment c" "j \<le> length (log_sealed l)"
    and a: "log_active l \<noteq> None"
  shows "cursor_pending cd (log_drop j l) c ps"
proof (cases "segment c < log_next l")
  case True
  have "drop j (log_sealed l) ! (segment c - (log_first l + j)) = sealed_at l (segment c)"
    using j by simp
  moreover have "Suc (segment c - (log_first l + j)) + j = Suc (segment c - log_first l)"
    using j by simp
  ultimately show ?thesis using c True j
    by (simp add: cursor_pending_def log_next_drop [OF j(2)] add.commute)
next
  case False
  then show ?thesis using c j a by (auto simp: cursor_pending_def log_next_drop [OF j(2)])
qed

text \<open>What is reclaimed at a cursor that is not the end of a sealed segment.\<close>

lemma takeWhile_upt: "takeWhile (\<lambda>s. s \<le> m) [a ..< b] = [a ..< min (Suc m) b]" for a b :: nat
proof (induction b)
  case 0
  then show ?case by simp
next
  case (Suc b)
  then show ?case
  proof (cases "a \<le> b")
    case ab: True
    show ?thesis
    proof (cases "b \<le> m")
      case True
      then have "\<forall>x \<in> set [a ..< b]. x \<le> m" by auto
      then show ?thesis using True ab
        by (simp add: takeWhile_append2 min_absorb2)
    next
      case False
      then have "takeWhile (\<lambda>s. s \<le> m) ([a ..< b] @ [b]) = takeWhile (\<lambda>s. s \<le> m) [a ..< b]"
        by (simp add: takeWhile_tail)
      then show ?thesis using Suc False ab by (simp add: min_def)
    qed
  qed simp
qed

lemma reclaim_candidates:
  assumes "cursor_pending cd l c ps" and "cursor_normal cd l c"
    and valid: "valid = (case log_segment l (segment c) of None \<Rightarrow> 0 | Some bs \<Rightarrow> length (frames cd bs))"
  shows "filter (\<lambda>(s, _). covered c valid s) (takeWhile (\<lambda>(s, _). s \<le> segment c) (sealed (layout_of l)))
    = map (\<lambda>s. (s, sealed_path s)) [log_first l ..< segment c]"
proof -
  have first: "log_first l \<le> segment c" "segment c \<le> log_next l"
    using assms(1) by (auto simp: cursor_pending_def split: if_splits)
  have tw: "takeWhile (\<lambda>(s, _). s \<le> segment c) (sealed (layout_of l))
      = map (\<lambda>s. (s, sealed_path s)) [log_first l ..< min (Suc (segment c)) (log_next l)]"
    by (simp add: layout_of_def takeWhile_map o_def takeWhile_upt)
  have below: "filter (covered c valid) [log_first l ..< segment c] = [log_first l ..< segment c]"
    by (rule filter_True) (auto simp: covered_def)
  have "filter (covered c valid) [log_first l ..< min (Suc (segment c)) (log_next l)]
      = [log_first l ..< segment c]"
  proof (cases "segment c < log_next l")
    case True
    then have "\<not> covered c valid (segment c)"
      using assms first by (auto simp: covered_def cursor_normal_def log_segment_def)
    then show ?thesis using True first below by (simp add: min_def)
  next
    case False
    then show ?thesis using first below by simp
  qed
  then show ?thesis unfolding tw by (simp add: filter_map o_def case_prod_unfold)
qed

lemma reclaim_step:
  assumes r: "dir_repr cd (max_record_bytes cfg) d l"
    and c: "cursor_pending cd l c ps" and n: "cursor_normal cd l c"
  shows "\<exists>j res d'. reclaim_through ok dirsync cd d cfg c = (res, d')
    \<and> log_first l + j \<le> segment c \<and> j \<le> length (log_sealed l)
    \<and> dir_repr cd (max_record_bytes cfg) d' (log_drop j l)
    \<and> (res = Inr [log_first l ..< segment c] \<and> log_first l + j = segment c \<or> res = Inl (Io OtherIo))
    \<and> ((\<forall>p. ok p) \<and> dirsync \<longrightarrow> res = Inr [log_first l ..< segment c])"
proof -
  have first: "log_first l \<le> segment c" "segment c \<le> log_next l"
    using c by (auto simp: cursor_pending_def split: if_splits)
  obtain m where m: "segment c = log_first l + m" "m \<le> length (log_sealed l)"
    using first by (metis le_iff_add log_next_def nat_add_left_cancel_le)
  obtain j res d' where rm: "j \<le> m"
    "remove_all ok (map (\<lambda>s. (s, sealed_path s)) [log_first l ..< segment c]) d = (res, d')"
    "dir_repr cd (max_record_bytes cfg) d' (log_drop j l)"
    "res = Inr () \<and> j = m \<or> res = Inl (Io OtherIo)" "(\<forall>p. ok p) \<longrightarrow> res = Inr ()"
    using remove_all_repr [OF r m(2), of ok] m(1) by auto
  let ?names = "map (\<lambda>s. (s, sealed_path s)) [log_first l ..< segment c]"
  obtain res' where res': "res' = (case res of Inl e \<Rightarrow> Inl e
      | Inr _ \<Rightarrow> if ?names \<noteq> [] \<and> \<not> dirsync then Inl (Io OtherIo) else Inr (map fst ?names))" by simp
  have once: "reclaim_through_once ok dirsync cd d cfg c = (res', d')"
    unfolding reclaim_through_once_def dir_repr_layout [OF r] sum.case
      validate_cursor_pending [OF r c] Let_def reclaim_candidates [OF c n refl] rm(2)
    using res' by (auto split: sum.splits)
  have race: "is_layout_race e = False" if "res' = Inl e" for e
    using that res' rm(4) by (auto split: sum.splits if_splits)
  have "reclaim_through ok dirsync cd d cfg c = (res', d')"
    unfolding reclaim_through_def layout_race_attempts_def
    using once race by (cases res') (simp_all add: numeral_eq_Suc)
  then show ?thesis
    using rm(1,3,4,5) m res' by (intro exI [where x = j]) (auto simp: o_def split: if_splits)
qed

section \<open>Reclaiming a directory empty\<close>

lemma reclaim_between_segments:
  assumes r: "dir_repr cd (max_record_bytes cfg) d l" and a: "log_active l = None"
    and ne: "log_sealed l \<noteq> []" and cfg: "config_ok cfg" and io: "io_fine io"
  shows "\<exists>removed d' w. reclaim_through (\<lambda>_. True) True cd d cfg (cursor_new (log_next l) 0) = (Inr removed, d')
    \<and> wal_open io cd d' cfg False = Inr (w, False) \<and> w_seq w = 1
    \<and> validate_cursor cd (w_dir w) (layout_of (empty_log\<lparr>log_active := Some []\<rparr>))
        (cursor_new (log_next l) 0) (max_record_bytes cfg)
      = Inl (corruption (log_next l) 0 ''cursor segment does not exist'')
    \<and> discover_segment_layout (w_dir w) = Inr (layout_of (empty_log\<lparr>log_active := Some []\<rparr>))"
proof -
  let ?c = "cursor_new (log_next l) 0"
  have lt: "log_first l < log_next l" using ne by (simp add: log_next_def)
  have p: "cursor_pending cd l ?c []" by (rule cursor_pending_end [OF lt])
  have n: "cursor_normal cd l ?c" by (simp add: cursor_normal_def cursor_new_def)
  obtain j d' where j: "reclaim_through (\<lambda>_. True) True cd d cfg ?c = (Inr [log_first l ..< log_next l], d')"
    "dir_repr cd (max_record_bytes cfg) d' (log_drop j l)" "log_first l + j = log_next l"
    using reclaim_step [OF r p n, of "\<lambda>_. True" True] by (auto simp: cursor_new_def)
  have "dir_repr cd (max_record_bytes cfg) d' empty_log"
    by (rule dir_repr_emptied [OF j(2)]) (use j(3) a in \<open>simp_all add: log_next_def\<close>)
  then obtain w where w: "wal_open io cd d' cfg False = Inr (w, False)" "w_seq w = 1"
    "w_config w = cfg"
    "writer_inv cd w (empty_log\<lparr>log_active := Some []\<rparr>)"
    using open_empty [OF _ cfg io] by metis
  let ?l = "empty_log\<lparr>log_active := Some []\<rparr>"
  have rw: "dir_repr cd (max_record_bytes cfg) (w_dir w) ?l"
    using w(3,4) by (simp add: writer_inv_def)
  have "1 < log_next l" using lt r by (simp add: dir_repr_def)
  then have "segment_path (layout_of ?l) (log_next l) = None"
    unfolding segment_path_layout by (auto simp: empty_log_def log_next_def)
  then have "validate_cursor cd (w_dir w) (layout_of ?l) ?c (max_record_bytes cfg)
      = Inl (corruption (log_next l) 0 ''cursor segment does not exist'')"
    using next_segment_cursor_layout [OF rw] by (simp add: validate_cursor_def cursor_new_def)
  then show ?thesis using j(1) w(1,2) dir_repr_layout [OF rw] by blast
qed

end
