(* ===== verification/WalRun.thy ===== *)
theory WalRun
  imports WalCorrect "HOL-Library.Sublist"
begin

text \<open>
  Whole lives of the log: \<open>wal_run\<close> is a step relation of group commits (\<open>write\<close> several batches,
  then \<open>sync\<close> once and acknowledge them), seals and crashes, each crash followed by \<open>open\<close>. It
  keeps the list of acknowledged batches and of those written since the last sync. A client sends
  a batch again that was not acknowledged, so a batch may be in the log twice: what is promised
  is that the acknowledged ones are a subsequence of the log.
\<close>

inductive wal_run ::
  "wal_codec \<Rightarrow> wal_config \<Rightarrow> wal_writer \<Rightarrow> captured_batch list \<Rightarrow> captured_batch list \<Rightarrow> bool"
  for cd cfg where
  run_start: "io_fine io \<Longrightarrow> wal_open io cd [] cfg False = Inr (w, t) \<Longrightarrow> wal_run cd cfg w [] []"
| run_write: "wal_run cd cfg w acked grp \<Longrightarrow> io_fine io \<Longrightarrow> w_seq w + 1 < seq_limit
    \<Longrightarrow> record_ok cd (max_record_bytes cfg) b \<Longrightarrow> wal_write io cd w b = (Inr r, w')
    \<Longrightarrow> wal_run cd cfg w' acked (grp @ [b])"
| run_sync: "wal_run cd cfg w acked grp \<Longrightarrow> io_fine io \<Longrightarrow> wal_sync io w = (Inr u, w')
    \<Longrightarrow> wal_run cd cfg w' (acked @ grp) []"
| run_seal: "wal_run cd cfg w acked grp \<Longrightarrow> io_fine io \<Longrightarrow> w_seq w + 1 < seq_limit
    \<Longrightarrow> wal_seal io w = (Inr c, w') \<Longrightarrow> wal_run cd cfg w' acked grp"
| run_crash: "wal_run cd cfg w acked grp \<Longrightarrow> crash w d \<Longrightarrow> wal_open io cd d cfg False = Inr (w', t)
    \<Longrightarrow> wal_run cd cfg w' acked []"

definition run_inv ::
  "wal_codec \<Rightarrow> wal_config \<Rightarrow> wal_writer \<Rightarrow> captured_batch list \<Rightarrow> captured_batch list \<Rightarrow> log \<Rightarrow> bool" where
  "run_inv cd cfg w acked grp l \<longleftrightarrow>
     writer_inv cd w l \<and> w_config w = cfg
     \<and> subseq acked (durable_records cd w l) \<and> subseq (acked @ grp) (log_records l)"

lemma subseq_prefix: "subseq xs ys \<Longrightarrow> subseq xs (ys @ zs)"
  by (rule subseq_rev_drop_many)

text \<open>Opening after a crash, with the configuration at hand.\<close>

lemma run_inv_reopen:
  assumes inv: "run_inv cd cfg w acked grp l" and crash: "crash w d"
  shows "\<exists>w' t l'. wal_open io cd d cfg False = Inr (w', t) \<and> run_inv cd cfg w' acked [] l'"
proof -
  have w: "writer_inv cd w l" and cfg: "w_config w = cfg" and acked: "subseq acked (durable_records cd w l)"
    using inv by (simp_all add: run_inv_def)
  obtain w' t l' kept where r: "wal_open io cd d cfg False = Inr (w', t)" "writer_inv cd w' l'"
    "log_records l' = durable_records cd w l @ kept" "durable_records cd w' l' = log_records l'"
    using crash_recovery [OF w crash, of io] cfg by blast
  moreover have "w_config w' = cfg"
    using r(1) by (auto simp: wal_open_def Let_def split: if_splits sum.splits option.splits prod.splits)
  ultimately show ?thesis
    using subseq_prefix [OF acked, of kept] by (auto simp: run_inv_def)
qed

lemma wal_run_inv:
  assumes "wal_run cd cfg w acked grp" and cfg: "config_ok cfg"
  shows "\<exists>l. run_inv cd cfg w acked grp l"
  using assms(1)
proof (induction rule: wal_run.induct)
  case (run_start io w t)
  then show ?case
    using open_empty [OF dir_repr_nothing cfg run_start(1), of cd] by (auto simp: run_inv_def)
next
  case (run_write w acked grp io b r w')
  then obtain l where inv: "writer_inv cd w l" "w_config w = cfg" "subseq acked (durable_records cd w l)"
    "subseq (acked @ grp) (log_records l)"
    by (auto simp: run_inv_def)
  let ?l = "log_put cd (segment_target_bytes (w_config w)) b l"
  obtain r2 w2 more where step: "wal_write io cd w b = (Inr r2, w2)" "writer_inv cd w2 ?l"
    "w_config w2 = w_config w" "durable_records cd w2 ?l = durable_records cd w l @ more"
    using wal_write_refines [OF inv(1) run_write(2,3)] run_write(4) inv(2) by blast
  have w': "w' = w2" using step(1) run_write(5) by simp
  have "log_active l \<noteq> None" using inv(1) by (auto simp: writer_inv_def)
  then have "log_records ?l = log_records l @ [b]" by (rule log_records_put)
  then have "subseq (acked @ (grp @ [b])) (log_records ?l)"
    using inv(4) by (simp add: list_emb_append_mono flip: append_assoc)
  then show ?case using w' step inv(2) subseq_prefix [OF inv(3), of more] by (auto simp: run_inv_def)
next
  case (run_sync w acked grp io u w')
  then obtain l where inv: "writer_inv cd w l" "w_config w = cfg" "subseq (acked @ grp) (log_records l)"
    by (auto simp: run_inv_def)
  then show ?case
    using wal_sync_refines [OF inv(1) run_sync(2)] run_sync(3) by (auto simp: run_inv_def)
next
  case (run_seal w acked grp io c w')
  then obtain l where inv: "writer_inv cd w l" "w_config w = cfg" "subseq (acked @ grp) (log_records l)"
    by (auto simp: run_inv_def)
  moreover have "subseq acked (log_records l)"
    using inv(3) by (rule subseq_order.trans [OF subseq_prefix [OF subseq_order.refl]])
  ultimately show ?case
    using wal_seal_refines [OF inv(1) run_seal(2,3)] run_seal(4) by (auto simp: run_inv_def)
next
  case (run_crash w acked grp d io w' t)
  then obtain l where "run_inv cd cfg w acked grp l" by blast
  then show ?case using run_inv_reopen [OF _ run_crash(2), of cd cfg acked grp l io] run_crash(3) by auto
qed

end
