(* ===== verification/WalProperties.thy ===== *)
theory WalProperties
  imports WalReclaim WalRun
begin

text \<open>
  The properties of the write-ahead log, each applied at a concrete log with one sealed record
  and an empty active segment.
\<close>

section \<open>A concrete log\<close>

definition sample_event :: captured_event where
  "sample_event = \<lparr>uuid = 1, event = ''e'', distinct_id = ''d'', token = ''t'', timestamp = 0,
     properties = []\<rparr>"

definition sample_batch :: captured_batch where
  "sample_batch = \<lparr>events = [sample_event], project_ids_by_token = [], historical_migration = False,
     received_at_ms = 0\<rparr>"

definition sample_codec :: wal_codec where
  "sample_codec = \<lparr>to_vec = (\<lambda>_. Some [1, 2]),
     from_slice = (\<lambda>p. if p = [1, 2] then Some sample_batch else None),
     crc_hash = (\<lambda>p. word_of_nat (sum_list (map unat p)))\<rparr>"

definition sample_config :: wal_config where
  "sample_config = \<lparr>segment_target_bytes = 100, max_record_bytes = 50\<rparr>"

definition sample_io :: disk_io where
  "sample_io = \<lparr>write_ok = True, write_done = 0, sync_ok = True, seal_sync_ok = True,
     rename_ok = True, dirsync_ok = True, create_ok = True, create_dirsync_ok = True\<rparr>"

definition sample_frame :: bytes where
  "sample_frame = encode_frame sample_codec [1, 2]"

definition sample_log :: log where
  "sample_log = \<lparr>log_first = 1, log_sealed = [[sample_batch]], log_active = Some []\<rparr>"

definition sample_dir :: directory where
  "sample_dir = [(sealed_path 1, sample_frame), (active_path 2, [])]"

lemma sample_ok: "record_ok sample_codec 50 sample_batch"
  by (simp add: record_ok_def sample_codec_def sample_batch_def u32_max_def)

lemma sample_io_fine: "io_fine sample_io"
  by (simp add: sample_io_def io_fine_def)

lemma sample_config_ok: "config_ok sample_config"
  by (simp add: config_ok_def sample_config_def u32_max_def u64_max_def)

lemma sample_frames: "frame_of sample_codec sample_batch = sample_frame"
  by (simp add: frame_of_def sample_frame_def) (simp add: sample_codec_def)

lemma length_sample_frame: "length sample_frame = 18"
  by (simp add: sample_frame_def length_encode_frame record_header_bytes_def)

lemma sample_segment_ok: "segment_ok sample_codec 50 [sample_batch]" "segment_ok sample_codec 50 []"
  using sample_ok
  by (simp_all add: segment_ok_def records_ok_def sample_frames length_sample_frame u64_max_def)

lemma sample_limits: "(1::nat) < seq_limit" "(2::nat) < seq_limit" "(3::nat) < seq_limit"
  by (simp_all add: seq_limit_def)

lemma sample_dir_repr: "dir_repr sample_codec 50 sample_dir sample_log"
  using sample_segment_ok sample_limits
  by (simp add: dir_repr_def sample_dir_def sample_log_def log_next_def sample_frames numeral_2_eq_2)

lemma sample_writer:
  "\<exists>w. wal_open sample_io sample_codec [] sample_config False = Inr (w, False) \<and> w_seq w = 1
     \<and> w_config w = sample_config \<and> writer_inv sample_codec w (empty_log\<lparr>log_active := Some []\<rparr>)"
  by (rule open_empty [OF dir_repr_nothing sample_config_ok sample_io_fine])

lemma sample_pending: "cursor_pending sample_codec sample_log (cursor_new 1 0) [sample_batch]"
  using cursor_pending_start [of sample_log 1 sample_codec]
  by (simp add: sample_log_def log_next_def)

section \<open>The writer\<close>


lemma writer_crash:
  assumes "writer_inv cd w l"
  shows "\<exists>d. crash w d"
proof -
  obtain bs k where bs: "log_active l = Some bs" "w_synced w = offset_at cd bs k"
    and r: "dir_repr cd (max_record_bytes (w_config w)) (w_dir w) l" and s: "w_seq w = log_next l"
    using assms unfolding writer_inv_def by blast
  have "map_of (w_dir w) (active_path (w_seq w)) = Some (frames cd bs)"
    using r bs(1) s by (simp add: dir_repr_def)
  moreover have "w_synced w \<le> length (frames cd bs)"
    using bs(2) frames_drop [of cd bs k] by (metis le_add1 length_append)
  ultimately show ?thesis using cut by blast
qed

lemma sample_run:
  "\<exists>w d. wal_run sample_codec sample_config w [sample_batch] [] \<and> crash w d"
proof -
  obtain w where w: "wal_open sample_io sample_codec [] sample_config False = Inr (w, False)"
    "w_seq w = 1" "w_config w = sample_config"
    "writer_inv sample_codec w (empty_log\<lparr>log_active := Some []\<rparr>)" using sample_writer by blast
  have r0: "wal_run sample_codec sample_config w [] []"
    by (rule run_start [OF sample_io_fine w(1)])
  have lim: "w_seq w + 1 < seq_limit" using w(2) sample_limits by simp
  have ok: "record_ok sample_codec (max_record_bytes (w_config w)) sample_batch"
    using sample_ok w(3) by (simp add: sample_config_def)
  obtain r w1 l1 where w1: "wal_write sample_io sample_codec w sample_batch = (Inr r, w1)"
    "writer_inv sample_codec w1 l1"
    using wal_write_refines [OF w(4) sample_io_fine lim ok] by blast
  have r1: "wal_run sample_codec sample_config w1 [] ([] @ [sample_batch])"
    by (rule run_write [OF r0 sample_io_fine lim _ w1(1)]) (use ok w(3) in simp)
  obtain w2 where w2: "wal_sync sample_io w1 = (Inr (), w2)" "writer_inv sample_codec w2 l1"
    using wal_sync_refines [OF w1(2) sample_io_fine] by blast
  have r2: "wal_run sample_codec sample_config w2 ([] @ [] @ [sample_batch]) []"
    by (rule run_sync [OF r1 sample_io_fine w2(1)])
  obtain d where "crash w2 d" using writer_crash [OF w2(2)] by blast
  with r2 show ?thesis by auto
qed


text \<open>\<open>append\<close> adds exactly one record at the end of the log and returns only once all records of
  the log are durable. The writer keeps its invariant, also when the append seals the active
  segment first.\<close>

theorem wal_append_durable:
  assumes "writer_inv cd w l" and "io_fine io" and "w_seq w + 1 < seq_limit"
    and "record_ok cd (max_record_bytes (w_config w)) b"
  shows "\<exists>r w' l'. wal_append io cd w b = (Inr r, w') \<and> writer_inv cd w' l'
    \<and> log_records l' = log_records l @ [b] \<and> durable_records cd w' l' = log_records l'"
  using wal_append_refines [OF assms] by metis

theorem wal_append_durable_witness:
  "\<exists>w r w' l'. wal_append sample_io sample_codec w sample_batch = (Inr r, w')
    \<and> log_records l' = [sample_batch] \<and> durable_records sample_codec w' l' = [sample_batch]"
proof -
  obtain w where w: "w_seq w = 1" "w_config w = sample_config"
    "writer_inv sample_codec w (empty_log\<lparr>log_active := Some []\<rparr>)" using sample_writer by blast
  have "w_seq w + 1 < seq_limit" using w(1) sample_limits by simp
  moreover have "record_ok sample_codec (max_record_bytes (w_config w)) sample_batch"
    using sample_ok w(2) by (simp add: sample_config_def)
  moreover have "log_records (empty_log\<lparr>log_active := Some []\<rparr>) = []"
    by (simp add: log_records_def empty_log_def)
  ultimately show ?thesis
    using wal_append_durable [OF w(3) sample_io_fine] by (metis append_Nil)
qed

text \<open>C13: After an I/O error in \<open>append\<close> the writer refuses every further operation and no longer
  changes the directory: an acknowledgement never follows a failed write or sync.\<close>

theorem wal_failure_is_final:
  assumes "wal_append io cd w b = (Inl (Io e), w')"
  shows "wal_write io' cd w' b' = (Inl Poisoned, w') \<and> wal_sync io' w' = (Inl Poisoned, w')
    \<and> wal_append io' cd w' b' = (Inl Poisoned, w') \<and> wal_seal io' w' = (Inl Poisoned, w')"
  using poisoned_refuses [OF io_failure_poisons [OF assms]] by simp

theorem wal_failure_is_final_witness:
  "wal_sync sample_io (snd (wal_append (sample_io\<lparr>sync_ok := False\<rparr>) sample_codec
      \<lparr>w_dir = [(active_path 1, [])], w_config = sample_config, w_seq = 1, w_bytes = 0,
        w_poisoned = False, w_synced = 0\<rparr> sample_batch))
   = (Inl Poisoned, snd (wal_append (sample_io\<lparr>sync_ok := False\<rparr>) sample_codec
      \<lparr>w_dir = [(active_path 1, [])], w_config = sample_config, w_seq = 1, w_bytes = 0,
        w_poisoned = False, w_synced = 0\<rparr> sample_batch))"
proof -
  obtain w where w: "w = \<lparr>w_dir = [(active_path 1, [])], w_config = sample_config, w_seq = 1,
      w_bytes = 0, w_poisoned = False, w_synced = 0\<rparr>" by simp
  obtain w' where "wal_append (sample_io\<lparr>sync_ok := False\<rparr>) sample_codec w sample_batch
      = (Inl (Io OtherIo), w')"
    unfolding w
    by (simp add: wal_append_def wal_write_def wal_sync_def write_frame_def Let_def sample_io_def
        sample_batch_def sample_codec_def sample_config_def record_header_bytes_def sat_add_def
        u64_max_def u32_max_def)
  then show ?thesis using wal_failure_is_final [of "sample_io\<lparr>sync_ok := False\<rparr>"] w by (metis snd_conv)
qed

section \<open>Frames\<close>

text \<open>C14: What \<open>encode_frame\<close> writes is read back by \<open>read_record\<close>: the same batch, and the number of
  bytes it occupies, whatever follows it in the file.\<close>

theorem wal_frame_roundtrip:
  assumes "record_ok cd limit b" and "to_vec cd b = Some payload"
  shows "read_record cd (encode_frame cd payload @ rest) seg off limit
    = Inr (Some (b, record_header_bytes + length payload))"
  using read_record_frame [OF assms(1), of rest seg off] assms(2)
  by (simp add: frame_of_def length_encode_frame)

theorem wal_frame_roundtrip_witness:
  "read_record sample_codec (encode_frame sample_codec [1, 2] @ [9]) 3 7 50 = Inr (Some (sample_batch, 18))"
  using wal_frame_roundtrip [OF sample_ok, of "[1, 2]" "[9]" 3 7]
  by (simp add: sample_codec_def record_header_bytes_def)

text \<open>Two files that hold whole frames of acceptable records and the same bytes hold the same
  records: the log has one reading only.\<close>

theorem wal_frames_unambiguous:
  assumes "records_ok cd limit xs" and "records_ok cd limit ys" and "frames cd xs = frames cd ys"
  shows "xs = ys"
  using assms wal_framing.frames_unique [of xs cd limit ys] by (auto simp: records_ok_def)

theorem wal_frames_unambiguous_witness:
  "records_ok sample_codec 50 [sample_batch] \<and> [sample_batch] = [sample_batch]"
  using wal_frames_unambiguous [of sample_codec 50 "[sample_batch]" "[sample_batch]"] sample_ok
  by (simp add: records_ok_def)

section \<open>Damaged tails\<close>

text \<open>Zero-filled blocks after the last record of the active segment, as delayed allocation
  leaves them after a power loss, are cut off by the repairing scan and nothing else is.\<close>

theorem wal_zero_tail_cut:
  assumes "segment_ok cd limit bs" and "0 < n" and "length (frames cd bs) + n \<le> u64_max"
  shows "scan_segment cd (frames cd bs @ replicate n 0) seg limit True
    = Inr (\<lparr>valid_bytes = length (frames cd bs), truncated_tail = True\<rparr>, frames cd bs)"
  using zero_tail_recovered [OF assms] .

theorem wal_zero_tail_cut_witness:
  "scan_segment sample_codec (sample_frame @ replicate 4096 0) 1 50 True
    = Inr (\<lparr>valid_bytes = 18, truncated_tail = True\<rparr>, sample_frame)"
  using wal_zero_tail_cut [OF sample_segment_ok(1), of 4096 1]
  by (simp add: sample_frames length_sample_frame u64_max_def)

text \<open>C15: A group commit writes several frames before one sync. When a power loss leaves zeros from
  inside the payload of a frame that is not the last one of the group, the repairing scan refuses
  the whole segment as corrupt, although no acknowledged record is damaged.\<close>

theorem wal_zero_fill_in_group_refused:
  assumes "segment_ok cd limit bs" and "record_ok cd limit b" and "to_vec cd b = Some p"
    and "crc_hash cd (take j p @ replicate (length p - j) 0) \<noteq> crc_hash cd p" and "j \<le> length p"
    and "0 < n" and "length (frames cd bs @ frame_of cd b) + n \<le> u64_max"
  shows "scan_segment cd
      (frames cd bs @ frame_header cd p @ (take j p @ replicate (length p - j) 0) @ replicate n 0)
      seg limit True
    = Inl (corruption seg (length (frames cd bs)) ''record checksum mismatch'')"
  by (rule zero_fill_inside_group_refused [OF assms])

theorem wal_zero_fill_in_group_refused_witness:
  "scan_segment sample_codec
     (sample_frame @ frame_header sample_codec [1, 2] @ [1, 0] @ replicate 18 0) 1 50 True
   = Inl (corruption 1 18 ''record checksum mismatch'')"
  using wal_zero_fill_in_group_refused [OF sample_segment_ok(1) sample_ok, of "[1, 2]" 1 18 1]
  by (simp add: sample_frames length_sample_frame u64_max_def) (simp add: sample_codec_def)

text \<open>A complete frame with a wrong checksum is corruption everywhere in a segment, with one
  exception: as the very last frame of the active segment it is cut off as a torn write.\<close>

theorem wal_bad_checksum:
  assumes "segment_ok cd limit bs" and "record_ok cd limit b" and "to_vec cd b = Some p"
    and "length q = length p" and "crc_hash cd q \<noteq> crc_hash cd p"
    and "length (frames cd bs @ frame_of cd b @ rest) \<le> u64_max"
  shows "scan_segment cd (frames cd bs @ frame_header cd p @ q @ rest) seg limit repair
    = (if repair \<and> rest = []
       then Inr (\<lparr>valid_bytes = length (frames cd bs), truncated_tail = True\<rparr>, frames cd bs)
       else Inl (corruption seg (length (frames cd bs)) ''record checksum mismatch''))"
proof -
  have f: "length (frame_of cd b) = record_header_bytes + length p"
    using assms(3) by (simp add: frame_of_def length_encode_frame)
  let ?c = "frames cd bs @ frame_header cd p @ q @ rest"
  have "scan_loop cd ?c seg limit repair 0 = scan_loop cd ?c seg limit repair (length (frames cd bs))"
    using scan_frames [of cd limit bs "[]" "frame_header cd p @ q @ rest" seg repair] assms f
    by (simp add: segment_ok_def)
  then show ?thesis
    using scan_bad_payload [OF assms(2-5), of "frames cd bs" rest seg repair] assms(6)
    by (simp add: scan_segment_def)
qed

theorem wal_bad_checksum_witness:
  "scan_segment sample_codec (sample_frame @ frame_header sample_codec [1, 2] @ [1, 7]) 1 50 True
   = Inr (\<lparr>valid_bytes = 18, truncated_tail = True\<rparr>, sample_frame)"
  using wal_bad_checksum [OF sample_segment_ok(1) sample_ok, of "[1, 2]" "[1, 7]" "[]" 1 True]
  by (simp add: sample_frames length_sample_frame u64_max_def) (simp add: sample_codec_def)

section \<open>The publisher's side\<close>

text \<open>C16: A window opened at a valid cursor yields a prefix of the records pending there, in order.
  It stays within the byte budget (a single record may exceed it, so that publication always
  advances) and is as long as the budget allows, and its checkpoint is a cursor at which exactly
  the other records are pending: windows neither lose nor repeat a record. This holds although
  the first few listings may race with the writer and the writer keeps sealing segments.\<close>

theorem wal_window_is_prefix:
  assumes "k < layout_race_attempts"
    and "\<And>j. j < k \<Longrightarrow>
      \<exists>e. sealed_records_open_once cd (opens j) c (max_record_bytes cfg) = Inl e \<and> is_layout_race e"
    and "dir_repr cd (max_record_bytes cfg) (opens k) l" and "[] \<notin> set (log_sealed l)"
    and "cursor_pending cd l c ps" and "0 < budget" and "budget < u64_max"
    and "\<And>i. holds_sealed cd (reads i) l" and "length ps < fuel"
  shows "\<exists>w n rs w'. read_window cd opens cfg c budget = Inr w
    \<and> window_collect fuel cd reads w = Some (Inr (rs, w'))
    \<and> n \<le> length ps \<and> map batch rs = take n ps \<and> (ps \<noteq> [] \<longrightarrow> 0 < n)
    \<and> (n \<le> 1 \<or> length (frames cd (take n ps)) \<le> budget)
    \<and> (n < length ps \<longrightarrow> budget < length (frames cd (take (Suc n) ps)))
    \<and> cursor_pending cd l (checkpoint w') (drop n ps) \<and> cursor_normal cd l (checkpoint w')"
  by (rule read_window_pending [where k = k and opens = opens, OF assms])

theorem wal_window_is_prefix_witness:
  "\<exists>w rs w'. read_window sample_codec (\<lambda>_. sample_dir) sample_config (cursor_new 1 0) 1 = Inr w
    \<and> window_collect 2 sample_codec (\<lambda>_. sample_dir) w = Some (Inr (rs, w'))
    \<and> map batch rs = [sample_batch] \<and> cursor_pending sample_codec sample_log (checkpoint w') []"
proof -
  have r: "dir_repr sample_codec (max_record_bytes sample_config) sample_dir sample_log"
    using sample_dir_repr by (simp add: sample_config_def)
  have "[] \<notin> set (log_sealed sample_log)" by (simp add: sample_log_def)
  from wal_window_is_prefix [of 0 sample_codec "\<lambda>_. sample_dir" "cursor_new 1 0" sample_config sample_log
      "[sample_batch]" 1 "\<lambda>_. sample_dir" 2, OF _ _ r this sample_pending]
  obtain w n rs w' where "read_window sample_codec (\<lambda>_. sample_dir) sample_config (cursor_new 1 0) 1 = Inr w"
    "window_collect 2 sample_codec (\<lambda>_. sample_dir) w = Some (Inr (rs, w'))"
    "n \<le> 1" "map batch rs = take n [sample_batch]" "0 < n"
    "cursor_pending sample_codec sample_log (checkpoint w') (drop n [sample_batch])"
    using dir_repr_holds_sealed [OF r] by (auto simp: layout_race_attempts_def u64_max_def)
  moreover from this have "n = 1" by simp
  ultimately show ?thesis by auto
qed

text \<open>C17: Reclaiming at a checkpoint that windows leave behind never removes a record that is still
  pending, also when a removal fails half way; and when all removals succeed exactly the
  segments before the checkpoint's are gone.\<close>

theorem wal_reclaim_keeps_pending:
  assumes "dir_repr cd (max_record_bytes cfg) d l" and "log_active l \<noteq> None"
    and "cursor_pending cd l c ps" and "cursor_normal cd l c"
  shows "\<exists>res d' l' gone. reclaim_through ok dirsync cd d cfg c = (res, d')
    \<and> dir_repr cd (max_record_bytes cfg) d' l' \<and> cursor_pending cd l' c ps
    \<and> log_records l = gone @ log_records l'
    \<and> ((\<forall>p. ok p) \<and> dirsync \<longrightarrow> res = Inr [log_first l ..< segment c] \<and> log_first l' = segment c)"
proof -
  obtain j res d' where j: "reclaim_through ok dirsync cd d cfg c = (res, d')"
    "log_first l + j \<le> segment c" "j \<le> length (log_sealed l)"
    "dir_repr cd (max_record_bytes cfg) d' (log_drop j l)"
    "res = Inr [log_first l ..< segment c] \<and> log_first l + j = segment c \<or> res = Inl (Io OtherIo)"
    "(\<forall>p. ok p) \<and> dirsync \<longrightarrow> res = Inr [log_first l ..< segment c]"
    using reclaim_step [OF assms(1,3,4), of ok dirsync] by blast
  obtain gone where "log_records l = gone @ log_records (log_drop j l)"
    using log_records_drop by blast
  then show ?thesis
    using j cursor_pending_drop [OF assms(3) j(2,3) assms(2)]
    by (intro exI [where x = res] exI [where x = d'] exI [where x = "log_drop j l"]
        exI [where x = gone]) auto
qed

theorem wal_reclaim_keeps_pending_witness:
  "\<exists>d' l'. reclaim_through (\<lambda>_. True) True sample_codec sample_dir sample_config (cursor_new 2 0)
      = (Inr [1], d') \<and> dir_repr sample_codec 50 d' l' \<and> log_first l' = 2"
proof -
  have r: "dir_repr sample_codec (max_record_bytes sample_config) sample_dir sample_log"
    using sample_dir_repr by (simp add: sample_config_def)
  have "log_next sample_log = 2" by (simp add: sample_log_def log_next_def)
  then have "cursor_pending sample_codec sample_log (cursor_new 2 0) []"
    using cursor_pending_end [of sample_log sample_codec] by (simp add: sample_log_def)
  from wal_reclaim_keeps_pending [OF r _ this, of "\<lambda>_. True" True]
  show ?thesis
    by (auto simp: sample_log_def cursor_normal_def cursor_new_def log_next_def sample_config_def
        upt_rec)
qed

text \<open>C18: Between the rename of a full segment and the creation of the next one the directory has
  sealed segments only. If the publisher has read and reclaimed all of them and the writer then
  stops there (a crash, or no space for the new file), the directory is left without a segment:
  the next \<open>open\<close> starts again at sequence 1, and the committed checkpoint names a segment that
  does not exist, so that every window is refused.\<close>

theorem wal_reclaim_strands_checkpoint:
  assumes "dir_repr cd (max_record_bytes cfg) d l" and "log_active l = None" and "log_sealed l \<noteq> []"
    and "config_ok cfg" and "io_fine io" and "0 < budget"
  shows "\<exists>removed d' w. reclaim_through (\<lambda>_. True) True cd d cfg (cursor_new (log_next l) 0)
      = (Inr removed, d')
    \<and> wal_open io cd d' cfg False = Inr (w, False) \<and> w_seq w = 1
    \<and> read_window cd (\<lambda>_. w_dir w) cfg (cursor_new (log_next l) 0) budget
      = Inl (corruption (log_next l) 0 ''cursor segment does not exist'')"
proof -
  obtain removed d' w where w: "reclaim_through (\<lambda>_. True) True cd d cfg (cursor_new (log_next l) 0)
      = (Inr removed, d')" "wal_open io cd d' cfg False = Inr (w, False)" "w_seq w = 1"
    "validate_cursor cd (w_dir w) (layout_of (empty_log\<lparr>log_active := Some []\<rparr>))
        (cursor_new (log_next l) 0) (max_record_bytes cfg)
      = Inl (corruption (log_next l) 0 ''cursor segment does not exist'')"
    "discover_segment_layout (w_dir w) = Inr (layout_of (empty_log\<lparr>log_active := Some []\<rparr>))"
    using reclaim_between_segments [OF assms(1-5)] by blast
  then have "sealed_records_open_once cd (w_dir w) (cursor_new (log_next l) 0) (max_record_bytes cfg)
      = Inl (corruption (log_next l) 0 ''cursor segment does not exist'')"
    by (simp add: sealed_records_open_once_def)
  then have "sealed_records_open cd (\<lambda>_. w_dir w) (cursor_new (log_next l) 0) (max_record_bytes cfg)
      = Inl (corruption (log_next l) 0 ''cursor segment does not exist'')"
    unfolding sealed_records_open_def retry_layout_race_def by (rule retry_loop_constant)
  then show ?thesis using w(1-3) assms(6) by (auto simp: read_window_def)
qed

theorem wal_reclaim_strands_checkpoint_witness:
  "\<exists>removed d' w. reclaim_through (\<lambda>_. True) True sample_codec [(sealed_path 1, sample_frame)]
        sample_config (cursor_new 2 0) = (Inr removed, d')
    \<and> wal_open sample_io sample_codec d' sample_config False = Inr (w, False) \<and> w_seq w = 1
    \<and> read_window sample_codec (\<lambda>_. w_dir w) sample_config (cursor_new 2 0) 1000
      = Inl (corruption 2 0 ''cursor segment does not exist'')"
proof -
  obtain l where l: "l = \<lparr>log_first = 1, log_sealed = [[sample_batch]], log_active = None\<rparr>" by simp
  have "dir_repr sample_codec (max_record_bytes sample_config) [(sealed_path 1, sample_frame)] l"
    using sample_segment_ok sample_limits l
    by (simp add: dir_repr_def log_next_def sample_frames sample_config_def numeral_2_eq_2)
  moreover have "log_next l = 2" "log_active l = None" "log_sealed l \<noteq> []"
    using l by (simp_all add: log_next_def)
  ultimately show ?thesis
    using wal_reclaim_strands_checkpoint [OF _ _ _ sample_config_ok sample_io_fine, of sample_codec
        "[(sealed_path 1, sample_frame)]" l 1000] by simp
qed

end
