(* ===== verification/RateLimit.thy ===== *)
theory RateLimit
  imports Prelude
begin

text \<open>
  The per-token limiter of the capture endpoints, \<open>src/ratelimit.rs\<close>: a fixed window of one
  wall-clock second, a counter per token, at most \<open>max_tracked_tokens\<close> counters. The mutex makes
  each call one step. \<open>u32\<close> counters saturate.
\<close>

definition u32_top :: nat where
  "u32_top = 2 ^ 32 - 1"

definition default_max_per_sec :: nat where
  "default_max_per_sec = 10000"

definition max_tracked_tokens :: nat where
  "max_tracked_tokens = 50000"

record rate_window =
  second :: int
  counts :: "(string \<times> nat) list"

record rate_limiter =
  max_per_sec :: nat
  inner :: rate_window

definition limiter_new :: "nat \<Rightarrow> rate_limiter" where
  "limiter_new limit = \<lparr>max_per_sec = limit, inner = \<lparr>second = 0, counts = []\<rparr>\<rparr>"

definition allow :: "rate_limiter \<Rightarrow> string \<Rightarrow> nat \<Rightarrow> int \<Rightarrow> bool \<times> rate_limiter" where
  "allow rl tok n now =
     (let w = (if now \<noteq> second (inner rl) then \<lparr>second = now, counts = []\<rparr> else inner rl) in
      if max_tracked_tokens \<le> length (counts w) \<and> map_of (counts w) tok = None
      then (True, rl\<lparr>inner := w\<rparr>)
      else
        (let entry = sat_add u32_top (case map_of (counts w) tok of None \<Rightarrow> 0 | Some c \<Rightarrow> c) n in
         (entry \<le> max_per_sec rl, rl\<lparr>inner := w\<lparr>counts := AList.update tok entry (counts w)\<rparr>\<rparr>)))"

text \<open>A sequence of calls \<open>(token, events, second)\<close> and its answers.\<close>

fun allow_all :: "rate_limiter \<Rightarrow> (string \<times> nat \<times> int) list \<Rightarrow> bool list \<times> rate_limiter" where
  "allow_all rl [] = ([], rl)"
| "allow_all rl ((tok, n, now) # calls) =
     (let (answer, rl1) = allow rl tok n now; (answers, rl2) = allow_all rl1 calls
      in (answer # answers, rl2))"

section \<open>The table stays bounded\<close>

definition limiter_inv :: "rate_limiter \<Rightarrow> bool" where
  "limiter_inv rl \<longleftrightarrow> distinct (map fst (counts (inner rl)))
     \<and> length (counts (inner rl)) \<le> max_tracked_tokens
     \<and> (\<forall>c \<in> set (counts (inner rl)). snd c \<le> u32_top)"

lemma snd_update_subset: "snd ` set (AList.update k v m) \<subseteq> insert v (snd ` set m)"
  by (induction m) auto

lemma snd_update_le:
  assumes "\<forall>c \<in> set m. snd c \<le> b" and "v \<le> (b :: nat)"
  shows "\<forall>c \<in> set (AList.update k v m). snd c \<le> b"
proof
  fix c
  assume "c \<in> set (AList.update k v m)"
  then have "snd c \<in> insert v (snd ` set m)"
    using subsetD [OF snd_update_subset imageI] by metis
  then show "snd c \<le> b" using assms by (elim insertE imageE) simp_all
qed

lemma allow_inv:
  assumes "limiter_inv rl"
  shows "limiter_inv (snd (allow rl tok n now))"
proof -
  obtain w where w: "w = (if now \<noteq> second (inner rl) then \<lparr>second = now, counts = []\<rparr> else inner rl)"
    by simp
  have inv: "distinct (map fst (counts w))" "length (counts w) \<le> max_tracked_tokens"
    "\<forall>c \<in> set (counts w). snd c \<le> u32_top"
    using assms w by (simp_all add: limiter_inv_def)
  show ?thesis
  proof (cases "max_tracked_tokens \<le> length (counts w) \<and> map_of (counts w) tok = None")
    case True
    then show ?thesis using w inv by (simp add: allow_def limiter_inv_def)
  next
    case False
    then have "length (AList.update tok x (counts w)) \<le> max_tracked_tokens" for x
      using inv(2) by (auto simp: alist_simps)
    then show ?thesis
      using False w inv snd_update_le [OF inv(3) sat_add_le]
      by (simp add: allow_def limiter_inv_def Let_def distinct_keys_update)
  qed
qed

lemma allow_all_inv: "limiter_inv rl \<Longrightarrow> limiter_inv (snd (allow_all rl calls))"
proof (induction calls arbitrary: rl)
  case (Cons c calls)
  obtain tok n now where c: "c = (tok, n, now)" by (cases c) simp
  have "limiter_inv (snd (allow rl tok n now))" by (rule allow_inv [OF Cons.prems])
  from Cons.IH [OF this] show ?case using c by (simp add: case_prod_unfold Let_def)
qed simp

section \<open>The budget of one second\<close>

text \<open>The events of a token in a sequence of calls, the rejected ones included.\<close>

definition recorded :: "(string \<times> nat \<times> int) list \<Rightarrow> string \<Rightarrow> nat" where
  "recorded calls tok = (\<Sum>(u, n, _) \<leftarrow> calls. if u = tok then n else 0)"

lemma recorded_simps [simp]:
  "recorded [] tok = 0"
  "recorded (calls @ [(u, n, s)]) tok = recorded calls tok + (if u = tok then n else 0)"
  by (simp_all add: recorded_def)

definition tokens_of :: "(string \<times> nat \<times> int) list \<Rightarrow> string set" where
  "tokens_of calls = fst ` set calls"

text \<open>The window after the calls \<open>hist\<close> of second \<open>s\<close>.\<close>

definition window_of :: "int \<Rightarrow> (string \<times> nat \<times> int) list \<Rightarrow> rate_window \<Rightarrow> bool" where
  "window_of s hist w \<longleftrightarrow>
     second w = s \<and> distinct (map fst (counts w)) \<and> fst ` set (counts w) = tokens_of hist
     \<and> (\<forall>tok \<in> tokens_of hist. map_of (counts w) tok = Some (min (recorded hist tok) u32_top))"

lemma recorded_none: "tok \<notin> tokens_of hist \<Longrightarrow> recorded hist tok = 0"
  by (induction hist) (auto simp: tokens_of_def recorded_def)

lemma min_min_add: "min (min a b + c) b = min (a + c) b" for a b c :: nat
  by auto

lemma allow_window:
  assumes w: "inner rl = w" "window_of s hist w"
    and few: "card (tokens_of (hist @ [(tok, n, s)])) \<le> max_tracked_tokens"
    and limit: "max_per_sec rl < u32_top"
  shows "\<exists>rl'. allow rl tok n s = (recorded (hist @ [(tok, n, s)]) tok \<le> max_per_sec rl, rl')
    \<and> window_of s (hist @ [(tok, n, s)]) (inner rl') \<and> max_per_sec rl' = max_per_sec rl"
proof -
  have dist: "distinct (map fst (counts w))" and keys: "fst ` set (counts w) = tokens_of hist"
    and s: "second w = s"
    using w(2) by (simp_all add: window_of_def)
  have card: "length (counts w) = card (tokens_of hist)"
    using distinct_card [OF dist] keys by simp
  have old: "(case map_of (counts w) tok of None \<Rightarrow> 0 | Some c \<Rightarrow> c) = min (recorded hist tok) u32_top"
  proof (cases "tok \<in> tokens_of hist")
    case True
    then show ?thesis using w(2) by (simp add: window_of_def)
  next
    case False
    then have "map_of (counts w) tok = None" using keys by (simp add: map_of_eq_None_iff)
    then show ?thesis using recorded_none [OF False] by simp
  qed
  have room: "\<not> (max_tracked_tokens \<le> length (counts w) \<and> map_of (counts w) tok = None)"
  proof
    assume full: "max_tracked_tokens \<le> length (counts w) \<and> map_of (counts w) tok = None"
    then have "tok \<notin> tokens_of hist" using keys by (auto simp: map_of_eq_None_iff)
    then have "card (tokens_of (hist @ [(tok, n, s)])) = Suc (card (tokens_of hist))"
      by (simp add: tokens_of_def)
    then show False using few full card by simp
  qed
  let ?entry = "min (recorded (hist @ [(tok, n, s)]) tok) u32_top"
  have entry: "sat_add u32_top (min (recorded hist tok) u32_top) n = ?entry"
    by (simp add: sat_add_def min_min_add)
  have "allow rl tok n s = (?entry \<le> max_per_sec rl,
      rl\<lparr>inner := w\<lparr>counts := AList.update tok ?entry (counts w)\<rparr>\<rparr>)"
    using s w(1) unfolding allow_def w(1) s Let_def
    by (simp only: if_False simp_thms) (simp only: if_not_P [OF room] old entry)
  moreover have "?entry \<le> max_per_sec rl \<longleftrightarrow> recorded (hist @ [(tok, n, s)]) tok \<le> max_per_sec rl"
    using limit by (auto simp: min_def)
  moreover have "window_of s (hist @ [(tok, n, s)]) (w\<lparr>counts := AList.update tok ?entry (counts w)\<rparr>)"
    using w(2) unfolding window_of_def
    by (auto simp: alist_simps dom_update tokens_of_def)
  ultimately show ?thesis by simp
qed

text \<open>The answers to all calls of one second.\<close>

fun answers_of :: "nat \<Rightarrow> (string \<times> nat \<times> int) list \<Rightarrow> (string \<times> nat \<times> int) list \<Rightarrow> bool list" where
  "answers_of limit hist [] = []"
| "answers_of limit hist ((tok, n, s) # calls) =
     (recorded (hist @ [(tok, n, s)]) tok \<le> limit) # answers_of limit (hist @ [(tok, n, s)]) calls"

lemma allow_all_window:
  assumes "window_of s hist (inner rl)" and "\<forall>c \<in> set calls. snd (snd c) = s"
    and "card (tokens_of (hist @ calls)) \<le> max_tracked_tokens" and "max_per_sec rl < u32_top"
  shows "fst (allow_all rl calls) = answers_of (max_per_sec rl) hist calls"
  using assms
proof (induction calls arbitrary: rl hist)
  case Nil
  then show ?case by simp
next
  case (Cons c calls)
  obtain tok n where c: "c = (tok, n, s)" using Cons.prems(2) by (cases c) auto
  have "tokens_of (hist @ [(tok, n, s)]) \<subseteq> tokens_of (hist @ c # calls)"
    using c by (auto simp: tokens_of_def)
  then have "card (tokens_of (hist @ [(tok, n, s)])) \<le> max_tracked_tokens"
    using Cons.prems(3) card_mono [of "tokens_of (hist @ c # calls)"]
    by (metis List.finite_set finite_imageI le_trans tokens_of_def)
  then obtain rl' where rl': "allow rl tok n s
      = (recorded (hist @ [(tok, n, s)]) tok \<le> max_per_sec rl, rl')"
    "window_of s (hist @ [(tok, n, s)]) (inner rl')" "max_per_sec rl' = max_per_sec rl"
    using allow_window [OF refl Cons.prems(1) _ Cons.prems(4)] by blast
  have "fst (allow_all rl' calls) = answers_of (max_per_sec rl') (hist @ [(tok, n, s)]) calls"
    by (rule Cons.IH [OF rl'(2)]) (use Cons.prems rl'(3) c in simp_all)
  then show ?case using rl'(1,3) c by (simp add: Let_def case_prod_unfold)
qed

lemma allow_fresh: "second (inner rl) \<noteq> s \<Longrightarrow>
    allow rl tok n s = allow (rl\<lparr>inner := \<lparr>second = s, counts = []\<rparr>\<rparr>) tok n s"
  by (simp add: allow_def Let_def)

lemma window_of_fresh: "window_of s [] \<lparr>second = s, counts = []\<rparr>"
  by (simp add: window_of_def tokens_of_def)

lemma answers_of_nth:
  "i < length calls \<Longrightarrow> \<forall>c \<in> set calls. snd (snd c) = s \<Longrightarrow> answers_of limit hist calls ! i
    = (recorded (hist @ take (Suc i) calls) (fst (calls ! i)) \<le> limit)"
proof (induction calls arbitrary: hist i)
  case Nil
  then show ?case by simp
next
  case (Cons c calls)
  then show ?case by (cases c; cases i) simp_all
qed

lemma allow_all_fresh:
  assumes "second (inner rl) \<noteq> s" and "\<forall>c \<in> set calls. snd (snd c) = s"
    and "card (tokens_of calls) \<le> max_tracked_tokens" and "max_per_sec rl < u32_top"
  shows "fst (allow_all rl calls) = answers_of (max_per_sec rl) [] calls"
proof (cases calls)
  case (Cons c rest)
  let ?rl = "rl\<lparr>inner := \<lparr>second = s, counts = []\<rparr>\<rparr>"
  have "allow_all rl calls = allow_all ?rl calls"
    using Cons assms(1,2) allow_fresh by (cases c) simp
  then show ?thesis
    using allow_all_window [of s "[]" ?rl calls] window_of_fresh assms(2-4) by simp
qed simp

section \<open>Properties\<close>

text \<open>C19: In one second, as long as at most \<open>max_tracked_tokens\<close> tokens are seen, a call is allowed
  exactly when the events of its token so far in that second, this call and rejected calls
  included, are within the ceiling; other tokens and earlier seconds do not matter.\<close>

theorem rate_limit_exact:
  assumes "second (inner rl) \<noteq> s" and "\<forall>c \<in> set calls. snd (snd c) = s"
    and "card (tokens_of calls) \<le> max_tracked_tokens" and "max_per_sec rl < u32_top"
    and "i < length calls"
  shows "fst (allow_all rl calls) ! i
    \<longleftrightarrow> recorded (take (Suc i) calls) (fst (calls ! i)) \<le> max_per_sec rl"
  using allow_all_fresh [OF assms(1-4)] answers_of_nth [OF assms(5,2), of "max_per_sec rl" "[]"] by simp

theorem rate_limit_exact_witness:
  "fst (allow_all (limiter_new 5) [(''a'', 3, 7), (''b'', 5, 7), (''a'', 3, 7)]) ! 2 = False"
proof -
  let ?calls = "[(''a'', 3, 7), (''b'', 5, 7), (''a'', 3, 7)] :: (string \<times> nat \<times> int) list"
  have few: "card (tokens_of ?calls) \<le> max_tracked_tokens"
    by (simp add: tokens_of_def max_tracked_tokens_def card_insert_if)
  have "fst (allow_all (limiter_new 5) ?calls) ! 2
      \<longleftrightarrow> recorded (take (Suc 2) ?calls) (fst (?calls ! 2)) \<le> max_per_sec (limiter_new 5)"
    by (rule rate_limit_exact [OF _ _ few]) (simp_all add: limiter_new_def u32_top_def)
  then show ?thesis by (simp add: limiter_new_def recorded_def)
qed

text \<open>However many tokens are seen, the limiter never holds more than \<open>max_tracked_tokens\<close>
  counters, one per token, and no counter leaves the \<open>u32\<close> range.\<close>

theorem rate_limit_bounded:
  "distinct (map fst (counts (inner (snd (allow_all (limiter_new limit) calls)))))
   \<and> length (counts (inner (snd (allow_all (limiter_new limit) calls)))) \<le> max_tracked_tokens
   \<and> list_all (\<lambda>c. snd c \<le> u32_top) (counts (inner (snd (allow_all (limiter_new limit) calls))))"
proof -
  have "limiter_inv (limiter_new limit)" by (simp add: limiter_inv_def limiter_new_def)
  then have "limiter_inv (snd (allow_all (limiter_new limit) calls))" by (rule allow_all_inv)
  then show ?thesis by (simp add: limiter_inv_def list_all_iff)
qed

end
