(* ===== verification/Cache.thy ===== *)
theory Cache
  imports Prelude
begin

text \<open>
  The result cache of the query engine, \<open>src/cache.rs\<close>: a map with a clock of accesses, bounded in
  entries and in bytes, that evicts the least recently used entry; and the branch of the engine
  that answers from it (\<open>session_inner\<close> in \<open>src/query/mod.rs\<close>). The mutex makes each call one
  step. Instants are nanoseconds and passed in.

  The first part is the code, the second the list of entries from the oldest to the newest access
  that it implements, the third the contract between the cache and the engine.
\<close>

section \<open>State and operations\<close>

definition max_cache_bytes :: nat where
  "max_cache_bytes = 16 * 1024 * 1024"

record cache_key =
  key_project :: string
  key_query_hash :: bytes
  key_data_version :: nat
  key_identity_epoch :: nat
  key_identity_seq :: nat

record 'v cache_entry =
  entry_value :: 'v
  entry_bytes :: nat
  last_access :: nat
  expires :: "int option"

record 'v cache_state =
  entries :: "(cache_key \<times> 'v cache_entry) list"
  response_bytes :: nat
  access_clock :: nat

record 'v result_cache =
  cache_state :: "'v cache_state"
  max_entries :: nat
  max_cached_bytes :: nat

definition with_limits :: "nat \<Rightarrow> nat \<Rightarrow> 'v result_cache" where
  "with_limits n b =
     \<lparr>cache_state = \<lparr>entries = [], response_bytes = 0, access_clock = 0\<rparr>, max_entries = n,
      max_cached_bytes = b\<rparr>"

definition cache_new :: "nat \<Rightarrow> 'v result_cache" where
  "cache_new n = with_limits n max_cache_bytes"

definition tick :: "'v cache_state \<Rightarrow> nat \<times> 'v cache_state" where
  "tick s = (let c = sat_add u64_max (access_clock s) 1 in (c, s\<lparr>access_clock := c\<rparr>))"

definition remove_entry :: "cache_key \<Rightarrow> 'v cache_state \<Rightarrow> 'v cache_state" where
  "remove_entry k s =
     (case map_of (entries s) k of
        None \<Rightarrow> s
      | Some e \<Rightarrow> s\<lparr>entries := AList.delete k (entries s),
                    response_bytes := response_bytes s - entry_bytes e\<rparr>)"

definition cache_get :: "'v result_cache \<Rightarrow> cache_key \<Rightarrow> int \<Rightarrow> 'v option \<times> 'v result_cache" where
  "cache_get c k now =
     (let (access, s) = tick (cache_state c);
          expired = (case Option.bind (map_of (entries s) k) expires of
                       None \<Rightarrow> False | Some t \<Rightarrow> t \<le> now) in
      if expired then (None, c\<lparr>cache_state := remove_entry k s\<rparr>)
      else case map_of (entries s) k of
        None \<Rightarrow> (None, c\<lparr>cache_state := s\<rparr>)
      | Some e \<Rightarrow>
          (Some (entry_value e),
           c\<lparr>cache_state := s\<lparr>entries := AList.update k (e\<lparr>last_access := access\<rparr>) (entries s)\<rparr>\<rparr>))"

text \<open>The eviction loop; the access stamps of entries are pairwise different (\<open>cache_inv\<close>), so the
  minimum does not depend on the order of the map.\<close>

definition oldest :: "(cache_key \<times> 'v cache_entry) list \<Rightarrow> cache_key" where
  "oldest es = fst (arg_min_list (\<lambda>e. last_access (snd e)) es)"

lemma arg_min_list_in: "xs \<noteq> [] \<Longrightarrow> arg_min_list f xs \<in> set xs"
  by (induction xs rule: induct_list012) (auto simp: Let_def)

lemma oldest_in: "es \<noteq> [] \<Longrightarrow> oldest es \<in> fst ` set es"
  by (simp add: oldest_def arg_min_list_in)

lemma length_delete_less: "map_of es k \<noteq> None \<Longrightarrow> length (AList.delete k es) < length es"
  unfolding AList.delete_eq by (intro length_filter_less [where x = "(k, the (map_of es k))"])
    (auto dest: map_of_SomeD)

function evict :: "nat \<Rightarrow> nat \<Rightarrow> 'v cache_state \<Rightarrow> 'v cache_state" where
  "evict n b s =
     (if (n < length (entries s) \<or> b < response_bytes s) \<and> entries s \<noteq> []
      then evict n b (remove_entry (oldest (entries s)) s) else s)"
  by pat_completeness auto
termination
proof (relation "measure (\<lambda>(n, b, s). length (entries s))")
  fix n b and s :: "'a cache_state"
  assume "(n < length (entries s) \<or> b < response_bytes s) \<and> entries s \<noteq> []"
  then have "map_of (entries s) (oldest (entries s)) \<noteq> None"
    using oldest_in by (auto simp: map_of_eq_None_iff)
  then show "((n, b, remove_entry (oldest (entries s)) s), n, b, s)
      \<in> measure (\<lambda>(n, b, s). length (entries s))"
    by (auto simp: remove_entry_def length_delete_less split: option.splits)
qed simp

declare evict.simps [simp del]

definition cache_put ::
  "'v result_cache \<Rightarrow> cache_key \<Rightarrow> 'v \<Rightarrow> nat \<Rightarrow> nat option \<Rightarrow> int \<Rightarrow> 'v result_cache" where
  "cache_put c k v n ttl now =
     (let s = remove_entry k (cache_state c) in
      if max_entries c = 0 \<or> max_cached_bytes c < n then c\<lparr>cache_state := s\<rparr>
      else
        (let (access, s1) = tick s;
             e = \<lparr>entry_value = v, entry_bytes = n, last_access = access,
                  expires = map_option (\<lambda>t. now + int t) ttl\<rparr>;
             s2 = s1\<lparr>entries := AList.update k e (entries s1),
                     response_bytes := response_bytes s1 + n\<rparr> in
         c\<lparr>cache_state := evict (max_entries c) (max_cached_bytes c) s2\<rparr>))"

definition cache_clear :: "'v result_cache \<Rightarrow> 'v result_cache" where
  "cache_clear c = c\<lparr>cache_state := (cache_state c)\<lparr>entries := [], response_bytes := 0\<rparr>\<rparr>"

section \<open>Invariant\<close>

definition total_bytes :: "(cache_key \<times> 'v cache_entry) list \<Rightarrow> nat" where
  "total_bytes es = (\<Sum>e \<leftarrow> es. entry_bytes (snd e))"

definition state_inv :: "'v cache_state \<Rightarrow> bool" where
  "state_inv s \<longleftrightarrow>
     distinct (map fst (entries s)) \<and> response_bytes s = total_bytes (entries s)
     \<and> distinct (map (\<lambda>e. last_access (snd e)) (entries s))
     \<and> (\<forall>e \<in> set (entries s). last_access (snd e) \<le> access_clock s)"

definition cache_inv :: "'v result_cache \<Rightarrow> bool" where
  "cache_inv c \<longleftrightarrow> state_inv (cache_state c) \<and> length (entries (cache_state c)) \<le> max_entries c
     \<and> response_bytes (cache_state c) \<le> max_cached_bytes c"

lemma delete_split:
  assumes "distinct (map fst m)" and "map_of m k = Some e"
  shows "\<exists>xs ys. m = xs @ (k, e) # ys \<and> AList.delete k m = xs @ ys"
proof -
  obtain xs ys where m: "m = xs @ (k, e) # ys" using assms(2) map_of_SomeD split_list by fast
  then have "k \<notin> fst ` set xs" "k \<notin> fst ` set ys" using assms(1) by auto
  then have "AList.delete k xs = xs" "AList.delete k ys = ys" by (auto simp: delete_idem)
  then show ?thesis using m by (auto simp: AList.delete_eq)
qed

lemma update_split:
  assumes "distinct (map fst m)" and "map_of m k = Some e"
  shows "\<exists>xs ys. m = xs @ (k, e) # ys \<and> AList.update k e' m = xs @ (k, e') # ys"
proof -
  obtain xs ys where m: "m = xs @ (k, e) # ys" using assms(2) map_of_SomeD split_list by fast
  then have "k \<notin> fst ` set xs" using assms(1) by auto
  then have "AList.update k e' (xs @ (k, e) # ys) = xs @ (k, e') # ys" by (induction xs) auto
  then show ?thesis using m by blast
qed

lemma update_fresh: "map_of m k = None \<Longrightarrow> AList.update k e m = m @ [(k, e)]"
  by (induction m) (auto split: if_splits)

lemma remove_entry_inv:
  assumes "state_inv s"
  shows "state_inv (remove_entry k s)" and "response_bytes (remove_entry k s) \<le> response_bytes s"
    and "length (entries (remove_entry k s)) \<le> length (entries s)"
    and "access_clock (remove_entry k s) = access_clock s"
    and "map_of (entries (remove_entry k s)) = (map_of (entries s))(k := None)"
    and "entries (remove_entry k s) = AList.delete k (entries s)"
proof -
  show "map_of (entries (remove_entry k s)) = (map_of (entries s))(k := None)"
    by (auto simp: remove_entry_def alist_simps split: option.splits)
  show "entries (remove_entry k s) = AList.delete k (entries s)"
    by (auto simp: remove_entry_def map_of_eq_None_iff delete_idem split: option.splits)
  have "state_inv (remove_entry k s) \<and> response_bytes (remove_entry k s) \<le> response_bytes s
    \<and> length (entries (remove_entry k s)) \<le> length (entries s)
    \<and> access_clock (remove_entry k s) = access_clock s"
  proof (cases "map_of (entries s) k")
    case None
    then show ?thesis using assms by (simp add: remove_entry_def)
  next
    case (Some e)
    then obtain xs ys where "entries s = xs @ (k, e) # ys" "AList.delete k (entries s) = xs @ ys"
      using delete_split assms unfolding state_inv_def by metis
    then show ?thesis
      using assms Some by (auto simp: remove_entry_def state_inv_def total_bytes_def)
  qed
  then show "state_inv (remove_entry k s)" and "response_bytes (remove_entry k s) \<le> response_bytes s"
    and "length (entries (remove_entry k s)) \<le> length (entries s)"
    and "access_clock (remove_entry k s) = access_clock s" by blast+
qed

lemma evict_inv:
  assumes "state_inv s"
  shows "state_inv (evict n b s) \<and> length (entries (evict n b s)) \<le> n
    \<and> response_bytes (evict n b s) \<le> b \<and> access_clock (evict n b s) = access_clock s"
  using assms
proof (induction n b s rule: evict.induct)
  case (1 n b s)
  show ?case
  proof (cases "(n < length (entries s) \<or> b < response_bytes s) \<and> entries s \<noteq> []")
    case True
    then show ?thesis
      using "1.IH" [OF True remove_entry_inv(1) [OF "1.prems"]] remove_entry_inv(4) [OF "1.prems"]
      by (subst (1 2 3 4) evict.simps) simp
  next
    case False
    moreover have "response_bytes s = 0" if "entries s = []"
      using that "1.prems" by (simp add: state_inv_def total_bytes_def)
    ultimately show ?thesis
      using "1.prems" by (subst (1 2 3 4) evict.simps) auto
  qed
qed

section \<open>The list of entries from the oldest to the newest access\<close>

type_synonym 'v lru = "(cache_key \<times> 'v \<times> nat \<times> int option) list"

definition lru_remove :: "cache_key \<Rightarrow> 'v lru \<Rightarrow> 'v lru" where
  "lru_remove k xs = filter (\<lambda>x. fst x \<noteq> k) xs"

definition lru_bytes :: "'v lru \<Rightarrow> nat" where
  "lru_bytes xs = (\<Sum>(_, _, n, _) \<leftarrow> xs. n)"

fun lru_trim :: "nat \<Rightarrow> nat \<Rightarrow> 'v lru \<Rightarrow> 'v lru" where
  "lru_trim n b [] = []"
| "lru_trim n b (x # xs) =
     (if n < length (x # xs) \<or> b < lru_bytes (x # xs) then lru_trim n b xs else x # xs)"

definition lru_put ::
  "nat \<Rightarrow> nat \<Rightarrow> cache_key \<Rightarrow> 'v \<Rightarrow> nat \<Rightarrow> int option \<Rightarrow> 'v lru \<Rightarrow> 'v lru" where
  "lru_put n b k v sz ex xs =
     (if n = 0 \<or> b < sz then lru_remove k xs
      else lru_trim n b (lru_remove k xs @ [(k, v, sz, ex)]))"

definition lru_get :: "cache_key \<Rightarrow> int \<Rightarrow> 'v lru \<Rightarrow> 'v option \<times> 'v lru" where
  "lru_get k now xs =
     (case map_of xs k of
        None \<Rightarrow> (None, xs)
      | Some (v, sz, ex) \<Rightarrow>
          (if (case ex of None \<Rightarrow> False | Some t \<Rightarrow> t \<le> now) then (None, lru_remove k xs)
           else (Some v, lru_remove k xs @ [(k, v, sz, ex)])))"

definition stamp :: "cache_key \<times> 'v cache_entry \<Rightarrow> nat" where
  "stamp e = last_access (snd e)"

definition lru_entry :: "cache_key \<times> 'v cache_entry \<Rightarrow> cache_key \<times> 'v \<times> nat \<times> int option" where
  "lru_entry e = (fst e, entry_value (snd e), entry_bytes (snd e), expires (snd e))"

definition lru_of :: "(cache_key \<times> 'v cache_entry) list \<Rightarrow> 'v lru" where
  "lru_of es = map lru_entry (sort_key stamp es)"

definition entries_ok :: "(cache_key \<times> 'v cache_entry) list \<Rightarrow> bool" where
  "entries_ok es \<longleftrightarrow> distinct (map fst es) \<and> distinct (map stamp es)"

lemma state_inv_ok: "state_inv s \<Longrightarrow> entries_ok (entries s)"
  by (simp add: state_inv_def entries_ok_def stamp_def [abs_def])

lemma fst_lru_entry [simp]: "fst (lru_entry e) = fst e"
  by (simp add: lru_entry_def)

lemma map_of_lru_entry:
  "map_of (map lru_entry es) k = map_option (\<lambda>e. (entry_value e, entry_bytes e, expires e)) (map_of es k)"
  by (induction es) (auto simp: lru_entry_def)

lemma length_lru_of [simp]: "length (lru_of es) = length es"
  by (simp add: lru_of_def)

lemma lru_bytes_lru_of: "lru_bytes (lru_of es) = total_bytes es"
proof -
  have "lru_bytes (lru_of es) = (\<Sum>e \<leftarrow> sort_key stamp es. entry_bytes (snd e))"
    by (simp add: lru_bytes_def lru_of_def lru_entry_def o_def case_prod_unfold)
  also have "\<dots> = sum_mset (image_mset (\<lambda>e. entry_bytes (snd e)) (mset (sort_key stamp es)))"
    by (metis mset_map sum_mset_sum_list)
  also have "\<dots> = total_bytes es"
    unfolding total_bytes_def mset_sort by (metis mset_map sum_mset_sum_list)
  finally show ?thesis .
qed

lemma map_of_sorted:
  assumes "entries_ok es"
  shows "map_of (sort_key stamp es) = map_of es"
proof (rule map_of_inject_set [THEN iffD2])
  show "distinct (map fst es)" using assms by (simp add: entries_ok_def)
  then show "distinct (map fst (sort_key stamp es))"
    by (metis distinct_map distinct_sort set_sort)
qed simp

lemma lru_remove_of: "lru_remove k (lru_of es) = lru_of (AList.delete k es)"
proof -
  have "filter (\<lambda>x. fst x \<noteq> k) (sort_key stamp es) = sort_key stamp (AList.delete k es)"
    unfolding AList.delete_eq by (metis (mono_tags, lifting) case_prod_unfold filter_cong filter_sort)
  then show ?thesis by (simp add: lru_remove_def lru_of_def filter_map o_def)
qed

text \<open>A list with different stamps is sorted to the same list as any other with its elements.\<close>

lemma sort_stamp_eq:
  assumes "entries_ok es" and "entries_ok fs" and "set es = set fs"
  shows "sort_key stamp es = sort_key stamp fs"
proof (rule sort_key_eqI)
  show "distinct es" using assms(1) unfolding entries_ok_def distinct_map by blast
  show "set es = set (sort_key stamp fs)" using assms(3) by simp
  have "distinct (map stamp fs)" using assms(2) by (simp add: entries_ok_def)
  then show "distinct (map stamp (sort_key stamp fs))"
    by (metis distinct_map distinct_sort set_sort)
qed simp

lemma lru_of_newest:
  assumes ok: "entries_ok (es @ [e])" and newest: "\<forall>x \<in> set es. stamp x \<le> stamp e"
  shows "lru_of (es @ [e]) = lru_of es @ [lru_entry e]"
proof -
  have "sort_key stamp (es @ [e]) = sort_key stamp es @ [e]"
  proof (rule sort_key_eqI)
    show "distinct (es @ [e])" using ok unfolding entries_ok_def distinct_map by blast
    show "sorted (map stamp (sort_key stamp es @ [e]))"
      using newest by (simp add: sorted_append)
    have "distinct (map stamp es)" "stamp e \<notin> stamp ` set es" using ok by (auto simp: entries_ok_def)
    then show "distinct (map stamp (sort_key stamp es @ [e]))"
      by (simp add: distinct_map)
  qed simp
  then show ?thesis by (simp add: lru_of_def)
qed

lemma entries_ok_delete: "entries_ok es \<Longrightarrow> entries_ok (AList.delete k es)"
  unfolding AList.delete_eq entries_ok_def by (simp add: distinct_map_filter)

text \<open>Writing an entry with the newest stamp moves its key to the end.\<close>

lemma lru_of_update:
  assumes ok: "entries_ok es" and newest: "\<forall>x \<in> set es. stamp x < last_access e"
  shows "lru_of (AList.update k e es) = lru_remove k (lru_of es) @ [lru_entry (k, e)]"
    and "entries_ok (AList.update k e es)"
proof -
  have sub: "set (AList.delete k es) \<subseteq> set es" by (auto simp: AList.delete_eq)
  have ok': "entries_ok (AList.delete k es @ [(k, e)])"
    using entries_ok_delete [OF ok, of k] newest sub
    by (auto simp: entries_ok_def stamp_def AList.delete_eq)
  have set_eq: "set (AList.update k e es) = set (AList.delete k es @ [(k, e)])"
    and st: "set (map stamp (AList.update k e es)) = set (map stamp (AList.delete k es @ [(k, e)]))"
    and len: "length (AList.update k e es) = length (AList.delete k es @ [(k, e)])"
  proof -
    have "set (AList.update k e es) = set (AList.delete k es @ [(k, e)]) \<and>
      length (AList.update k e es) = length (AList.delete k es @ [(k, e)])"
    proof (cases "map_of es k")
      case None
      then show ?thesis by (simp add: update_fresh delete_idem map_of_eq_None_iff)
    next
      case (Some e0)
      obtain xs ys where "es = xs @ (k, e0) # ys" "AList.update k e es = xs @ (k, e) # ys"
        using update_split ok Some unfolding entries_ok_def by metis
      moreover have "AList.delete k es = xs @ ys"
      proof -
        have "k \<notin> fst ` set xs" "k \<notin> fst ` set ys"
          using ok \<open>es = xs @ (k, e0) # ys\<close> by (auto simp: entries_ok_def)
        then have "AList.delete k xs = xs" "AList.delete k ys = ys" by (auto simp: delete_idem)
        then show ?thesis using \<open>es = xs @ (k, e0) # ys\<close> by (auto simp: AList.delete_eq)
      qed
      ultimately show ?thesis by simp
    qed
    then show "set (AList.update k e es) = set (AList.delete k es @ [(k, e)])"
      and "length (AList.update k e es) = length (AList.delete k es @ [(k, e)])" by blast+
    then show "set (map stamp (AList.update k e es)) = set (map stamp (AList.delete k es @ [(k, e)]))"
      by simp
  qed
  show ok2: "entries_ok (AList.update k e es)"
    using ok ok' st len unfolding entries_ok_def
    by (metis distinct_keys_update card_distinct distinct_card length_map)
  have "lru_of (AList.update k e es) = lru_of (AList.delete k es @ [(k, e)])"
    unfolding lru_of_def using sort_stamp_eq [OF ok2 ok' set_eq] by simp
  also have "\<dots> = lru_of (AList.delete k es) @ [lru_entry (k, e)]"
    by (rule lru_of_newest [OF ok']) (use newest sub in \<open>fastforce simp: stamp_def\<close>)
  finally show "lru_of (AList.update k e es) = lru_remove k (lru_of es) @ [lru_entry (k, e)]"
    by (simp add: lru_remove_of)
qed

section \<open>The operations implement the list\<close>

lemma tick_unsaturated:
  "access_clock s < u64_max \<Longrightarrow> tick s = (Suc (access_clock s), s\<lparr>access_clock := Suc (access_clock s)\<rparr>)"
  by (simp add: tick_def sat_add_def Let_def)

lemma oldest_first:
  assumes ok: "entries_ok es" and ne: "es \<noteq> []"
  shows "\<exists>rest. sort_key stamp es = (oldest es, the (map_of es (oldest es))) # rest"
proof -
  let ?m = "arg_min_list stamp es"
  obtain x rest where s: "sort_key stamp es = x # rest"
    using ne by (metis length_sort length_0_conv neq_Nil_conv)
  have m: "?m \<in> set es" using ne by (rule arg_min_list_in)
  have x: "x \<in> set es" using s by (metis list.set_intros(1) set_sort)
  have "sorted (map stamp (x # rest))" by (metis s sorted_sort_key)
  then have "stamp x \<le> stamp y" if "y \<in> set es" for y
    using that s by (metis list.simps(9) set_ConsD set_sort sorted_simps(2) image_eqI list.set_map order_refl)
  then have "stamp x = Min (stamp ` set es)" using x by (intro Min_eqI [symmetric]) auto
  then have "stamp x = stamp ?m" using f_arg_min_list_f [OF ne, of stamp] by simp
  moreover have "inj_on stamp (set es)" using ok by (simp add: entries_ok_def distinct_map)
  ultimately have xm: "x = ?m" using x m by (meson inj_onD)
  have "oldest es = fst ?m" by (simp add: oldest_def stamp_def [abs_def])
  moreover have "map_of es (fst ?m) = Some (snd ?m)"
    using ok m by (simp add: entries_ok_def map_of_is_SomeI)
  ultimately show ?thesis using s xm by (metis option.sel prod.collapse)
qed

lemma lru_of_remove_oldest:
  assumes ok: "entries_ok es" and ne: "es \<noteq> []"
  shows "\<exists>x. lru_of es = x # lru_of (AList.delete (oldest es) es)"
proof -
  obtain rest where s: "sort_key stamp es = (oldest es, the (map_of es (oldest es))) # rest"
    using oldest_first [OF assms] by blast
  have "distinct (map fst (sort_key stamp es))"
    using ok unfolding entries_ok_def by (metis distinct_map distinct_sort set_sort)
  then have "filter (\<lambda>x. fst x \<noteq> oldest es) rest = rest"
    unfolding s by (intro filter_True) (force simp: rev_image_eqI)
  then have "lru_remove (oldest es) (lru_of es) = map lru_entry rest"
    by (simp add: lru_remove_def lru_of_def s filter_map o_def)
  then have "lru_of es = lru_entry (oldest es, the (map_of es (oldest es)))
      # lru_of (AList.delete (oldest es) es)"
    unfolding lru_remove_of by (simp add: lru_of_def s)
  then show ?thesis by blast
qed

lemma lru_of_evict:
  "state_inv s \<Longrightarrow> lru_of (entries (evict n b s)) = lru_trim n b (lru_of (entries s))"
proof (induction n b s rule: evict.induct)
  case (1 n b s)
  have sum: "lru_bytes (lru_of (entries s)) = response_bytes s"
    using "1.prems" by (simp add: lru_bytes_lru_of state_inv_def)
  have len: "length (lru_of (entries s)) = length (entries s)" by simp
  show ?case
  proof (cases "(n < length (entries s) \<or> b < response_bytes s) \<and> entries s \<noteq> []")
    case True
    obtain x where x: "lru_of (entries s) = x # lru_of (AList.delete (oldest (entries s)) (entries s))"
      using lru_of_remove_oldest [OF state_inv_ok [OF "1.prems"]] True by blast
    have "lru_trim n b (lru_of (entries s))
        = lru_trim n b (lru_of (AList.delete (oldest (entries s)) (entries s)))"
      using True sum len unfolding x by simp
    then show ?thesis
      using True "1.IH" [OF True remove_entry_inv(1) [OF "1.prems"]] remove_entry_inv(6) [OF "1.prems"]
      by (subst evict.simps) simp
  next
    case False
    have "lru_trim n b (lru_of (entries s)) = lru_of (entries s)"
    proof (cases "lru_of (entries s)")
      case (Cons x xs)
      then show ?thesis using False sum len by auto
    qed simp
    then show ?thesis using False by (subst evict.simps) auto
  qed
qed

lemma state_inv_update:
  assumes inv: "state_inv s" and clock: "access_clock s < u64_max" and n: "n = entry_bytes e"
    and e: "last_access e = Suc (access_clock s)"
    and old: "response_bytes s + n = total_bytes (AList.update k e (entries s)) + gone"
  shows "state_inv (s\<lparr>access_clock := Suc (access_clock s), entries := AList.update k e (entries s),
      response_bytes := response_bytes s + n - gone\<rparr>)"
    and "lru_of (AList.update k e (entries s)) = lru_remove k (lru_of (entries s)) @ [lru_entry (k, e)]"
proof -
  have newest: "\<forall>x \<in> set (entries s). stamp x < last_access e"
    using inv e by (auto simp: state_inv_def stamp_def)
  note u = lru_of_update [OF state_inv_ok [OF inv] newest]
  show "lru_of (AList.update k e (entries s)) = lru_remove k (lru_of (entries s)) @ [lru_entry (k, e)]"
    by (rule u(1))
  have "last_access (snd x) \<le> Suc (access_clock s)" if "x \<in> set (AList.update k e (entries s))" for x
  proof -
    have "x \<in> insert (k, e) (set (entries s))"
      using that set_update_subset [of k e "entries s"] by blast
    then show ?thesis using inv e by (auto simp: state_inv_def)
  qed
  then show "state_inv (s\<lparr>access_clock := Suc (access_clock s), entries := AList.update k e (entries s),
      response_bytes := response_bytes s + n - gone\<rparr>)"
    using u(2) old unfolding state_inv_def entries_ok_def by (auto simp: stamp_def [abs_def])
qed

abbreviation lru_list :: "'v result_cache \<Rightarrow> 'v lru" where
  "lru_list c \<equiv> lru_of (entries (cache_state c))"

abbreviation clock_ok :: "'v result_cache \<Rightarrow> bool" where
  "clock_ok c \<equiv> access_clock (cache_state c) < u64_max"

lemma cache_put_refines:
  assumes inv: "cache_inv c" and clock: "clock_ok c"
  shows "cache_inv (cache_put c k v n ttl now)"
    and "lru_list (cache_put c k v n ttl now)
      = lru_put (max_entries c) (max_cached_bytes c) k v n (map_option (\<lambda>t. now + int t) ttl) (lru_list c)"
    and "max_entries (cache_put c k v n ttl now) = max_entries c"
    and "max_cached_bytes (cache_put c k v n ttl now) = max_cached_bytes c"
proof -
  have si: "state_inv (cache_state c)" using inv by (simp add: cache_inv_def)
  obtain s where s: "s = remove_entry k (cache_state c)" by simp
  note r = remove_entry_inv [OF si, of k, folded s]
  have "cache_inv (cache_put c k v n ttl now)
    \<and> lru_list (cache_put c k v n ttl now)
      = lru_put (max_entries c) (max_cached_bytes c) k v n (map_option (\<lambda>t. now + int t) ttl) (lru_list c)
    \<and> max_entries (cache_put c k v n ttl now) = max_entries c
    \<and> max_cached_bytes (cache_put c k v n ttl now) = max_cached_bytes c"
  proof (cases "max_entries c = 0 \<or> max_cached_bytes c < n")
    case True
    then show ?thesis
      using inv r s by (auto simp: cache_put_def cache_inv_def lru_put_def lru_remove_of Let_def)
  next
    case False
    obtain e where e: "e = \<lparr>entry_value = v, entry_bytes = n, last_access = Suc (access_clock s),
        expires = map_option (\<lambda>t. now + int t) ttl\<rparr>" by simp
    have c': "access_clock s < u64_max" using clock r(4) by simp
    have fresh: "AList.update k e (entries s) = entries s @ [(k, e)]"
      using r(5) by (intro update_fresh) simp
    have old: "response_bytes s + n = total_bytes (AList.update k e (entries s)) + 0"
      unfolding fresh using r(1) e by (simp add: state_inv_def total_bytes_def)
    have n: "n = entry_bytes e" and la: "last_access e = Suc (access_clock s)" using e by simp_all
    note u = state_inv_update [OF r(1) c' n la old]
    obtain s2 where s2: "s2 = s\<lparr>access_clock := Suc (access_clock s),
        entries := AList.update k e (entries s), response_bytes := response_bytes s + n\<rparr>" by simp
    have inv2: "state_inv s2" using u(1) s2 by simp
    have put: "cache_put c k v n ttl now
        = c\<lparr>cache_state := evict (max_entries c) (max_cached_bytes c) s2\<rparr>"
      using False s2 e unfolding cache_put_def Let_def s [symmetric] tick_unsaturated [OF c'] by simp
    have "lru_of (entries s2) = lru_remove k (lru_list c) @ [lru_entry (k, e)]"
      using u(2) s2 r(6) by (simp add: lru_remove_of [symmetric]) (simp add: lru_remove_def)
    then show ?thesis
      unfolding put using evict_inv [OF inv2] lru_of_evict [OF inv2] False e
      by (simp add: cache_inv_def lru_put_def lru_entry_def)
  qed
  then show "cache_inv (cache_put c k v n ttl now)"
    and "lru_list (cache_put c k v n ttl now)
      = lru_put (max_entries c) (max_cached_bytes c) k v n (map_option (\<lambda>t. now + int t) ttl) (lru_list c)"
    and "max_entries (cache_put c k v n ttl now) = max_entries c"
    and "max_cached_bytes (cache_put c k v n ttl now) = max_cached_bytes c" by blast+
qed

lemma map_of_lru_list:
  assumes "state_inv s"
  shows "map_of (lru_of (entries s)) k
    = map_option (\<lambda>e. (entry_value e, entry_bytes e, expires e)) (map_of (entries s) k)"
  unfolding lru_of_def map_of_lru_entry map_of_sorted [OF state_inv_ok [OF assms]] ..

lemma state_inv_tick: "state_inv s \<Longrightarrow> state_inv (s\<lparr>access_clock := Suc (access_clock s)\<rparr>)"
  by (auto simp: state_inv_def)

lemma cache_get_refines:
  assumes inv: "cache_inv c" and clock: "clock_ok c"
  shows "cache_inv (snd (cache_get c k now))"
    and "fst (cache_get c k now) = fst (lru_get k now (lru_list c))"
    and "lru_list (snd (cache_get c k now)) = snd (lru_get k now (lru_list c))"
    and "max_entries (snd (cache_get c k now)) = max_entries c"
    and "max_cached_bytes (snd (cache_get c k now)) = max_cached_bytes c"
proof -
  let ?c = "cache_state c"
  have si: "state_inv ?c" using inv by (simp add: cache_inv_def)
  obtain s where s: "s = ?c\<lparr>access_clock := Suc (access_clock ?c)\<rparr>" by simp
  have si': "state_inv s" and es: "entries s = entries ?c" "response_bytes s = response_bytes ?c"
    using state_inv_tick [OF si] s by simp_all
  note tick = tick_unsaturated [OF clock, folded s]
  have "cache_inv (snd (cache_get c k now))
    \<and> fst (cache_get c k now) = fst (lru_get k now (lru_list c))
    \<and> lru_list (snd (cache_get c k now)) = snd (lru_get k now (lru_list c))
    \<and> max_entries (snd (cache_get c k now)) = max_entries c
    \<and> max_cached_bytes (snd (cache_get c k now)) = max_cached_bytes c"
  proof (cases "map_of (entries ?c) k")
    case None
    then show ?thesis
      using inv si' es tick map_of_lru_list [OF si, of k]
      by (simp add: cache_get_def lru_get_def cache_inv_def)
  next
    case (Some e)
    show ?thesis
    proof (cases "case expires e of None \<Rightarrow> False | Some t \<Rightarrow> t \<le> now")
      case True
      then show ?thesis
        using Some inv es tick map_of_lru_list [OF si, of k] remove_entry_inv [OF si', of k]
        by (simp add: cache_get_def lru_get_def cache_inv_def lru_remove_of)
    next
      case False
      obtain e' where e': "e' = e\<lparr>last_access := Suc (access_clock ?c)\<rparr>" by simp
      obtain xs ys where xy: "entries ?c = xs @ (k, e) # ys"
        "AList.update k e' (entries ?c) = xs @ (k, e') # ys"
        using update_split si Some unfolding state_inv_def by metis
      have old: "response_bytes ?c + entry_bytes e' = total_bytes (AList.update k e' (entries ?c)) + entry_bytes e'"
        using si e' xy by (simp add: state_inv_def total_bytes_def)
      have la: "last_access e' = Suc (access_clock ?c)" using e' by simp
      note u = state_inv_update [OF si clock refl la old]
      have "s\<lparr>entries := AList.update k e' (entries s)\<rparr> = ?c\<lparr>access_clock := Suc (access_clock ?c),
          entries := AList.update k e' (entries ?c),
          response_bytes := response_bytes ?c + entry_bytes e' - entry_bytes e'\<rparr>"
        using s by simp
      then have "state_inv (s\<lparr>entries := AList.update k e' (entries s)\<rparr>)" using u(1) by simp
      moreover have "cache_get c k now
          = (Some (entry_value e), c\<lparr>cache_state := s\<lparr>entries := AList.update k e' (entries s)\<rparr>\<rparr>)"
        using False Some es tick e' by (simp add: cache_get_def)
      moreover have "length (AList.update k e' (entries s)) = length (entries ?c)"
        using Some es by (simp add: alist_simps)
      ultimately show ?thesis
        using False Some inv es u(2) e' map_of_lru_list [OF si, of k]
        by (simp add: cache_inv_def lru_get_def lru_entry_def)
    qed
  qed
  then show "cache_inv (snd (cache_get c k now))"
    and "fst (cache_get c k now) = fst (lru_get k now (lru_list c))"
    and "lru_list (snd (cache_get c k now)) = snd (lru_get k now (lru_list c))"
    and "max_entries (snd (cache_get c k now)) = max_entries c"
    and "max_cached_bytes (snd (cache_get c k now)) = max_cached_bytes c" by blast+
qed

section \<open>Answering from the cache\<close>

text \<open>
  The engine's use of it: look up unless a refresh is asked for, otherwise compute, and store a
  result that serializes (its size is \<open>n\<close>). \<open>now1\<close> is the time of the lookup, \<open>now2\<close> the time after
  the computation. The flag of the answer is \<open>QueryMeta.cached\<close>.
\<close>

definition person_property_cache_ttl :: nat where
  "person_property_cache_ttl = 30 * 1000000000"

definition answer_with ::
  "('c \<Rightarrow> 'k \<Rightarrow> int \<Rightarrow> 'v option \<times> 'c) \<Rightarrow> ('c \<Rightarrow> 'k \<Rightarrow> 'v \<Rightarrow> nat \<Rightarrow> nat option \<Rightarrow> int \<Rightarrow> 'c) \<Rightarrow>
    'c \<Rightarrow> 'k option \<Rightarrow> bool \<Rightarrow> bool \<Rightarrow> int \<Rightarrow> int \<Rightarrow> ('v \<Rightarrow> nat option) \<Rightarrow> 'e + 'v \<Rightarrow>
    ('e + 'v \<times> bool) \<times> 'c" where
  "answer_with look store c key refresh person_props now1 now2 size_of computed =
     (let (hit, c1) = (case key of
             None \<Rightarrow> (None, c)
           | Some k \<Rightarrow> if refresh then (None, c) else look c k now1) in
      case hit of
        Some v \<Rightarrow> (Inr (v, True), c1)
      | None \<Rightarrow>
          (case computed of
             Inl e \<Rightarrow> (Inl e, c1)
           | Inr v \<Rightarrow>
               (Inr (v, False),
                case (key, size_of v) of
                  (Some k, Some n) \<Rightarrow>
                    store c1 k v n (if person_props then Some person_property_cache_ttl else None) now2
                | _ \<Rightarrow> c1)))"

abbreviation session_answer where
  "session_answer \<equiv> answer_with cache_get cache_put"

locale memo_store =
  fixes look :: "'c \<Rightarrow> 'k \<Rightarrow> int \<Rightarrow> 'v option \<times> 'c"
    and store :: "'c \<Rightarrow> 'k \<Rightarrow> 'v \<Rightarrow> nat \<Rightarrow> nat option \<Rightarrow> int \<Rightarrow> 'c"
    and holds :: "'c \<Rightarrow> 'k \<Rightarrow> 'v \<Rightarrow> bool"
  assumes look_holds: "look c k now = (Some v, c') \<Longrightarrow> holds c k v"
    and look_keeps: "look c k now = (r, c') \<Longrightarrow> holds c' k' v \<Longrightarrow> holds c k' v"
    and store_keeps: "holds (store c k v n ttl now) k' v' \<Longrightarrow> k' = k \<and> v' = v \<or> holds c k' v'"
begin

definition consistent :: "('k \<Rightarrow> 'v) \<Rightarrow> 'c \<Rightarrow> bool" where
  "consistent f c \<longleftrightarrow> (\<forall>k v. holds c k v \<longrightarrow> v = f k)"

lemma consistent_look: "consistent f c \<Longrightarrow> look c k now = (r, c') \<Longrightarrow> consistent f c'"
  unfolding consistent_def using look_keeps by blast

lemma consistent_store: "consistent f c \<Longrightarrow> consistent f (store c k (f k) n ttl now)"
  unfolding consistent_def using store_keeps by blast

text \<open>When the key determines the result, the answer is the computed one, from the cache or not.\<close>

lemma answer_sound:
  assumes "consistent f c"
    and "\<And>k v. key = Some k \<Longrightarrow> computed = Inr v \<Longrightarrow> v = f k"
    and "answer_with look store c key refresh pp now1 now2 size_of computed = (r, c')"
  shows "consistent f c'"
    and "r = Inr (v, cached) \<Longrightarrow> key = Some k \<Longrightarrow> v = f k"
proof -
  obtain hit c1 where h: "(case key of None \<Rightarrow> (None, c)
      | Some k \<Rightarrow> if refresh then (None, c) else look c k now1) = (hit, c1)" by fastforce
  have c1: "consistent f c1"
    using h assms(1) consistent_look by (auto split: option.splits if_splits)
  have hits: "v = f k" if "hit = Some v" "key = Some k" for v k
    using h that assms(1) look_holds unfolding consistent_def by (auto split: if_splits)
  show "consistent f c'"
  proof (cases hit)
    case (Some v)
    then show ?thesis using assms(3) h c1 by (simp add: answer_with_def)
  next
    case None
    show ?thesis
    proof (cases computed)
      case (Inr w)
      have "consistent f (store c1 k w n ttl now)" if "key = Some k" for k n ttl now
        using consistent_store [OF c1] assms(2) [OF that Inr] by simp
      then show ?thesis
        using None Inr assms(3) h c1 by (auto simp: answer_with_def split: option.splits)
    qed (use None assms(3) h c1 in \<open>simp add: answer_with_def\<close>)
  qed
  show "v = f k" if "r = Inr (v, cached)" "key = Some k"
    using assms(2,3) h hits that
    by (cases hit; cases computed) (auto simp: answer_with_def)
qed

end

definition cache_holds :: "'v result_cache \<Rightarrow> cache_key \<Rightarrow> 'v \<Rightarrow> bool" where
  "cache_holds c k v \<longleftrightarrow> (\<exists>e. map_of (entries (cache_state c)) k = Some e \<and> entry_value e = v)"

lemma map_of_remove_entry: "map_of (entries (remove_entry k s)) = (map_of (entries s))(k := None)"
  by (auto simp: remove_entry_def alist_simps split: option.splits)

lemma map_of_evict: "map_of (entries (evict n b s)) k = Some e \<Longrightarrow> map_of (entries s) k = Some e"
proof (induction n b s rule: evict.induct)
  case (1 n b s)
  show ?case
  proof (cases "(n < length (entries s) \<or> b < response_bytes s) \<and> entries s \<noteq> []")
    case True
    then have "map_of (entries (evict n b (remove_entry (oldest (entries s)) s))) k = Some e"
      using "1.prems" by (simp add: evict.simps [of n b s])
    then show ?thesis using "1.IH" [OF True] by (auto simp: map_of_remove_entry split: if_splits)
  next
    case False
    then have "evict n b s = s" by (subst evict.simps) auto
    then show ?thesis using "1.prems" by simp
  qed
qed

interpretation result_store: memo_store cache_get cache_put cache_holds
proof
  fix c :: "'v result_cache" and k now v c'
  assume "cache_get c k now = (Some v, c')"
  then show "cache_holds c k v"
    by (auto simp: cache_get_def tick_def cache_holds_def Let_def split: if_splits option.splits)
next
  fix c :: "'v result_cache" and k now r c' k' v
  assume "cache_get c k now = (r, c')" and "cache_holds c' k' v"
  then show "cache_holds c k' v"
    by (auto simp: cache_get_def tick_def cache_holds_def Let_def map_of_remove_entry alist_simps
        split: if_splits option.splits)
next
  fix c :: "'v result_cache" and k v n ttl now k' v'
  assume "cache_holds (cache_put c k v n ttl now) k' v'"
  then show "k' = k \<and> v' = v \<or> cache_holds c k' v'"
    by (auto simp: cache_put_def tick_def cache_holds_def Let_def map_of_remove_entry alist_simps
        split: if_splits dest!: map_of_evict)
qed

section \<open>Properties\<close>

definition sample_key :: "nat \<Rightarrow> cache_key" where
  "sample_key n = \<lparr>key_project = ''p'', key_query_hash = [], key_data_version = n,
     key_identity_epoch = 0, key_identity_seq = 0\<rparr>"

lemma cache_inv_new: "cache_inv (with_limits n b)" "access_clock (cache_state (with_limits n b)) = 0"
  by (simp_all add: cache_inv_def with_limits_def state_inv_def total_bytes_def)

lemma lru_list_new: "lru_list (with_limits n b) = []"
  by (simp add: with_limits_def lru_of_def)

text \<open>C20: \<open>put\<close> implements the least-recently-used list: the new entry becomes the newest, the oldest
  entries go until both limits hold again, an entry that alone exceeds the byte limit only
  removes its key. The limits, the byte count and the uniqueness of stamps are kept.\<close>

theorem cache_put_is_lru:
  assumes "cache_inv c" and "access_clock (cache_state c) < u64_max"
  shows "cache_inv (cache_put c k v n ttl now)
    \<and> lru_of (entries (cache_state (cache_put c k v n ttl now)))
      = lru_put (max_entries c) (max_cached_bytes c) k v n (map_option (\<lambda>t. now + int t) ttl)
          (lru_of (entries (cache_state c)))"
  using cache_put_refines [OF assms] by blast

theorem cache_put_is_lru_witness:
  "lru_of (entries (cache_state (cache_put (with_limits 2 10 :: nat result_cache) (sample_key 1) 7 4 None 0)))
   = [(sample_key 1, 7, 4, None)]"
  using cache_put_is_lru [OF cache_inv_new(1), of 2 10 "sample_key 1" "7 :: nat" 4 None 0]
  by (simp add: cache_inv_new(2) lru_list_new u64_max_def lru_put_def lru_remove_def lru_bytes_def)
    (simp add: with_limits_def)

text \<open>\<open>get\<close> implements the list too: an entry past its expiry is dropped and not returned, a
  hit returns the stored value and becomes the newest entry, a miss changes nothing.\<close>

theorem cache_get_is_lru:
  assumes "cache_inv c" and "access_clock (cache_state c) < u64_max"
  shows "cache_inv (snd (cache_get c k now))
    \<and> (fst (cache_get c k now), lru_of (entries (cache_state (snd (cache_get c k now)))))
      = lru_get k now (lru_of (entries (cache_state c)))"
  using cache_get_refines [OF assms] by (simp add: prod_eq_iff)

theorem cache_get_is_lru_witness:
  "fst (cache_get (with_limits 2 10 :: nat result_cache) (sample_key 1) 0) = None"
  using cache_get_is_lru [of "with_limits 2 10 :: nat result_cache" "sample_key 1" 0]
  by (simp add: cache_inv_new lru_list_new u64_max_def lru_get_def)

text \<open>C21: When the cache holds only results that their key determines (\<open>f\<close>), an answer of the engine
  for a key is the result for that key, whether it comes from the cache or not, and the cache
  stays so.\<close>

theorem cached_answer_is_computed:
  assumes "\<And>k v. cache_holds c k v \<Longrightarrow> v = f k" and "\<And>v. computed = Inr v \<Longrightarrow> v = f k"
    and "answer_with cache_get cache_put c (Some k) refresh pp now1 now2 size_of computed = (Inr (v, hit), c')"
  shows "v = f k \<and> (cache_holds c' k' v' \<longrightarrow> v' = f k')"
proof -
  have c: "result_store.consistent f c" using assms(1) by (simp add: result_store.consistent_def)
  have "result_store.consistent f c'" "v = f k"
    using result_store.answer_sound [OF c _ assms(3)] assms(2) by blast+
  then show ?thesis by (simp add: result_store.consistent_def)
qed

theorem cached_answer_is_computed_witness:
  "fst (answer_with cache_get cache_put (with_limits 2 10 :: nat result_cache) (Some (sample_key 1)) False False 0 0
      (\<lambda>_. Some 4) (Inr 7 :: string + nat)) = Inr (7, False)"
proof -
  let ?c = "with_limits 2 10 :: nat result_cache"
  obtain c' where c': "answer_with cache_get cache_put ?c (Some (sample_key 1)) False False 0 0
      (\<lambda>_. Some 4) (Inr 7 :: string + nat) = (Inr (7, False), c')"
    by (simp add: answer_with_def cache_get_def with_limits_def tick_def Let_def)
  have "\<not> cache_holds ?c k v" for k v by (simp add: cache_holds_def with_limits_def)
  then have "(7 :: nat) = (\<lambda>_. 7) (sample_key 1)"
    using cached_answer_is_computed [OF _ _ c', of "\<lambda>_. 7"] by blast
  then show ?thesis using c' by simp
qed

end
