(* ===== verification/Projections.thy ===== *)
theory Projections
  imports WalFrame
begin

text \<open>
  The rebuildable projections, \<open>src/projections.rs\<close>: persons, their distinct ids with the
  sequence numbers of the identity override feed, groups, pending erasures and the catalog of
  event names, property keys and property values. The SQLite tables are association lists keyed
  by their primary keys; each operation runs inside the caller's transaction, so an error is a
  result and the transaction is dropped.

  What is not under \<open>src\<close> is the record \<open>externals\<close>: \<open>serde_json\<close>'s printer and parser for the
  JSON columns, its number formatting, and \<open>chrono\<close>'s formatting of instants. A constraint
  violation is the error \<open>Database\<close>; SQLite integers are unbounded here.
\<close>

section \<open>Tables\<close>

record externals =
  to_string :: "json \<Rightarrow> string"
  from_str :: "string \<Rightarrow> json option"
  number_text :: "number \<Rightarrow> string"
  rfc3339 :: "instant \<Rightarrow> string"
  format_micros :: "instant \<Rightarrow> string"
  timestamp_millis :: "instant \<Rightarrow> int"

datatype projection_error = Database | InvalidJson | InvalidProjectId | CursorOutOfRange wal_cursor

record person =
  p_created_at :: string
  p_identified :: bool
  p_properties :: string
  p_first_seen_key :: string
  p_last_seen :: "string option"

record tables =
  persons :: "((string \<times> string) \<times> person) list"
  distinct_ids :: "((string \<times> string) \<times> string \<times> nat) list"
  identity_seq :: nat
  identity_epoch :: nat
  pending :: "(string \<times> string) list"
  groups :: "((string \<times> string \<times> string) \<times> string \<times> string) list"
  event_names :: "((string \<times> string) \<times> int \<times> nat) list"
  property_keys :: "((string \<times> string \<times> string) \<times> string \<times> int \<times> nat) list"
  property_values :: "((string \<times> string \<times> string) \<times> int \<times> nat) list"

text \<open>The order of SQLite's \<open>TEXT\<close> values and of Rust's \<open>str\<close>: bytes from the left.\<close>

fun str_less :: "string \<Rightarrow> string \<Rightarrow> bool" where
  "str_less _ [] = False"
| "str_less [] (_ # _) = True"
| "str_less (a # as) (b # bs) = (code a < code b \<or> a = b \<and> str_less as bs)"

text \<open>SQL's \<open>max\<close> over a nullable text column.\<close>

fun sql_max :: "string option \<Rightarrow> string option \<Rightarrow> string option" where
  "sql_max None b = b"
| "sql_max a None = a"
| "sql_max (Some a) (Some b) = Some (if str_less a b then b else a)"

definition sortable_time :: "externals \<Rightarrow> instant \<Rightarrow> string" where
  "sortable_time ex t = format_micros ex t"

definition decode_properties :: "externals \<Rightarrow> string \<Rightarrow> projection_error + object" where
  "decode_properties ex encoded =
     (case from_str ex encoded of
        Some (Object m) \<Rightarrow> Inr m
      | _ \<Rightarrow> Inl InvalidJson)"

definition update_person :: "(string \<times> string) \<Rightarrow> (person \<Rightarrow> person) \<Rightarrow> tables \<Rightarrow> tables" where
  "update_person k f t =
     (case map_of (persons t) k of
        None \<Rightarrow> t
      | Some p \<Rightarrow> t\<lparr>persons := AList.update k (f p) (persons t)\<rparr>)"

section \<open>Identity\<close>

definition next_identity_seq :: "tables \<Rightarrow> nat \<times> tables" where
  "next_identity_seq t = (identity_seq t + 1, t\<lparr>identity_seq := identity_seq t + 1\<rparr>)"

definition ensure_person ::
  "externals \<Rightarrow> string \<Rightarrow> string \<Rightarrow> captured_event \<Rightarrow> tables \<Rightarrow> projection_error + (string \<times> tables)" where
  "ensure_person ex proj did ev t =
     (case map_of (distinct_ids t) (proj, did) of
        Some (pid, _) \<Rightarrow> Inr (pid, t)
      | None \<Rightarrow>
          if map_of (persons t) (proj, did) \<noteq> None then Inl Database
          else Inr (did, t\<lparr>
            persons := AList.update (proj, did)
              \<lparr>p_created_at = rfc3339 ex (timestamp ev), p_identified = False, p_properties = ''{}'',
               p_first_seen_key = did, p_last_seen = None\<rparr> (persons t),
            distinct_ids := AList.update (proj, did) (did, 0) (distinct_ids t)\<rparr>))"

definition mark_identified :: "string \<Rightarrow> string \<Rightarrow> tables \<Rightarrow> tables" where
  "mark_identified proj did t =
     (case map_of (distinct_ids t) (proj, did) of
        None \<Rightarrow> t
      | Some (pid, _) \<Rightarrow> update_person (proj, pid) (\<lambda>p. p\<lparr>p_identified := True\<rparr>) t)"

datatype merge_guard = RefuseIdentifiedSource | RefuseBothIdentified | Always

text \<open>
  The rows of a merge, once the guards have let it through. Repointing leaves the loser's person
  without a distinct id, so that its deletion cascades to nothing.
\<close>

definition extend :: "object \<Rightarrow> object \<Rightarrow> object" where
  "extend m kvs = fold (\<lambda>(k, v). AList.update k v) kvs m"

definition merge_rows ::
  "externals \<Rightarrow> string \<Rightarrow> string \<Rightarrow> string \<Rightarrow> tables \<Rightarrow> projection_error + tables" where
  "merge_rows ex proj winner loser t =
     (case (map_of (persons t) (proj, winner), map_of (persons t) (proj, loser)) of
        (Some w, Some l) \<Rightarrow>
          and_then (decode_properties ex (p_properties l)) (\<lambda>loser_props.
          and_then (decode_properties ex (p_properties w)) (\<lambda>winner_props.
            (let merged = extend loser_props winner_props;
                 (created, first_seen) =
                   (if str_less (p_created_at l) (p_created_at w)
                    then (p_created_at l, p_first_seen_key l)
                    else (p_created_at w, p_first_seen_key w));
                 (s, t1) = next_identity_seq t;
                 t2 = t1\<lparr>distinct_ids := map (\<lambda>((pr, d), pid, q).
                        if pr = proj \<and> pid = loser then ((pr, d), winner, s) else ((pr, d), pid, q))
                        (distinct_ids t1)\<rparr>;
                 t3 = update_person (proj, winner)
                        (\<lambda>p. p\<lparr>p_last_seen := sql_max (p_last_seen w) (p_last_seen l)\<rparr>) t2;
                 t4 = update_person (proj, winner)
                        (\<lambda>p. p\<lparr>p_properties := to_string ex (Object merged), p_created_at := created,
                              p_first_seen_key := first_seen, p_identified := True\<rparr>) t3 in
             Inr (t4\<lparr>persons := AList.delete (proj, loser) (persons t4)\<rparr>))))
      | _ \<Rightarrow> Inl Database)"

definition merge_persons ::
  "externals \<Rightarrow> string \<Rightarrow> string \<Rightarrow> string \<Rightarrow> captured_event \<Rightarrow> merge_guard \<Rightarrow> tables \<Rightarrow>
    projection_error + tables" where
  "merge_persons ex proj losing_id winning_id ev guard t =
     and_then (ensure_person ex proj winning_id ev t) (\<lambda>(winner, t1).
     and_then (ensure_person ex proj losing_id ev t1) (\<lambda>(loser, t2).
       if winner = loser then Inr t2
       else case map_of (persons t2) (proj, loser) of
         None \<Rightarrow> Inl Database
       | Some l \<Rightarrow>
           if guard = RefuseIdentifiedSource \<and> p_identified l then Inr t2
           else if guard = RefuseBothIdentified \<and> p_identified l then
             (case map_of (persons t2) (proj, winner) of
                None \<Rightarrow> Inl Database
              | Some w \<Rightarrow>
                  if p_identified w then Inr t2 else merge_rows ex proj loser winner t2)
           else merge_rows ex proj winner loser t2))"

section \<open>Groups and person properties\<close>

definition apply_group ::
  "externals \<Rightarrow> string \<Rightarrow> captured_event \<Rightarrow> tables \<Rightarrow> projection_error + tables" where
  "apply_group ex proj ev t =
     (case (get_str (properties ev) ''$group_type'',
            (case map_of (properties ev) ''$group_key'' of
               Some (String s) \<Rightarrow> Some s
             | Some (Number n) \<Rightarrow> Some (number_text ex n)
             | _ \<Rightarrow> None)) of
        (Some gtype, Some gkey) \<Rightarrow>
          (let existing = map_of (groups t) (proj, gtype, gkey) in
           and_then (case existing of None \<Rightarrow> Inr [] | Some (enc, _) \<Rightarrow> decode_properties ex enc) (\<lambda>props.
             (let props' = (case Option.bind (map_of (properties ev) ''$group_set'') as_object of
                              None \<Rightarrow> props | Some m \<Rightarrow> extend props m);
                  created = (case existing of None \<Rightarrow> rfc3339 ex (timestamp ev) | Some (_, c) \<Rightarrow> c) in
              Inr (t\<lparr>groups := AList.update (proj, gtype, gkey)
                        (to_string ex (Object props'), created) (groups t)\<rparr>))))
      | _ \<Rightarrow> Inr t)"

definition set_once_all :: "object \<Rightarrow> object \<Rightarrow> object" where
  "set_once_all m kvs = fold (\<lambda>(k, v) m. if map_of m k = None then AList.update k v m else m) kvs m"

definition unset_all :: "object \<Rightarrow> json list \<Rightarrow> object" where
  "unset_all m ks = fold (\<lambda>k m. case as_str k of None \<Rightarrow> m | Some s \<Rightarrow> AList.delete s m) ks m"

definition apply_person_properties ::
  "externals \<Rightarrow> string \<Rightarrow> string \<Rightarrow> captured_event \<Rightarrow> tables \<Rightarrow> projection_error + tables" where
  "apply_person_properties ex proj did ev t =
     (let set_once = Option.bind (map_of (properties ev) ''$set_once'') as_object;
          set = Option.bind (map_of (properties ev) ''$set'') as_object;
          unset = Option.bind (map_of (properties ev) ''$unset'') as_array in
      if set_once = None \<and> set = None \<and> unset = None then Inr t
      else and_then (ensure_person ex proj did ev t) (\<lambda>(pid, t1).
        case map_of (persons t1) (proj, pid) of
          None \<Rightarrow> Inl Database
        | Some p \<Rightarrow>
            and_then (decode_properties ex (p_properties p)) (\<lambda>m.
              (let m1 = (case set_once of None \<Rightarrow> m | Some kvs \<Rightarrow> set_once_all m kvs);
                   m2 = (case set of None \<Rightarrow> m1 | Some kvs \<Rightarrow> extend m1 kvs);
                   m3 = (case unset of None \<Rightarrow> m2 | Some ks \<Rightarrow> unset_all m2 ks) in
               Inr (update_person (proj, pid) (\<lambda>p. p\<lparr>p_properties := to_string ex (Object m3)\<rparr>) t1)))))"

section \<open>One event\<close>

definition other_id :: "captured_event \<Rightarrow> string \<Rightarrow> string option" where
  "other_id ev key =
     (case get_str (properties ev) key of
        None \<Rightarrow> None
      | Some v \<Rightarrow> if v \<noteq> [] \<and> v \<noteq> distinct_id ev then Some v else None)"

definition merge_if :: "externals \<Rightarrow> string \<Rightarrow> captured_event \<Rightarrow> string \<Rightarrow> merge_guard \<Rightarrow> tables \<Rightarrow>
    projection_error + tables" where
  "merge_if ex proj ev key guard t =
     (case other_id ev key of
        None \<Rightarrow> Inr t
      | Some other \<Rightarrow> merge_persons ex proj other (distinct_id ev) ev guard t)"

definition apply_event_kind ::
  "externals \<Rightarrow> string \<Rightarrow> captured_event \<Rightarrow> tables \<Rightarrow> projection_error + tables" where
  "apply_event_kind ex proj ev t =
     (if event ev = ''$identify'' then
        and_then (merge_if ex proj ev ''$anon_distinct_id'' RefuseIdentifiedSource t)
          (\<lambda>t1. Inr (mark_identified proj (distinct_id ev) t1))
      else if event ev = ''$create_alias'' then
        and_then (merge_if ex proj ev ''alias'' RefuseBothIdentified t)
          (\<lambda>t1. Inr (mark_identified proj (distinct_id ev) t1))
      else if event ev = ''$merge_dangerously'' then merge_if ex proj ev ''alias'' Always t
      else if event ev = ''$groupidentify'' then apply_group ex proj ev t
      else Inr t)"

definition touch_person :: "externals \<Rightarrow> string \<Rightarrow> string \<Rightarrow> captured_event \<Rightarrow> tables \<Rightarrow> tables" where
  "touch_person ex proj pid ev t =
     (let now = sortable_time ex (timestamp ev) in
      update_person (proj, pid)
        (\<lambda>p. case p_last_seen p of
               None \<Rightarrow> p\<lparr>p_last_seen := Some now\<rparr>
             | Some s \<Rightarrow> if str_less s now then p\<lparr>p_last_seen := Some now\<rparr> else p) t)"

definition apply_identity ::
  "externals \<Rightarrow> string \<Rightarrow> captured_event \<Rightarrow> tables \<Rightarrow> projection_error + tables" where
  "apply_identity ex proj ev t =
     and_then (ensure_person ex proj (distinct_id ev) ev t) (\<lambda>(pid, t1).
     and_then (apply_event_kind ex proj ev (touch_person ex proj pid ev t1)) (\<lambda>t2.
       apply_person_properties ex proj (distinct_id ev) ev t2))"

definition apply_identity_effects ::
  "externals \<Rightarrow> string \<Rightarrow> captured_event \<Rightarrow> tables \<Rightarrow> projection_error + tables" where
  "apply_identity_effects ex proj ev t =
     (if trim proj = [] then Inl InvalidProjectId else apply_identity ex proj ev t)"

section \<open>Erasure\<close>

definition erase_person :: "string \<Rightarrow> string \<Rightarrow> tables \<Rightarrow> string list \<times> tables" where
  "erase_person proj pid t =
     (let ids = map (\<lambda>((_, d), _). d)
            (filter (\<lambda>((pr, _), p, _). pr = proj \<and> p = pid) (distinct_ids t)) in
      (ids, t\<lparr>
        pending := fold (\<lambda>d rows. if (proj, d) \<in> List.set rows then rows else rows @ [(proj, d)])
                     ids (pending t),
        distinct_ids := filter (\<lambda>((pr, _), p, _). \<not> (pr = proj \<and> p = pid)) (distinct_ids t),
        persons := AList.delete (proj, pid) (persons t),
        identity_epoch := identity_epoch t + 1,
        identity_seq := identity_seq t + 1\<rparr>))"

definition max_pending_erasures_per_project :: nat where
  "max_pending_erasures_per_project = 10000"

text \<open>The rows come in the order of the query, by project and distinct id.\<close>

definition pending_erasures :: "(string \<times> string) list \<Rightarrow> (string \<times> string list) list" where
  "pending_erasures rows =
     fold (\<lambda>(proj, d) grouped.
       (let ids = (case map_of grouped proj of None \<Rightarrow> [] | Some ids \<Rightarrow> ids) in
        AList.update proj
          (if length ids < max_pending_erasures_per_project then ids @ [d] else ids) grouped)) rows []"

definition clear_pending_erasures :: "string \<Rightarrow> string list \<Rightarrow> tables \<Rightarrow> tables" where
  "clear_pending_erasures proj ids t =
     t\<lparr>pending := fold (\<lambda>d. filter (\<lambda>row. row \<noteq> (proj, d))) ids (pending t)\<rparr>"

end
