(* ===== verification/ProjectionsCorrect.thy ===== *)
theory ProjectionsCorrect
  imports Projections
begin

text \<open>
  What the identity projection keeps (\<open>tables_inv\<close>): every person is the owner of its own id, every
  distinct id belongs to an existing person, the sequence numbers tell exactly the rows that were
  repointed, and the JSON columns decode. From it: no constraint of the schema can fail, merges
  do what their guards say, and the override feed is complete.
\<close>

text \<open>
  What the projections rely on in \<open>serde_json\<close>: parsed objects have distinct keys, and the text of an
  object is parsed back to an object with the same members.
\<close>

definition json_ok :: "externals \<Rightarrow> bool" where
  "json_ok ex \<longleftrightarrow> from_str ex ''{}'' = Some (Object [])
     \<and> (\<forall>s m. from_str ex s = Some (Object m) \<longrightarrow> distinct (map fst m))
     \<and> (\<forall>m. \<exists>m'. from_str ex (to_string ex (Object m)) = Some (Object m') \<and> map_of m' = map_of m)"

definition decodable :: "externals \<Rightarrow> string \<Rightarrow> bool" where
  "decodable ex enc \<longleftrightarrow> (\<exists>m. decode_properties ex enc = Inr m)"

lemma decode_to_string:
  assumes "json_ok ex"
  obtains m' where "decode_properties ex (to_string ex (Object m)) = Inr m'" "map_of m' = map_of m"
proof -
  obtain m' where "from_str ex (to_string ex (Object m)) = Some (Object m')" "map_of m' = map_of m"
    using assms unfolding json_ok_def by blast
  then show thesis using that by (simp add: decode_properties_def)
qed

lemma decodable_to_string [simp]: "json_ok ex \<Longrightarrow> decodable ex (to_string ex (Object m))"
  unfolding decodable_def by (erule decode_to_string [of _ m]) blast

definition tables_inv :: "externals \<Rightarrow> tables \<Rightarrow> bool" where
  "tables_inv ex t \<longleftrightarrow>
     distinct (map fst (persons t)) \<and> distinct (map fst (distinct_ids t))
     \<and> (\<forall>pr i p. map_of (persons t) (pr, i) = Some p \<longrightarrow>
          map_of (distinct_ids t) (pr, i) = Some (i, 0) \<and> decodable ex (p_properties p))
     \<and> (\<forall>pr d i s. map_of (distinct_ids t) (pr, d) = Some (i, s) \<longrightarrow>
          map_of (persons t) (pr, i) \<noteq> None \<and> s \<le> identity_seq t \<and> (s = 0 \<longleftrightarrow> i = d))
     \<and> (\<forall>k enc c. map_of (groups t) k = Some (enc, c) \<longrightarrow> decodable ex enc)"

lemma tables_invD:
  assumes "tables_inv ex t"
  shows "map_of (persons t) (pr, i) = Some p \<Longrightarrow> map_of (distinct_ids t) (pr, i) = Some (i, 0)"
    and "map_of (persons t) (pr, i) = Some p \<Longrightarrow> decodable ex (p_properties p)"
    and "map_of (distinct_ids t) (pr, d) = Some (i, s) \<Longrightarrow> \<exists>p. map_of (persons t) (pr, i) = Some p"
    and "map_of (distinct_ids t) (pr, d) = Some (i, s) \<Longrightarrow> s \<le> identity_seq t"
    and "map_of (distinct_ids t) (pr, d) = Some (i, s) \<Longrightarrow> s = 0 \<longleftrightarrow> i = d"
    and "map_of (groups t) k = Some (enc, c) \<Longrightarrow> decodable ex enc"
  using assms unfolding tables_inv_def by blast+

lemma decodableE:
  assumes "decodable ex enc"
  obtains m where "decode_properties ex enc = Inr m"
  using assms unfolding decodable_def by blast

section \<open>Rows\<close>

lemma update_person_simps [simp]:
  "distinct_ids (update_person k f t) = distinct_ids t"
  "identity_seq (update_person k f t) = identity_seq t"
  "identity_epoch (update_person k f t) = identity_epoch t"
  "groups (update_person k f t) = groups t"
  "pending (update_person k f t) = pending t"
  "map_of (persons (update_person k f t)) = (map_of (persons t))(k := map_option f (map_of (persons t) k))"
  "distinct (map fst (persons (update_person k f t))) \<longleftrightarrow> distinct (map fst (persons t))"
  by (auto simp: update_person_def alist_simps split: option.splits)

lemma update_person_inv:
  assumes inv: "tables_inv ex t"
    and f: "\<And>p. map_of (persons t) (pr, i) = Some p \<Longrightarrow> decodable ex (p_properties (f p))"
  shows "tables_inv ex (update_person (pr, i) f t)"
proof -
  let ?t = "update_person (pr, i) f t"
  have "map_of (distinct_ids ?t) (q, j) = Some (j, 0) \<and> decodable ex (p_properties p)"
    if "map_of (persons ?t) (q, j) = Some p" for q j p
    using that f tables_invD(1,2) [OF inv] by (auto split: if_splits)
  moreover have "map_of (persons ?t) (q, j) \<noteq> None" if "map_of (persons t) (q, j) \<noteq> None" for q j
    using that by auto
  ultimately show ?thesis
    using inv unfolding tables_inv_def by (simp only: update_person_simps) blast
qed

lemma mark_identified_simps [simp]:
  "distinct_ids (mark_identified pr d t) = distinct_ids t"
  "identity_seq (mark_identified pr d t) = identity_seq t"
  "identity_epoch (mark_identified pr d t) = identity_epoch t"
  "groups (mark_identified pr d t) = groups t"
  by (auto simp: mark_identified_def split: option.splits)

lemma mark_identified_inv: "tables_inv ex t \<Longrightarrow> tables_inv ex (mark_identified pr d t)"
  unfolding mark_identified_def
  by (auto split: option.splits intro!: update_person_inv dest: tables_invD(2))

lemma touch_person_simps [simp]:
  "distinct_ids (touch_person ex pr i ev t) = distinct_ids t"
  "identity_seq (touch_person ex pr i ev t) = identity_seq t"
  "identity_epoch (touch_person ex pr i ev t) = identity_epoch t"
  by (simp_all add: touch_person_def Let_def)

lemma touch_person_inv: "tables_inv ex t \<Longrightarrow> tables_inv ex (touch_person ex pr i ev t)"
  unfolding touch_person_def Let_def
  by (intro update_person_inv) (auto split: option.splits dest: tables_invD(2))

section \<open>A person for every distinct id\<close>

text \<open>What a step may do to the distinct ids of a table: add one that owns itself.\<close>

definition ids_added :: "tables \<Rightarrow> tables \<Rightarrow> (string \<times> string) set \<Rightarrow> bool" where
  "ids_added t t' new \<longleftrightarrow> identity_seq t' = identity_seq t \<and> identity_epoch t' = identity_epoch t
     \<and> (\<forall>k. map_of (distinct_ids t') k =
          (case map_of (distinct_ids t) k of
             None \<Rightarrow> if k \<in> new then Some (snd k, 0) else None
           | Some row \<Rightarrow> Some row))"

lemma ids_added_refl: "new \<subseteq> dom (map_of (distinct_ids t)) \<Longrightarrow> ids_added t t new"
  by (auto simp: ids_added_def split: option.splits)

lemma ids_added_trans: "ids_added t t1 a \<Longrightarrow> ids_added t1 t2 b \<Longrightarrow> ids_added t t2 (a \<union> b)"
  by (auto simp: ids_added_def split: option.splits)

lemma ids_added_dom: "ids_added t t' new \<Longrightarrow> new \<subseteq> dom (map_of (distinct_ids t'))"
proof
  fix k
  assume "ids_added t t' new" and "k \<in> new"
  then show "k \<in> dom (map_of (distinct_ids t'))"
    by (cases k; cases "map_of (distinct_ids t) k") (simp_all add: ids_added_def domIff)
qed

lemma ensure_person_ok:
  assumes inv: "tables_inv ex t" and js: "json_ok ex"
  obtains pid t' s where "ensure_person ex pr d ev t = Inr (pid, t')" "tables_inv ex t'"
    "map_of (distinct_ids t') (pr, d) = Some (pid, s)" "ids_added t t' {(pr, d)}"
    "groups t' = groups t"
    "map_of (persons t) \<subseteq>\<^sub>m map_of (persons t')"
    "\<forall>k p. map_of (persons t') k = Some p \<longrightarrow> map_of (persons t) k = None \<longrightarrow> \<not> p_identified p
       \<and> p_properties p = ''{}''"
proof (cases "map_of (distinct_ids t) (pr, d)")
  case (Some row)
  obtain pid s where row: "row = (pid, s)" by (cases row)
  then have "ensure_person ex pr d ev t = Inr (pid, t)" using Some by (simp add: ensure_person_def)
  then show thesis using that [of pid t s] inv Some row ids_added_refl [of "{(pr, d)}" t] by auto
next
  case None
  then have np: "map_of (persons t) (pr, d) = None" using tables_invD(1) [OF inv] by fastforce
  obtain p where p: "p = \<lparr>p_created_at = rfc3339 ex (timestamp ev), p_identified = False,
      p_properties = ''{}'', p_first_seen_key = d, p_last_seen = None\<rparr>" by simp
  obtain t' where t': "t' = t\<lparr>persons := AList.update (pr, d) p (persons t),
      distinct_ids := AList.update (pr, d) (d, 0) (distinct_ids t)\<rparr>" by simp
  have step: "ensure_person ex pr d ev t = Inr (d, t')"
    using None np p t' by (simp add: ensure_person_def)
  have "decodable ex ''{}''" using js by (simp add: decodable_def decode_properties_def json_ok_def)
  then have "tables_inv ex t'"
    using inv np None t' p unfolding tables_inv_def
    by (auto simp: alist_simps split: if_splits)
  then show thesis using step None np t' p
    by (intro that [of d t' 0]) (auto simp: alist_simps ids_added_def map_le_def split: if_splits option.splits)
qed

lemma decode_distinct: "json_ok ex \<Longrightarrow> decode_properties ex enc = Inr m \<Longrightarrow> distinct (map fst m)"
  by (auto simp: json_ok_def decode_properties_def split: option.splits json.splits)

section \<open>Merging objects\<close>

lemma map_of_extend:
  assumes "distinct (map fst kvs)"
  shows "map_of (extend m kvs) = map_of m ++ map_of kvs"
  using assms
proof (induction kvs arbitrary: m)
  case Nil
  then show ?case by (simp add: extend_def)
next
  case (Cons kv kvs)
  obtain k v where kv: "kv = (k, v)" by (cases kv)
  have k: "k \<notin> dom (map_of kvs)" using Cons.prems kv by (auto simp: dom_map_of_conv_image_fst)
  have "map_of (extend m (kv # kvs)) = map_of (AList.update k v m) ++ map_of kvs"
    using Cons.IH [of "AList.update k v m"] Cons.prems kv by (simp add: extend_def)
  also have "\<dots> = map_of m ++ map_of (kv # kvs)"
    using k kv by (auto simp: alist_simps fun_eq_iff map_add_def domIff split: option.splits)
  finally show ?case .
qed

lemma map_of_set_once:
  assumes "distinct (map fst kvs)"
  shows "map_of (set_once_all m kvs) = map_of kvs ++ map_of m"
  using assms
proof (induction kvs arbitrary: m)
  case Nil
  then show ?case by (simp add: set_once_all_def)
next
  case (Cons kv kvs)
  obtain k v where kv: "kv = (k, v)" by (cases kv)
  let ?m = "if map_of m k = None then AList.update k v m else m"
  have k: "k \<notin> dom (map_of kvs)" using Cons.prems kv by (auto simp: dom_map_of_conv_image_fst)
  have "map_of (set_once_all m (kv # kvs)) = map_of kvs ++ map_of ?m"
    using Cons.IH [of ?m] Cons.prems kv by (simp add: set_once_all_def)
  also have "\<dots> = map_of (kv # kvs) ++ map_of m"
    using k kv by (auto simp: alist_simps fun_eq_iff map_add_def domIff split: option.splits)
  finally show ?case .
qed

lemma map_of_unset: "map_of (unset_all m ks) k = (if String k \<in> set ks then None else map_of m k)"
proof (induction ks arbitrary: m)
  case Nil
  then show ?case by (simp add: unset_all_def)
next
  case (Cons j ks)
  have "unset_all m (j # ks) = unset_all (case as_str j of None \<Rightarrow> m | Some s \<Rightarrow> AList.delete s m) ks"
    by (simp add: unset_all_def)
  then show ?case using Cons.IH by (cases j) (auto simp: alist_simps)
qed

section \<open>Merging persons\<close>

definition repointed :: "tables \<Rightarrow> tables \<Rightarrow> string \<Rightarrow> string \<Rightarrow> string \<Rightarrow> bool" where
  "repointed t t' pr loser winner \<longleftrightarrow>
     identity_seq t' = Suc (identity_seq t) \<and> identity_epoch t' = identity_epoch t
     \<and> (\<forall>k. map_of (distinct_ids t') k =
          map_option (\<lambda>(i, s). if fst k = pr \<and> i = loser then (winner, Suc (identity_seq t)) else (i, s))
            (map_of (distinct_ids t) k))"

lemma map_of_repoint:
  "map_of (map (\<lambda>((pr, d), pid, q). if pr = proj \<and> pid = loser then ((pr, d), winner, s)
      else ((pr, d), pid, q)) xs) k
    = map_option (\<lambda>(i, q). if fst k = proj \<and> i = loser then (winner, s) else (i, q)) (map_of xs k)"
  by (induction xs) auto

lemma fst_repoint:
  "map fst (map (\<lambda>((pr, d), pid, q). if pr = proj \<and> pid = loser then ((pr, d), winner, s)
      else ((pr, d), pid, q)) xs) = map fst xs"
  by (induction xs) auto

lemma merge_rows_ok:
  assumes inv: "tables_inv ex t" and js: "json_ok ex"
    and w: "map_of (persons t) (pr, winner) = Some pw" and l: "map_of (persons t) (pr, loser) = Some pl"
    and ne: "winner \<noteq> loser"
  obtains t' pw' mw ml m where "merge_rows ex pr winner loser t = Inr t'" "tables_inv ex t'"
    "repointed t t' pr loser winner"
    "map_of (persons t') = (map_of (persons t))((pr, winner) := Some pw', (pr, loser) := None)"
    "p_identified pw'" "decode_properties ex (p_properties pw) = Inr mw"
    "decode_properties ex (p_properties pl) = Inr ml" "decode_properties ex (p_properties pw') = Inr m"
    "map_of m = map_of ml ++ map_of mw" "groups t' = groups t"
    "p_last_seen pw' = sql_max (p_last_seen pw) (p_last_seen pl)"
    "(p_created_at pw', p_first_seen_key pw') =
      (if str_less (p_created_at pl) (p_created_at pw) then (p_created_at pl, p_first_seen_key pl)
       else (p_created_at pw, p_first_seen_key pw))"
proof -
  obtain mw where mw: "decode_properties ex (p_properties pw) = Inr mw"
    using tables_invD(2) [OF inv w] by (rule decodableE)
  obtain ml where ml: "decode_properties ex (p_properties pl) = Inr ml"
    using tables_invD(2) [OF inv l] by (rule decodableE)
  obtain m where m: "decode_properties ex (to_string ex (Object (extend ml mw))) = Inr m"
    "map_of m = map_of (extend ml mw)"
    using decode_to_string [OF js] by metis
  have mm: "map_of m = map_of ml ++ map_of mw"
    using m(2) map_of_extend [OF decode_distinct [OF js mw]] by simp
  obtain created first where cf: "(created, first) =
      (if str_less (p_created_at pl) (p_created_at pw) then (p_created_at pl, p_first_seen_key pl)
       else (p_created_at pw, p_first_seen_key pw))" by (metis prod.collapse)
  obtain pw' where pw': "pw' = pw\<lparr>p_last_seen := sql_max (p_last_seen pw) (p_last_seen pl),
      p_properties := to_string ex (Object (extend ml mw)), p_created_at := created,
      p_first_seen_key := first, p_identified := True\<rparr>" by simp
  obtain t' where t': "merge_rows ex pr winner loser t = Inr t'"
    "distinct_ids t' = map (\<lambda>((q, d), pid, s). if q = pr \<and> pid = loser
        then ((q, d), winner, Suc (identity_seq t)) else ((q, d), pid, s)) (distinct_ids t)"
    "identity_seq t' = Suc (identity_seq t)" "identity_epoch t' = identity_epoch t"
    "groups t' = groups t" "distinct (map fst (persons t')) = distinct (map fst (persons t'))"
    "map_of (persons t') = (map_of (persons t))((pr, winner) := Some pw', (pr, loser) := None)"
    "distinct (map fst (persons t'))"
    using w l mw ml cf pw' inv
    by (simp add: merge_rows_def next_identity_seq_def Let_def alist_simps tables_inv_def
        case_prod_unfold prod_eq_iff)
  have rp: "repointed t t' pr loser winner"
    unfolding repointed_def t'(2,3,4) map_of_repoint by simp
  have rows: "map_of (distinct_ids t') k = map_option (\<lambda>(i, s). if fst k = pr \<and> i = loser
      then (winner, Suc (identity_seq t)) else (i, s)) (map_of (distinct_ids t) k)" for k
    using rp unfolding repointed_def by blast
  have "tables_inv ex t'"
    unfolding tables_inv_def
  proof (intro conjI allI impI)
    show "distinct (map fst (persons t'))" by (rule t'(8))
    show "distinct (map fst (distinct_ids t'))"
      unfolding t'(2) fst_repoint using inv by (simp add: tables_inv_def)
    fix q i p
    assume p: "map_of (persons t') (q, i) = Some p"
    then have ne': "(q, i) \<noteq> (pr, loser)" and old: "\<exists>p0. map_of (persons t) (q, i) = Some p0"
      using t'(7) w by (auto split: if_splits)
    then show "map_of (distinct_ids t') (q, i) = Some (i, 0)"
    proof -
      obtain p0 where "map_of (persons t) (q, i) = Some p0" using old by blast
      then have r0: "map_of (distinct_ids t) (q, i) = Some (i, 0)" by (rule tables_invD(1) [OF inv])
      show ?thesis unfolding rows r0 using ne' by simp
    qed
    show "decodable ex (p_properties p)"
    proof (cases "(q, i) = (pr, winner)")
      case True
      then have "p = pw'" using p t'(7) ne by simp
      then show ?thesis using pw' js by simp
    next
      case False
      then have "map_of (persons t) (q, i) = Some p" using p t'(7) ne' by (auto split: if_splits)
      then show ?thesis by (rule tables_invD(2) [OF inv])
    qed
  next
    fix q d i s
    assume r: "map_of (distinct_ids t') (q, d) = Some (i, s)"
    obtain i0 s0 where r0: "map_of (distinct_ids t) (q, d) = Some (i0, s0)"
      and i: "(i, s) = (if q = pr \<and> i0 = loser then (winner, Suc (identity_seq t)) else (i0, s0))"
      using r unfolding rows by (cases "map_of (distinct_ids t) (q, d)") auto
    note old = tables_invD(3-5) [OF inv r0]
    show "map_of (persons t') (q, i) \<noteq> None"
      using old(1) i t'(7) ne by (auto split: if_splits)
    show "s \<le> identity_seq t'" using old(2) i t'(3) by (auto split: if_splits)
    have "winner \<noteq> d" if "q = pr" "i0 = loser"
      using tables_invD(1) [OF inv w] r0 that ne by auto
    then show "s = 0 \<longleftrightarrow> i = d" using old(3) i by (auto split: if_splits)
  next
    fix k enc c
    assume "map_of (groups t') k = Some (enc, c)"
    then show "decodable ex enc" using t'(5) tables_invD(6) [OF inv] by simp
  qed
  moreover have "(p_created_at pw', p_first_seen_key pw') =
      (if str_less (p_created_at pl) (p_created_at pw) then (p_created_at pl, p_first_seen_key pl)
       else (p_created_at pw, p_first_seen_key pw))"
    using pw' cf by simp
  ultimately show thesis
    by (intro that [of t' pw' mw ml m]) (use t' rp mw ml m mm pw' in simp_all)
qed

section \<open>The override feed\<close>

text \<open>
  A step of the feed changes a row only by giving it a sequence number above all earlier ones,
  except that a new id that owns itself appears with number 0; rows never disappear.
\<close>

definition feed_step :: "tables \<Rightarrow> tables \<Rightarrow> bool" where
  "feed_step t t' \<longleftrightarrow>
     identity_epoch t' = identity_epoch t \<and> identity_seq t \<le> identity_seq t'
     \<and> (\<forall>k. (map_of (distinct_ids t) k \<noteq> None \<longrightarrow> map_of (distinct_ids t') k \<noteq> None)
          \<and> (map_of (distinct_ids t') k = map_of (distinct_ids t) k
             \<or> map_of (distinct_ids t) k = None \<and> map_of (distinct_ids t') k = Some (snd k, 0)
             \<or> (\<exists>i s. map_of (distinct_ids t') k = Some (i, s) \<and> identity_seq t < s)))"

lemma feed_step_refl: "feed_step t t"
  by (simp add: feed_step_def)

lemma row_trans:
  fixes r0 r1 r2 :: "('a \<times> nat) option"
  assumes "r1 = r0 \<or> r0 = None \<and> r1 = Some (x, 0) \<or> (\<exists>i s. r1 = Some (i, s) \<and> n0 < s)"
    and "r2 = r1 \<or> r1 = None \<and> r2 = Some (x, 0) \<or> (\<exists>i s. r2 = Some (i, s) \<and> n1 < s)"
    and "r0 \<noteq> None \<longrightarrow> r1 \<noteq> None" and "n0 \<le> n1"
  shows "r2 = r0 \<or> r0 = None \<and> r2 = Some (x, 0) \<or> (\<exists>i s. r2 = Some (i, s) \<and> n0 < s)"
  using assms by (elim disjE exE conjE) auto

lemma feed_step_trans:
  assumes "feed_step t t1" and "feed_step t1 t2"
  shows "feed_step t t2"
  unfolding feed_step_def
proof (intro conjI allI impI)
  show "identity_epoch t2 = identity_epoch t" "identity_seq t \<le> identity_seq t2"
    using assms by (auto simp: feed_step_def)
  fix k
  have a: "map_of (distinct_ids t) k \<noteq> None \<longrightarrow> map_of (distinct_ids t1) k \<noteq> None"
    "map_of (distinct_ids t1) k = map_of (distinct_ids t) k
      \<or> map_of (distinct_ids t) k = None \<and> map_of (distinct_ids t1) k = Some (snd k, 0)
      \<or> (\<exists>i s. map_of (distinct_ids t1) k = Some (i, s) \<and> identity_seq t < s)"
    using assms(1) unfolding feed_step_def by blast+
  have b: "map_of (distinct_ids t1) k \<noteq> None \<longrightarrow> map_of (distinct_ids t2) k \<noteq> None"
    "map_of (distinct_ids t2) k = map_of (distinct_ids t1) k
      \<or> map_of (distinct_ids t1) k = None \<and> map_of (distinct_ids t2) k = Some (snd k, 0)
      \<or> (\<exists>i s. map_of (distinct_ids t2) k = Some (i, s) \<and> identity_seq t1 < s)"
    using assms(2) unfolding feed_step_def by blast+
  have le: "identity_seq t \<le> identity_seq t1" using assms(1) by (simp add: feed_step_def)
  show "map_of (distinct_ids t2) k \<noteq> None" if "map_of (distinct_ids t) k \<noteq> None"
    using a(1) b(1) that by blast
  show "map_of (distinct_ids t2) k = map_of (distinct_ids t) k
      \<or> map_of (distinct_ids t) k = None \<and> map_of (distinct_ids t2) k = Some (snd k, 0)
      \<or> (\<exists>i s. map_of (distinct_ids t2) k = Some (i, s) \<and> identity_seq t < s)"
    by (rule row_trans [OF a(2) b(2) a(1) le])
qed

lemma ids_added_feed: "ids_added t t' new \<Longrightarrow> feed_step t t'"
  unfolding feed_step_def
proof (intro conjI allI)
  assume a: "ids_added t t' new"
  show "identity_epoch t' = identity_epoch t" "identity_seq t \<le> identity_seq t'"
    using a by (simp_all add: ids_added_def)
  fix k
  have "map_of (distinct_ids t') k = (case map_of (distinct_ids t) k of
      None \<Rightarrow> if k \<in> new then Some (snd k, 0) else None | Some row \<Rightarrow> Some row)"
    using a unfolding ids_added_def by blast
  then show "map_of (distinct_ids t) k \<noteq> None \<longrightarrow> map_of (distinct_ids t') k \<noteq> None"
    and "map_of (distinct_ids t') k = map_of (distinct_ids t) k
      \<or> map_of (distinct_ids t) k = None \<and> map_of (distinct_ids t') k = Some (snd k, 0)
      \<or> (\<exists>i s. map_of (distinct_ids t') k = Some (i, s) \<and> identity_seq t < s)"
    by (auto split: option.splits if_splits)
qed

lemma repointed_feed: "repointed t t' pr loser winner \<Longrightarrow> feed_step t t'"
  unfolding feed_step_def
proof (intro conjI allI)
  assume r: "repointed t t' pr loser winner"
  show "identity_epoch t' = identity_epoch t" "identity_seq t \<le> identity_seq t'"
    using r by (simp_all add: repointed_def)
  fix k
  have "map_of (distinct_ids t') k = map_option
      (\<lambda>(i, s). if fst k = pr \<and> i = loser then (winner, Suc (identity_seq t)) else (i, s))
      (map_of (distinct_ids t) k)"
    using r unfolding repointed_def by blast
  then show "map_of (distinct_ids t) k \<noteq> None \<longrightarrow> map_of (distinct_ids t') k \<noteq> None"
    and "map_of (distinct_ids t') k = map_of (distinct_ids t) k
      \<or> map_of (distinct_ids t) k = None \<and> map_of (distinct_ids t') k = Some (snd k, 0)
      \<or> (\<exists>i s. map_of (distinct_ids t') k = Some (i, s) \<and> identity_seq t < s)"
    by (cases "map_of (distinct_ids t) k"; auto split: if_splits)+
qed

lemma same_ids_feed:
  "distinct_ids t' = distinct_ids t \<Longrightarrow> identity_seq t' = identity_seq t \<Longrightarrow>
    identity_epoch t' = identity_epoch t \<Longrightarrow> feed_step t t'"
  by (simp add: feed_step_def)

section \<open>Every event is applied\<close>

definition identified :: "tables \<Rightarrow> string \<Rightarrow> string \<Rightarrow> bool" where
  "identified t pr i = (case map_of (persons t) (pr, i) of None \<Rightarrow> False | Some p \<Rightarrow> p_identified p)"

text \<open>Which person a merge removes and which one it keeps.\<close>

definition merge_choice ::
  "tables \<Rightarrow> string \<Rightarrow> merge_guard \<Rightarrow> string \<Rightarrow> string \<Rightarrow> (string \<times> string) option" where
  "merge_choice t pr guard loser winner =
     (if loser = winner then None
      else case guard of
        Always \<Rightarrow> Some (loser, winner)
      | RefuseIdentifiedSource \<Rightarrow> if identified t pr loser then None else Some (loser, winner)
      | RefuseBothIdentified \<Rightarrow>
          if \<not> identified t pr loser then Some (loser, winner)
          else if identified t pr winner then None else Some (winner, loser))"

lemma identified_new:
  assumes "map_of (persons t) \<subseteq>\<^sub>m map_of (persons t')"
    and "\<forall>k p. map_of (persons t') k = Some p \<longrightarrow> map_of (persons t) k = None \<longrightarrow> \<not> p_identified p
       \<and> p_properties p = ''{}''"
  shows "identified t' pr i = identified t pr i"
proof (cases "map_of (persons t) (pr, i)")
  case (Some p)
  then have "map_of (persons t') (pr, i) = Some p" using assms(1) by (metis map_le_def domI)
  then show ?thesis using Some by (simp add: identified_def)
next
  case None
  then show ?thesis using assms(2) by (cases "map_of (persons t') (pr, i)") (auto simp: identified_def)
qed

lemma merge_persons_ok:
  assumes inv: "tables_inv ex t" and js: "json_ok ex"
  obtains t2 w l sw sl t' where "merge_persons ex pr losing winning ev guard t = Inr t'"
    "tables_inv ex t2" "ids_added t t2 {(pr, winning), (pr, losing)}"
    "map_of (distinct_ids t2) (pr, winning) = Some (w, sw)"
    "map_of (distinct_ids t2) (pr, losing) = Some (l, sl)"
    "\<forall>i. identified t2 pr i = identified t pr i"
    "case merge_choice t2 pr guard l w of None \<Rightarrow> t' = t2
       | Some (loser, winner) \<Rightarrow> repointed t2 t' pr loser winner"
    "tables_inv ex t'" "feed_step t t'"
proof -
  obtain w t1 sw where e1: "ensure_person ex pr winning ev t = Inr (w, t1)" "tables_inv ex t1"
    "map_of (distinct_ids t1) (pr, winning) = Some (w, sw)" "ids_added t t1 {(pr, winning)}"
    "map_of (persons t) \<subseteq>\<^sub>m map_of (persons t1)"
    "\<forall>k p. map_of (persons t1) k = Some p \<longrightarrow> map_of (persons t) k = None \<longrightarrow> \<not> p_identified p
       \<and> p_properties p = ''{}''"
    using ensure_person_ok [OF inv js, of pr winning ev] by metis
  obtain l t2 sl where e2: "ensure_person ex pr losing ev t1 = Inr (l, t2)" "tables_inv ex t2"
    "map_of (distinct_ids t2) (pr, losing) = Some (l, sl)" "ids_added t1 t2 {(pr, losing)}"
    "map_of (persons t1) \<subseteq>\<^sub>m map_of (persons t2)"
    "\<forall>k p. map_of (persons t2) k = Some p \<longrightarrow> map_of (persons t1) k = None \<longrightarrow> \<not> p_identified p
       \<and> p_properties p = ''{}''"
    using ensure_person_ok [OF e1(2) js, of pr losing ev] by metis
  have added: "ids_added t t2 {(pr, winning), (pr, losing)}"
    using ids_added_trans [OF e1(4) e2(4)] by (simp add: insert_commute)
  have w2: "map_of (distinct_ids t2) (pr, winning) = Some (w, sw)"
    using e2(4) e1(3) unfolding ids_added_def by (metis option.simps(5))
  have same: "\<forall>i. identified t2 pr i = identified t pr i"
    using identified_new [OF e1(5,6)] identified_new [OF e2(5,6)] by simp
  obtain pw where pw: "map_of (persons t2) (pr, w) = Some pw" using tables_invD(3) [OF e2(2) w2] by blast
  obtain pl where pl: "map_of (persons t2) (pr, l) = Some pl" using tables_invD(3) [OF e2(2) e2(3)] by blast
  have step: "merge_persons ex pr losing winning ev guard t =
      (case merge_choice t2 pr guard l w of None \<Rightarrow> Inr t2
       | Some (loser, winner) \<Rightarrow> merge_rows ex pr winner loser t2)"
    using e1(1) e2(1) pw pl
    by (cases guard) (simp_all add: merge_persons_def merge_choice_def identified_def)
  show thesis
  proof (cases "merge_choice t2 pr guard l w")
    case None
    then show ?thesis
      using that [of t2 t2 w sw l sl] step e2(2,3) w2 added same ids_added_feed [OF added] by simp
  next
    case (Some lw)
    obtain loser winner where lw: "lw = (loser, winner)" by (cases lw)
    have c: "loser \<noteq> winner" "{loser, winner} = {l, w}"
      using Some lw by (auto simp: merge_choice_def split: if_splits merge_guard.splits)
    obtain qw ql where q: "map_of (persons t2) (pr, winner) = Some qw" "map_of (persons t2) (pr, loser) = Some ql"
      using c(2) pw pl by (auto simp: doubleton_eq_iff)
    obtain t' where t': "merge_rows ex pr winner loser t2 = Inr t'" "tables_inv ex t'"
      "repointed t2 t' pr loser winner"
      using merge_rows_ok [OF e2(2) js q] c(1) by metis
    show ?thesis
      using that [of t' t2 w sw l sl] step Some lw t' e2(2,3) w2 added same
        feed_step_trans [OF ids_added_feed [OF added] repointed_feed [OF t'(3)]] by simp
  qed
qed

lemma merge_if_ok:
  assumes "tables_inv ex t" and "json_ok ex"
  obtains t' where "merge_if ex pr ev key guard t = Inr t'" "tables_inv ex t'" "feed_step t t'"
proof (cases "other_id ev key")
  case None
  then show thesis using that [of t] assms(1) feed_step_refl by (simp add: merge_if_def)
next
  case (Some other)
  obtain t' where "merge_persons ex pr other (distinct_id ev) ev guard t = Inr t'"
    "tables_inv ex t'" "feed_step t t'"
    using merge_persons_ok [OF assms] by metis
  then show thesis using that Some by (simp add: merge_if_def)
qed

lemma apply_group_ok:
  assumes inv: "tables_inv ex t" and js: "json_ok ex"
  obtains t' where "apply_group ex pr ev t = Inr t'" "tables_inv ex t'" "feed_step t t'"
    "distinct_ids t' = distinct_ids t" "persons t' = persons t"
proof (cases "\<exists>ty k. get_str (properties ev) ''$group_type'' = Some ty
    \<and> (case map_of (properties ev) ''$group_key'' of Some (String s) \<Rightarrow> Some s
       | Some (Number n) \<Rightarrow> Some (number_text ex n) | _ \<Rightarrow> None) = Some k")
  case False
  then have "apply_group ex pr ev t = Inr t"
    by (auto simp: apply_group_def split: option.splits json.splits)
  then show thesis using that [of t] inv feed_step_refl by simp
next
  case True
  then obtain ty k where k: "get_str (properties ev) ''$group_type'' = Some ty"
    "(case map_of (properties ev) ''$group_key'' of Some (String s) \<Rightarrow> Some s
       | Some (Number n) \<Rightarrow> Some (number_text ex n) | _ \<Rightarrow> None) = Some k" by blast
  let ?old = "map_of (groups t) (pr, ty, k)"
  obtain m where m: "(case ?old of None \<Rightarrow> Inr [] | Some (enc, _) \<Rightarrow> decode_properties ex enc) = Inr m"
  proof (cases ?old)
    case (Some row)
    obtain enc c where row: "row = (enc, c)" by (cases row)
    have "decodable ex enc" using tables_invD(6) [OF inv] Some row by simp
    then obtain m where "decode_properties ex enc = Inr m" by (rule decodableE)
    then show thesis using that Some row by simp
  qed simp
  obtain m' c where t': "apply_group ex pr ev t = Inr (t\<lparr>groups := AList.update (pr, ty, k)
      (to_string ex (Object m'), c) (groups t)\<rparr>)"
    using k m by (simp add: apply_group_def Let_def)
  let ?t = "t\<lparr>groups := AList.update (pr, ty, k) (to_string ex (Object m'), c) (groups t)\<rparr>"
  have "tables_inv ex ?t"
    using inv decodable_to_string [OF js, of m'] unfolding tables_inv_def
    by (auto simp: alist_simps split: if_splits)
  then show thesis using that [OF t'] same_ids_feed [of ?t t] by simp
qed

lemma apply_event_kind_ok:
  assumes inv: "tables_inv ex t" and js: "json_ok ex"
  obtains t' where "apply_event_kind ex pr ev t = Inr t'" "tables_inv ex t'" "feed_step t t'"
proof -
  have marked: "tables_inv ex (mark_identified pr d t1)" "feed_step t (mark_identified pr d t1)"
    if "tables_inv ex t1" "feed_step t t1" for d t1
    using that mark_identified_inv feed_step_trans [OF that(2) same_ids_feed] by simp_all
  consider "event ev = ''$identify''" | "event ev = ''$create_alias''" | "event ev = ''$merge_dangerously''"
    | "event ev = ''$groupidentify''"
    | "event ev \<noteq> ''$identify''" "event ev \<noteq> ''$create_alias''" "event ev \<noteq> ''$merge_dangerously''"
      "event ev \<noteq> ''$groupidentify''" by blast
  then show thesis
  proof cases
    case 1
    obtain t1 where "merge_if ex pr ev ''$anon_distinct_id'' RefuseIdentifiedSource t = Inr t1"
      "tables_inv ex t1" "feed_step t t1" using inv js by (rule merge_if_ok)
    then show ?thesis using 1 that [of "mark_identified pr (distinct_id ev) t1"] marked
      by (simp add: apply_event_kind_def)
  next
    case 2
    obtain t1 where "merge_if ex pr ev ''alias'' RefuseBothIdentified t = Inr t1"
      "tables_inv ex t1" "feed_step t t1" using inv js by (rule merge_if_ok)
    then show ?thesis using 2 that [of "mark_identified pr (distinct_id ev) t1"] marked
      by (simp add: apply_event_kind_def)
  next
    case 3
    obtain t1 where "merge_if ex pr ev ''alias'' Always t = Inr t1"
      "tables_inv ex t1" "feed_step t t1" using inv js by (rule merge_if_ok)
    then show ?thesis using 3 that by (simp add: apply_event_kind_def)
  next
    case 4
    obtain t1 where "apply_group ex pr ev t = Inr t1" "tables_inv ex t1" "feed_step t t1"
      using inv js by (rule apply_group_ok)
    then show ?thesis using 4 that by (simp add: apply_event_kind_def)
  next
    case 5
    then show ?thesis using that [of t] inv feed_step_refl by (simp add: apply_event_kind_def)
  qed
qed

text \<open>The properties of a person after \<open>$set_once\<close>, \<open>$set\<close> and \<open>$unset\<close>, as a map.\<close>

definition event_object :: "captured_event \<Rightarrow> string \<Rightarrow> object" where
  "event_object ev key =
     (case Option.bind (map_of (properties ev) key) as_object of None \<Rightarrow> [] | Some m \<Rightarrow> m)"

definition event_unset :: "captured_event \<Rightarrow> json list" where
  "event_unset ev =
     (case Option.bind (map_of (properties ev) ''$unset'') as_array of None \<Rightarrow> [] | Some ks \<Rightarrow> ks)"

definition updated_properties ::
  "captured_event \<Rightarrow> (string \<Rightarrow> json option) \<Rightarrow> string \<Rightarrow> json option" where
  "updated_properties ev old k =
     (if String k \<in> set (event_unset ev) then None
      else (map_of (event_object ev ''$set_once'') ++ old ++ map_of (event_object ev ''$set'')) k)"

definition objects_distinct :: "captured_event \<Rightarrow> bool" where
  "objects_distinct ev \<longleftrightarrow> distinct (map fst (event_object ev ''$set_once''))
     \<and> distinct (map fst (event_object ev ''$set''))"

definition props_of :: "externals \<Rightarrow> tables \<Rightarrow> string \<Rightarrow> string \<Rightarrow> (string \<Rightarrow> json option) option" where
  "props_of ex t pr i =
     (case map_of (persons t) (pr, i) of None \<Rightarrow> None
      | Some p \<Rightarrow> (case decode_properties ex (p_properties p) of Inl _ \<Rightarrow> None | Inr m \<Rightarrow> Some (map_of m)))"

lemma apply_person_properties_ok:
  assumes inv: "tables_inv ex t" and js: "json_ok ex"
    and row: "map_of (distinct_ids t) (pr, d) = Some (i, s)"
  obtains t' where "apply_person_properties ex pr d ev t = Inr t'" "tables_inv ex t'"
    "feed_step t t'" "distinct_ids t' = distinct_ids t"
    "objects_distinct ev \<longrightarrow> props_of ex t' pr i = map_option (updated_properties ev) (props_of ex t pr i)"
    "\<forall>q j. (q, j) \<noteq> (pr, i) \<longrightarrow> map_of (persons t') (q, j) = map_of (persons t) (q, j)"
proof -
  obtain p where p: "map_of (persons t) (pr, i) = Some p" using tables_invD(3) [OF inv row] by blast
  obtain m where m: "decode_properties ex (p_properties p) = Inr m"
    using tables_invD(2) [OF inv p] by (rule decodableE)
  have old: "props_of ex t pr i = Some (map_of m)" using p m by (simp add: props_of_def)
  let ?so = "Option.bind (map_of (properties ev) ''$set_once'') as_object"
  let ?s = "Option.bind (map_of (properties ev) ''$set'') as_object"
  let ?u = "Option.bind (map_of (properties ev) ''$unset'') as_array"
  show thesis
  proof (cases "?so = None \<and> ?s = None \<and> ?u = None")
    case True
    have "apply_person_properties ex pr d ev t = Inr t"
      using True by (simp add: apply_person_properties_def Let_def)
    moreover have "updated_properties ev = (\<lambda>old. old)"
      using True by (auto simp: updated_properties_def event_object_def event_unset_def fun_eq_iff)
    ultimately show ?thesis using that [of t] inv feed_step_refl by (simp add: option.map_ident)
  next
    case False
    obtain m3 where m3: "m3 = unset_all (extend (set_once_all m (event_object ev ''$set_once''))
        (event_object ev ''$set'')) (event_unset ev)" by simp
    obtain t' where t': "t' = update_person (pr, i) (\<lambda>p. p\<lparr>p_properties := to_string ex (Object m3)\<rparr>) t"
      by simp
    have "set_once_all m [] = m" "extend m' [] = m'" "unset_all m' [] = m'" for m'
      by (simp_all add: set_once_all_def extend_def unset_all_def)
    then have "apply_person_properties ex pr d ev t = Inr t'"
      using False row p m t' m3 unfolding apply_person_properties_def Let_def event_object_def event_unset_def
      by (simp add: ensure_person_def split: option.splits)
    moreover have "tables_inv ex t'"
      unfolding t' by (rule update_person_inv [OF inv]) (use js in simp)
    moreover have "feed_step t t'" unfolding t' by (rule same_ids_feed) simp_all
    moreover have "props_of ex t' pr i = Some (updated_properties ev (map_of m))" if "objects_distinct ev"
    proof -
      obtain m' where m': "decode_properties ex (to_string ex (Object m3)) = Inr m'" "map_of m' = map_of m3"
        using js by (rule decode_to_string)
      have "map_of m3 = updated_properties ev (map_of m)"
        using that unfolding m3 objects_distinct_def
        by (auto simp: map_of_unset map_of_extend map_of_set_once updated_properties_def fun_eq_iff)
      then show ?thesis using t' p m' by (simp add: props_of_def)
    qed
    ultimately show ?thesis using that [of t'] t' old by simp
  qed
qed

lemma apply_identity_ok:
  assumes inv: "tables_inv ex t" and js: "json_ok ex"
  obtains t' where "apply_identity ex pr ev t = Inr t'" "tables_inv ex t'" "feed_step t t'"
    "map_of (distinct_ids t') (pr, distinct_id ev) \<noteq> None"
proof -
  obtain i t1 s where e: "ensure_person ex pr (distinct_id ev) ev t = Inr (i, t1)" "tables_inv ex t1"
    "map_of (distinct_ids t1) (pr, distinct_id ev) = Some (i, s)" "ids_added t t1 {(pr, distinct_id ev)}"
    using ensure_person_ok [OF inv js, of pr "distinct_id ev" ev] by metis
  let ?t1 = "touch_person ex pr i ev t1"
  have inv1: "tables_inv ex ?t1" by (rule touch_person_inv [OF e(2)])
  have f1: "feed_step t ?t1"
    by (rule feed_step_trans [OF ids_added_feed [OF e(4)] same_ids_feed]) simp_all
  obtain t2 where k: "apply_event_kind ex pr ev ?t1 = Inr t2" "tables_inv ex t2" "feed_step ?t1 t2"
    using inv1 js by (rule apply_event_kind_ok)
  have "map_of (distinct_ids t2) (pr, distinct_id ev) \<noteq> None"
    using k(3) e(3) unfolding feed_step_def by simp
  then obtain i2 s2 where row2: "map_of (distinct_ids t2) (pr, distinct_id ev) = Some (i2, s2)" by auto
  obtain t' where p: "apply_person_properties ex pr (distinct_id ev) ev t2 = Inr t'" "tables_inv ex t'"
    "feed_step t2 t'" "distinct_ids t' = distinct_ids t2"
    using apply_person_properties_ok [OF k(2) js row2] by metis
  show thesis
  proof (rule that)
    show "apply_identity ex pr ev t = Inr t'" using e(1) k(1) p(1) by (simp add: apply_identity_def)
    show "feed_step t t'" by (rule feed_step_trans [OF f1 feed_step_trans [OF k(3) p(3)]])
  qed (use p(2,4) row2 in simp_all)
qed

section \<open>Which person a distinct id resolves to\<close>

definition resolve :: "tables \<Rightarrow> string \<Rightarrow> string \<Rightarrow> string" where
  "resolve t pr d = (case map_of (distinct_ids t) (pr, d) of None \<Rightarrow> d | Some (i, _) \<Rightarrow> i)"

lemma resolve_ids_added: "ids_added t t' new \<Longrightarrow> resolve t' pr d = resolve t pr d"
proof -
  assume "ids_added t t' new"
  then have "map_of (distinct_ids t') (pr, d) = (case map_of (distinct_ids t) (pr, d) of
      None \<Rightarrow> if (pr, d) \<in> new then Some (snd (pr, d), 0) else None | Some row \<Rightarrow> Some row)"
    unfolding ids_added_def by blast
  then show ?thesis by (auto simp: resolve_def split: option.splits if_splits)
qed

lemma resolve_same: "distinct_ids t' = distinct_ids t \<Longrightarrow> resolve t' pr d = resolve t pr d"
  by (simp add: resolve_def)

lemma resolve_repointed:
  assumes r: "repointed t t' pr loser winner" and inv: "tables_inv ex t"
    and l: "map_of (distinct_ids t) (pr, y) = Some (loser, s)"
  shows "resolve t' q d = (if q = pr \<and> resolve t pr d = loser then winner else resolve t q d)"
proof -
  have row: "map_of (distinct_ids t') (q, d) = map_option
      (\<lambda>(i, s). if fst (q, d) = pr \<and> i = loser then (winner, Suc (identity_seq t)) else (i, s))
      (map_of (distinct_ids t) (q, d))"
    using r unfolding repointed_def by blast
  obtain p where "map_of (persons t) (pr, loser) = Some p" using tables_invD(3) [OF inv l] by blast
  then have self: "map_of (distinct_ids t) (pr, loser) = Some (loser, 0)" by (rule tables_invD(1) [OF inv])
  show ?thesis
  proof (cases "map_of (distinct_ids t) (q, d)")
    case None
    then have "q \<noteq> pr \<or> d \<noteq> loser" using self by auto
    then show ?thesis using None row by (auto simp: resolve_def)
  next
    case (Some old)
    then show ?thesis using row by (cases old) (auto simp: resolve_def)
  qed
qed

text \<open>A merge event resolves every id of the losing person to the winning one and no other id.\<close>

lemma merge_persons_resolve:
  assumes inv: "tables_inv ex t" and js: "json_ok ex"
    and m: "merge_persons ex pr losing winning ev guard t = Inr t'"
  shows "resolve t' q d =
    (case merge_choice t pr guard (resolve t pr losing) (resolve t pr winning) of
       None \<Rightarrow> resolve t q d
     | Some (loser, winner) \<Rightarrow> if q = pr \<and> resolve t pr d = loser then winner else resolve t q d)"
proof -
  obtain t2 w l sw sl t'' where s: "merge_persons ex pr losing winning ev guard t = Inr t''"
    "tables_inv ex t2" "ids_added t t2 {(pr, winning), (pr, losing)}"
    "map_of (distinct_ids t2) (pr, winning) = Some (w, sw)"
    "map_of (distinct_ids t2) (pr, losing) = Some (l, sl)"
    "\<forall>i. identified t2 pr i = identified t pr i"
    "case merge_choice t2 pr guard l w of None \<Rightarrow> t'' = t2
       | Some (loser, winner) \<Rightarrow> repointed t2 t'' pr loser winner"
    "tables_inv ex t''" "feed_step t t''"
    using inv js by (rule merge_persons_ok)
  have "t'' = t'" using s(1) m by simp
  note s = s(2-7) [unfolded this]
  have same: "resolve t2 q d = resolve t q d" for q d by (rule resolve_ids_added [OF s(2)])
  have lw: "resolve t pr losing = l" "resolve t pr winning = w"
    using same [of pr losing] same [of pr winning] s(3,4) by (simp_all add: resolve_def)
  have choice: "merge_choice t2 pr guard l w = merge_choice t pr guard l w"
    by (simp add: merge_choice_def s(5))
  show ?thesis
  proof (cases "merge_choice t pr guard l w")
    case None
    then show ?thesis using s(6) choice lw same by simp
  next
    case (Some p)
    obtain loser winner where p: "p = (loser, winner)" by (cases p)
    have "loser = l \<or> loser = w" using Some p by (auto simp: merge_choice_def split: if_splits merge_guard.splits)
    then obtain y sy where y: "map_of (distinct_ids t2) (pr, y) = Some (loser, sy)" using s(3,4) by blast
    have "repointed t2 t' pr loser winner" using s(6) choice Some p by simp
    from resolve_repointed [OF this s(1) y, of q d] show ?thesis using Some p lw same by simp
  qed
qed

definition merge_of_event :: "captured_event \<Rightarrow> (string \<times> merge_guard) option" where
  "merge_of_event ev =
     (if event ev = ''$identify'' then Some (''$anon_distinct_id'', RefuseIdentifiedSource)
      else if event ev = ''$create_alias'' then Some (''alias'', RefuseBothIdentified)
      else if event ev = ''$merge_dangerously'' then Some (''alias'', Always)
      else None)"

definition event_choice :: "tables \<Rightarrow> string \<Rightarrow> captured_event \<Rightarrow> (string \<times> string) option" where
  "event_choice t pr ev =
     (case merge_of_event ev of None \<Rightarrow> None
      | Some (key, guard) \<Rightarrow>
          (case other_id ev key of None \<Rightarrow> None
           | Some other \<Rightarrow>
               merge_choice t pr guard (resolve t pr other) (resolve t pr (distinct_id ev))))"

lemma merge_of_event_None:
  assumes "merge_of_event ev = None"
  shows "event ev \<noteq> ''$identify'' \<and> event ev \<noteq> ''$create_alias'' \<and> event ev \<noteq> ''$merge_dangerously''"
proof -
  have "(if a then Some x else if b then Some y else if c then Some z else None) = None \<Longrightarrow> \<not> a \<and> \<not> b \<and> \<not> c"
    for a b c and x y z :: "string \<times> merge_guard" by (auto split: if_splits)
  then show ?thesis using assms unfolding merge_of_event_def by metis
qed

lemma merge_if_resolve:
  assumes inv: "tables_inv ex t" and js: "json_ok ex" and m: "merge_if ex pr ev key guard t = Inr t'"
  shows "resolve t' q d =
    (case (case other_id ev key of None \<Rightarrow> None | Some other \<Rightarrow>
        merge_choice t pr guard (resolve t pr other) (resolve t pr (distinct_id ev))) of
       None \<Rightarrow> resolve t q d
     | Some (loser, winner) \<Rightarrow> if q = pr \<and> resolve t pr d = loser then winner else resolve t q d)"
proof (cases "other_id ev key")
  case None
  then show ?thesis using m by (simp add: merge_if_def)
next
  case (Some other)
  then have "merge_persons ex pr other (distinct_id ev) ev guard t = Inr t'" using m by (simp add: merge_if_def)
  from merge_persons_resolve [OF inv js this] Some show ?thesis by simp
qed

lemma apply_event_kind_resolve:
  assumes inv: "tables_inv ex t" and js: "json_ok ex" and k: "apply_event_kind ex pr ev t = Inr t'"
  shows "resolve t' q d =
    (case event_choice t pr ev of None \<Rightarrow> resolve t q d
     | Some (loser, winner) \<Rightarrow> if q = pr \<and> resolve t pr d = loser then winner else resolve t q d)"
proof (cases "merge_of_event ev")
  case None
  have "distinct_ids t' = distinct_ids t"
  proof (cases "event ev = ''$groupidentify''")
    case True
    obtain t1 where "apply_group ex pr ev t = Inr t1" "distinct_ids t1 = distinct_ids t"
      using apply_group_ok [OF inv js] by metis
    then show ?thesis using True k by (simp add: apply_event_kind_def)
  next
    case False
    have "event ev \<noteq> ''$identify''" "event ev \<noteq> ''$create_alias''" "event ev \<noteq> ''$merge_dangerously''"
      using merge_of_event_None [OF None] by blast+
    then show ?thesis using False k by (simp add: apply_event_kind_def)
  qed
  then have "resolve t' q d = resolve t q d" by (rule resolve_same)
  then show ?thesis using None by (simp add: event_choice_def)
next
  case (Some kg)
  obtain key guard where kg: "kg = (key, guard)" by (cases kg)
  obtain t1 where t1: "merge_if ex pr ev key guard t = Inr t1" using inv js by (rule merge_if_ok)
  have "distinct_ids t' = distinct_ids t1"
  proof -
    consider "event ev = ''$identify''" | "event ev = ''$create_alias''" | "event ev = ''$merge_dangerously''"
      using Some unfolding merge_of_event_def by (metis option.distinct(1))
    then show ?thesis
      by cases (use Some kg t1 k in \<open>auto simp: merge_of_event_def apply_event_kind_def\<close>)
  qed
  then have "resolve t' q d = resolve t1 q d" by (rule resolve_same)
  then show ?thesis
    using merge_if_resolve [OF inv js t1, of q d] Some kg by (simp add: event_choice_def)
qed

lemma event_choice_cong:
  assumes "\<And>i. identified t' pr i = identified t pr i" and "\<And>d. resolve t' pr d = resolve t pr d"
  shows "event_choice t' pr ev = event_choice t pr ev"
proof -
  have a: "merge_choice t' pr = merge_choice t pr" by (intro ext) (simp add: merge_choice_def assms(1))
  have b: "resolve t' pr = resolve t pr" by (intro ext assms(2))
  show ?thesis unfolding event_choice_def a b ..
qed

lemma identified_touch: "identified (touch_person ex pr i ev t) q j = identified t q j"
  by (auto simp: identified_def touch_person_def update_person_def Let_def alist_simps
      split: option.splits if_splits)

lemma apply_identity_resolve:
  assumes inv: "tables_inv ex t" and js: "json_ok ex" and k: "apply_identity ex pr ev t = Inr t'"
  shows "resolve t' q d =
    (case event_choice t pr ev of None \<Rightarrow> resolve t q d
     | Some (loser, winner) \<Rightarrow> if q = pr \<and> resolve t pr d = loser then winner else resolve t q d)"
proof -
  obtain i t1 s where e: "ensure_person ex pr (distinct_id ev) ev t = Inr (i, t1)" "tables_inv ex t1"
    "map_of (distinct_ids t1) (pr, distinct_id ev) = Some (i, s)" "ids_added t t1 {(pr, distinct_id ev)}"
    "map_of (persons t) \<subseteq>\<^sub>m map_of (persons t1)"
    "\<forall>k p. map_of (persons t1) k = Some p \<longrightarrow> map_of (persons t) k = None \<longrightarrow> \<not> p_identified p
       \<and> p_properties p = ''{}''"
    using ensure_person_ok [OF inv js, of pr "distinct_id ev" ev] by metis
  let ?t1 = "touch_person ex pr i ev t1"
  have inv1: "tables_inv ex ?t1" by (rule touch_person_inv [OF e(2)])
  have same: "resolve ?t1 q d = resolve t q d" for q d
    using resolve_ids_added [OF e(4)] by (simp add: resolve_def)
  have "identified ?t1 pr j = identified t pr j" for j
    using identified_new [OF e(5,6)] by (simp add: identified_touch)
  then have choice: "event_choice ?t1 pr ev = event_choice t pr ev"
    using same by (intro event_choice_cong)
  obtain t2 where k2: "apply_event_kind ex pr ev ?t1 = Inr t2" "tables_inv ex t2" "feed_step ?t1 t2"
    using inv1 js by (rule apply_event_kind_ok)
  have "map_of (distinct_ids t2) (pr, distinct_id ev) \<noteq> None"
    using k2(3) e(3) unfolding feed_step_def by simp
  then obtain i2 s2 where row2: "map_of (distinct_ids t2) (pr, distinct_id ev) = Some (i2, s2)" by auto
  obtain t3 where t3: "apply_person_properties ex pr (distinct_id ev) ev t2 = Inr t3"
    "distinct_ids t3 = distinct_ids t2"
    using apply_person_properties_ok [OF k2(2) js row2] by metis
  have "apply_identity ex pr ev t = Inr t3" using e(1) k2(1) t3(1) by (simp add: apply_identity_def)
  then have "resolve t' q d = resolve t2 q d" using k t3(2) by (simp add: resolve_def)
  moreover have "resolve ?t1 = resolve t" by (intro ext same)
  note apply_event_kind_resolve [OF inv1 js k2(1), of q d, unfolded this choice]
  ultimately show ?thesis by simp
qed

end
