(* ===== verification/SampleJson.thy ===== *)
theory SampleJson
  imports Types
begin

text \<open>
  A printer and a parser of JSON values that satisfy what the projections and the flags rely on in
  \<open>serde_json\<close>. They are not its text format: each value is a sequence of numbers, and each number is
  written in unary. They only serve to apply the theorems at concrete inputs.
\<close>

section \<open>Values as sequences of numbers\<close>

definition int_tokens :: "int \<Rightarrow> nat list" where
  "int_tokens i = [if i < 0 then 1 else 0, nat \<bar>i\<bar>]"

fun f64_tokens :: "f64 \<Rightarrow> nat list" where
  "f64_tokens (Fin r) = 0 # int_tokens (fst (quotient_of r)) @ int_tokens (snd (quotient_of r))"
| "f64_tokens PosInf = [1]"
| "f64_tokens NegInf = [2]"
| "f64_tokens NaN = [3]"

fun number_tokens :: "number \<Rightarrow> nat list" where
  "number_tokens (PosInt w) = [0, unat w]"
| "number_tokens (NegInt w) = [1, unat w]"
| "number_tokens (Float x) = 2 # f64_tokens x"

definition str_tokens :: "string \<Rightarrow> nat list" where
  "str_tokens s = length s # map code s"

fun json_tokens :: "json \<Rightarrow> nat list" where
  "json_tokens Null = [0]"
| "json_tokens (Bool b) = [1, if b then 1 else 0]"
| "json_tokens (Number n) = 2 # number_tokens n"
| "json_tokens (String s) = 3 # str_tokens s"
| "json_tokens (Array xs) = 4 # length xs # concat (map json_tokens xs)"
| "json_tokens (Object kvs) =
     5 # length kvs # concat (map (\<lambda>(k, v). str_tokens k @ json_tokens v) kvs)"

section \<open>Reading them back\<close>

fun read_int :: "nat list \<Rightarrow> (int \<times> nat list) option" where
  "read_int (s # n # r) = Some (if s = 1 then - int n else int n, r)"
| "read_int _ = None"

fun read_f64 :: "nat list \<Rightarrow> (f64 \<times> nat list) option" where
  "read_f64 (t # r) =
     (if t = 0 then
        (case read_int r of None \<Rightarrow> None | Some (p, r1) \<Rightarrow>
         (case read_int r1 of None \<Rightarrow> None | Some (q, r2) \<Rightarrow> Some (Fin (Rat.Fract p q), r2)))
      else Some (if t = 1 then PosInf else if t = 2 then NegInf else NaN, r))"
| "read_f64 _ = None"

fun read_number :: "nat list \<Rightarrow> (number \<times> nat list) option" where
  "read_number (t # r) =
     (if t = 2 then map_option (\<lambda>(x, r). (Float x, r)) (read_f64 r)
      else case r of [] \<Rightarrow> None
        | n # r1 \<Rightarrow> Some (if t = 0 then PosInt (word_of_nat n) else NegInt (word_of_nat n), r1))"
| "read_number _ = None"

fun read_str :: "nat list \<Rightarrow> (string \<times> nat list) option" where
  "read_str (n # r) = Some (map char_of (take n r), drop n r)"
| "read_str _ = None"

function (sequential)
  read_json :: "nat \<Rightarrow> nat list \<Rightarrow> (json \<times> nat list) option"
  and read_values :: "nat \<Rightarrow> nat \<Rightarrow> nat list \<Rightarrow> (json list \<times> nat list) option"
  and read_members :: "nat \<Rightarrow> nat \<Rightarrow> nat list \<Rightarrow> (object \<times> nat list) option"
where
  "read_json (Suc f) (t # r) =
     (if t = 0 then Some (Null, r)
      else if t = 2 then map_option (\<lambda>(n, r). (Number n, r)) (read_number r)
      else if t = 3 then map_option (\<lambda>(s, r). (String s, r)) (read_str r)
      else case r of [] \<Rightarrow> None
        | n # r1 \<Rightarrow>
            (if t = 1 then Some (Bool (n = 1), r1)
             else if t = 4 then map_option (\<lambda>(xs, r). (Array xs, r)) (read_values f n r1)
             else map_option (\<lambda>(kvs, r). (Object kvs, r)) (read_members f n r1)))"
| "read_json _ _ = None"
| "read_values f 0 r = Some ([], r)"
| "read_values f (Suc n) r =
     (case read_json f r of None \<Rightarrow> None
      | Some (x, r1) \<Rightarrow> map_option (\<lambda>(xs, r2). (x # xs, r2)) (read_values f n r1))"
| "read_members f 0 r = Some ([], r)"
| "read_members f (Suc n) r =
     (case read_str r of None \<Rightarrow> None
      | Some (k, r1) \<Rightarrow>
          (case read_json f r1 of None \<Rightarrow> None
           | Some (v, r2) \<Rightarrow> map_option (\<lambda>(kvs, r3). ((k, v) # kvs, r3)) (read_members f n r2)))"
  by pat_completeness auto
termination
  by (relation "measures [\<lambda>x. case x of Inl (f, r) \<Rightarrow> f | Inr (Inl (f, n, r)) \<Rightarrow> f | Inr (Inr (f, n, r)) \<Rightarrow> f,
      \<lambda>x. case x of Inl (f, r) \<Rightarrow> 0 | Inr (Inl (f, n, r)) \<Rightarrow> Suc n | Inr (Inr (f, n, r)) \<Rightarrow> Suc n]") auto

lemma read_int_tokens [simp]: "read_int (int_tokens i @ r) = Some (i, r)"
  by (simp add: int_tokens_def)

lemma read_f64_tokens [simp]: "read_f64 (f64_tokens x @ r) = Some (x, r)"
proof (cases x)
  case (Fin q)
  obtain a b where ab: "quotient_of q = (a, b)" by (cases "quotient_of q")
  then have "Rat.Fract a b = q" by (metis quotient_of_div Fract_of_int_quotient)
  then show ?thesis using Fin ab by simp
qed simp_all

lemma read_number_tokens [simp]: "read_number (number_tokens n @ r) = Some (n, r)"
  by (cases n) simp_all

lemma read_str_tokens [simp]: "read_str (str_tokens s @ r) = Some (s, r)"
  by (simp add: str_tokens_def code_def o_def)

lemma read_json_tokens:
  "length (json_tokens j) \<le> f \<Longrightarrow> read_json f (json_tokens j @ r) = Some (j, r)"
proof (induction j arbitrary: f r)
  case (Array xs)
  obtain f' where f: "f = Suc f'" using Array.prems by (cases f) simp_all
  have "read_values f' (length ys) (concat (map json_tokens ys) @ r) = Some (ys, r)"
    if "set ys \<subseteq> set xs" "length (concat (map json_tokens ys)) \<le> f'" for ys
    using that
  proof (induction ys)
    case (Cons y ys)
    then show ?case using Array.IH [of y f' "concat (map json_tokens ys) @ r"] by simp
  qed simp
  from this [of xs] show ?case using Array.prems f by simp
next
  case (Object kvs)
  obtain f' where f: "f = Suc f'" using Object.prems by (cases f) simp_all
  let ?enc = "\<lambda>kvs. concat (map (\<lambda>(k, v). str_tokens k @ json_tokens v) kvs)"
  have "read_members f' (length ys) (?enc ys @ r) = Some (ys, r)"
    if "set ys \<subseteq> set kvs" "length (?enc ys) \<le> f'" for ys
    using that
  proof (induction ys)
    case (Cons y ys)
    obtain k v where y: "y = (k, v)" by (cases y)
    then have "read_json f' (json_tokens v @ ?enc ys @ r) = Some (v, ?enc ys @ r)"
      using Cons.prems by (intro Object.IH [of y]) auto
    then show ?case using Cons y by simp
  qed simp
  from this [of kvs] show ?case using Object.prems f by simp
next
  case Null
  then show ?case by (cases f) simp_all
next
  case (Bool b)
  then show ?case by (cases f) simp_all
next
  case (Number n)
  then show ?case by (cases f) simp_all
next
  case (String s)
  then show ?case by (cases f) simp_all
qed

section \<open>Numbers in unary\<close>

definition unary :: "nat list \<Rightarrow> string" where
  "unary ns = concat (map (\<lambda>n. replicate n (CHR ''1'') @ ''0'') ns)"

fun read_unary :: "nat \<Rightarrow> string \<Rightarrow> nat list" where
  "read_unary n [] = []"
| "read_unary n (c # cs) = (if c = CHR ''1'' then read_unary (Suc n) cs else n # read_unary 0 cs)"

lemma read_unary_replicate: "read_unary m (replicate n (CHR ''1'') @ cs) = read_unary (m + n) cs"
  by (induction n arbitrary: m) simp_all

lemma read_unary_unary: "read_unary 0 (unary ns) = ns"
  by (induction ns) (simp_all add: unary_def read_unary_replicate)

definition sample_to_string :: "json \<Rightarrow> string" where
  "sample_to_string j = unary (json_tokens j)"

definition sample_from_str :: "string \<Rightarrow> json option" where
  "sample_from_str s =
     (if s = ''{}'' then Some (Object [])
      else let ns = read_unary 0 s in
        case read_json (length ns) ns of
          Some (Object m, _) \<Rightarrow> Some (Object (AList.clearjunk m))
        | Some (j, _) \<Rightarrow> Some j
        | None \<Rightarrow> None)"

lemma unary_not_braces: "unary ns \<noteq> ''{}''"
proof (cases ns)
  case (Cons n ns)
  then show ?thesis by (cases n) (simp_all add: unary_def)
qed (simp add: unary_def)

lemma sample_json_ok:
  "sample_from_str ''{}'' = Some (Object [])"
  "sample_from_str s = Some (Object m) \<Longrightarrow> distinct (map fst m)"
  "sample_from_str (sample_to_string (Object kvs)) = Some (Object (AList.clearjunk kvs))"
proof -
  show "sample_from_str ''{}'' = Some (Object [])" by (simp add: sample_from_str_def)
  show "distinct (map fst m)" if "sample_from_str s = Some (Object m)"
    using that by (auto simp: sample_from_str_def Let_def distinct_clearjunk
        split: if_splits option.splits json.splits)
  have "read_json (length (json_tokens (Object kvs))) (json_tokens (Object kvs)) = Some (Object kvs, [])"
    using read_json_tokens [OF order_refl, of "Object kvs" "[]"] by (simp only: append_Nil2)
  then show "sample_from_str (sample_to_string (Object kvs)) = Some (Object (AList.clearjunk kvs))"
    using unary_not_braces
    by (simp only: sample_from_str_def sample_to_string_def read_unary_unary Let_def) simp
qed

end
