(* ===== verification/ProjectionsProperties.thy ===== *)
theory ProjectionsProperties
  imports ProjectionsCorrect SampleJson
begin

text \<open>
  The properties of the identity projection, over whole sequences of events and over erasures,
  each applied at concrete tables.
\<close>

section \<open>Sequences of events\<close>

definition empty_tables :: tables where
  "empty_tables = \<lparr>persons = [], distinct_ids = [], identity_seq = 0, identity_epoch = 0, pending = [],
     groups = [], event_names = [], property_keys = [], property_values = []\<rparr>"

fun apply_events ::
  "externals \<Rightarrow> (string \<times> captured_event) list \<Rightarrow> tables \<Rightarrow> projection_error + tables" where
  "apply_events ex [] t = Inr t"
| "apply_events ex ((pr, ev) # evs) t =
     and_then (apply_identity_effects ex pr ev t) (apply_events ex evs)"

lemma empty_tables_inv: "tables_inv ex empty_tables"
  by (simp add: tables_inv_def empty_tables_def)

lemma apply_events_ok:
  assumes "json_ok ex" and "tables_inv ex t" and "\<forall>(pr, ev) \<in> set evs. trim pr \<noteq> []"
  shows "\<exists>t'. apply_events ex evs t = Inr t' \<and> tables_inv ex t' \<and> feed_step t t'"
  using assms(2,3)
proof (induction evs arbitrary: t)
  case Nil
  then show ?case using feed_step_refl by simp
next
  case (Cons e evs)
  obtain pr ev where e: "e = (pr, ev)" by (cases e)
  obtain t1 where t1: "apply_identity ex pr ev t = Inr t1" "tables_inv ex t1" "feed_step t t1"
    using apply_identity_ok [OF Cons.prems(1) assms(1)] by metis
  obtain t2 where t2: "apply_events ex evs t1 = Inr t2" "tables_inv ex t2" "feed_step t1 t2"
    using Cons.IH [OF t1(2)] Cons.prems(2) by auto
  show ?case
    using e t1(1) t2 Cons.prems(2) feed_step_trans [OF t1(3) t2(3)]
    by (simp add: apply_identity_effects_def)
qed

section \<open>Erasing a person\<close>

lemma map_of_filter_distinct:
  assumes "distinct (map fst xs)"
  shows "map_of (filter P xs) k = (case map_of xs k of None \<Rightarrow> None | Some v \<Rightarrow> if P (k, v) then Some v else None)"
  using assms
proof (induction xs)
  case (Cons x xs)
  have "map_of xs (fst x) = None" using Cons.prems by (simp add: map_of_eq_None_iff)
  then show ?case using Cons by (cases x) auto
qed simp

lemma pending_fold:
  "set (fold (\<lambda>d rows. if (pr, d) \<in> set rows then rows else rows @ [(pr, d)]) ds rows)
    = set rows \<union> (\<lambda>d. (pr, d)) ` set ds"
  by (induction ds arbitrary: rows) auto

lemma erase_person_rows:
  assumes inv: "tables_inv ex t" and e: "erase_person pr i t = (ids, t')"
  shows "d \<in> set ids \<longleftrightarrow> (\<exists>s. map_of (distinct_ids t) (pr, d) = Some (i, s))"
    and "map_of (distinct_ids t') (q, d) =
      (case map_of (distinct_ids t) (q, d) of None \<Rightarrow> None
       | Some (j, s) \<Rightarrow> if q = pr \<and> j = i then None else Some (j, s))"
    and "map_of (persons t') = (map_of (persons t))((pr, i) := None)"
    and "set (pending t') = set (pending t) \<union> (\<lambda>d. (pr, d)) ` set ids"
    and "identity_epoch t' = Suc (identity_epoch t)" and "groups t' = groups t"
    and "identity_seq t' = Suc (identity_seq t)"
    and "distinct (map fst (distinct_ids t'))" and "distinct (map fst (persons t'))"
proof -
  have dist: "distinct (map fst (distinct_ids t))" "distinct (map fst (persons t))"
    using inv by (simp_all add: tables_inv_def)
  have ids: "ids = map (\<lambda>((_, d), _). d) (filter (\<lambda>((q, _), j, _). q = pr \<and> j = i) (distinct_ids t))"
    and t': "t' = t\<lparr>
        pending := fold (\<lambda>d rows. if (pr, d) \<in> set rows then rows else rows @ [(pr, d)]) ids (pending t),
        distinct_ids := filter (\<lambda>((q, _), j, _). \<not> (q = pr \<and> j = i)) (distinct_ids t),
        persons := AList.delete (pr, i) (persons t),
        identity_epoch := identity_epoch t + 1, identity_seq := identity_seq t + 1\<rparr>"
    using e by (auto simp: erase_person_def Let_def)
  have "d \<in> set ids \<longleftrightarrow> (\<exists>s. ((pr, d), i, s) \<in> set (distinct_ids t))"
    unfolding ids by force
  then show "d \<in> set ids \<longleftrightarrow> (\<exists>s. map_of (distinct_ids t) (pr, d) = Some (i, s))"
    using dist(1) by (simp add: map_of_eq_Some_iff)
  show "map_of (distinct_ids t') (q, d) =
      (case map_of (distinct_ids t) (q, d) of None \<Rightarrow> None
       | Some (j, s) \<Rightarrow> if q = pr \<and> j = i then None else Some (j, s))"
    unfolding t' using map_of_filter_distinct [OF dist(1)] by (auto split: option.splits)
  show "set (pending t') = set (pending t) \<union> (\<lambda>d. (pr, d)) ` set ids"
    unfolding t' by (simp add: pending_fold)
  show "distinct (map fst (distinct_ids t'))" unfolding t' using dist(1) by (simp add: distinct_map_filter)
  show "distinct (map fst (persons t'))" unfolding t' using dist(2) by (simp add: distinct_keys_delete)
qed (use e in \<open>auto simp: erase_person_def Let_def alist_simps\<close>)

lemma erase_person_inv:
  assumes inv: "tables_inv ex t" and e: "erase_person pr i t = (ids, t')"
  shows "tables_inv ex t'"
proof -
  note r = erase_person_rows [OF inv e]
  show ?thesis
    unfolding tables_inv_def
  proof (intro conjI allI impI)
    show "distinct (map fst (persons t'))" by (rule r(9))
    show "distinct (map fst (distinct_ids t'))" by (rule r(8))
    fix q j p
    assume p: "map_of (persons t') (q, j) = Some p"
    then have p0: "map_of (persons t) (q, j) = Some p" and ne: "(q, j) \<noteq> (pr, i)"
      unfolding r(3) by (auto split: if_splits)
    show "map_of (distinct_ids t') (q, j) = Some (j, 0)"
      unfolding r(2) tables_invD(1) [OF inv p0] using ne by simp
    show "decodable ex (p_properties p)" by (rule tables_invD(2) [OF inv p0])
  next
    fix q d j s
    assume row: "map_of (distinct_ids t') (q, d) = Some (j, s)"
    then have row0: "map_of (distinct_ids t) (q, d) = Some (j, s)" and ne: "(q, j) \<noteq> (pr, i)"
      unfolding r(2) by (auto split: option.splits if_splits)
    show "map_of (persons t') (q, j) \<noteq> None"
      unfolding r(3) using ne tables_invD(3) [OF inv row0] by auto
    show "s \<le> identity_seq t'" "(s = 0) = (j = d)"
      unfolding r(7) using tables_invD(4,5) [OF inv row0] by simp_all
  next
    fix k enc c
    assume "map_of (groups t') k = Some (enc, c)"
    then show "decodable ex enc" unfolding r(6) by (rule tables_invD(6) [OF inv])
  qed
qed

section \<open>A plain event\<close>

lemma plain_event_properties:
  assumes inv: "tables_inv ex t" and js: "json_ok ex" and plain: "merge_of_event ev = None"
    and od: "objects_distinct ev" and t': "apply_identity ex pr ev t = Inr t'"
  shows "props_of ex t' pr (resolve t pr (distinct_id ev)) = Some (updated_properties ev
    (case props_of ex t pr (resolve t pr (distinct_id ev)) of None \<Rightarrow> Map.empty | Some m \<Rightarrow> m))"
proof -
  obtain i t1 s where e: "ensure_person ex pr (distinct_id ev) ev t = Inr (i, t1)" "tables_inv ex t1"
    "map_of (distinct_ids t1) (pr, distinct_id ev) = Some (i, s)" "ids_added t t1 {(pr, distinct_id ev)}"
    "map_of (persons t) \<subseteq>\<^sub>m map_of (persons t1)"
    "\<forall>k p. map_of (persons t1) k = Some p \<longrightarrow> map_of (persons t) k = None \<longrightarrow> \<not> p_identified p
       \<and> p_properties p = ''{}''"
    using ensure_person_ok [OF inv js, of pr "distinct_id ev" ev] by metis
  have i: "resolve t pr (distinct_id ev) = i"
    using resolve_ids_added [OF e(4), of pr "distinct_id ev"] e(3) by (simp add: resolve_def)
  obtain p1 where p1: "map_of (persons t1) (pr, i) = Some p1" using tables_invD(3) [OF e(2,3)] by blast
  have empty: "decode_properties ex ''{}'' = Inr []" using js by (simp add: decode_properties_def json_ok_def)
  have props1: "props_of ex t1 pr i = Some (case props_of ex t pr i of None \<Rightarrow> Map.empty | Some m \<Rightarrow> m)"
  proof (cases "map_of (persons t) (pr, i)")
    case None
    then have "p_properties p1 = ''{}''" using e(6) p1 by blast
    then show ?thesis using None p1 empty by (simp add: props_of_def)
  next
    case (Some p)
    then have "p1 = p" using e(5) p1 by (metis domI map_le_def option.inject)
    moreover obtain m where "decode_properties ex (p_properties p) = Inr m"
      using tables_invD(2) [OF inv Some] by (rule decodableE)
    ultimately show ?thesis using Some p1 by (simp add: props_of_def)
  qed
  let ?t1 = "touch_person ex pr i ev t1"
  have inv1: "tables_inv ex ?t1" by (rule touch_person_inv [OF e(2)])
  have touch: "props_of ex ?t1 pr i = props_of ex t1 pr i"
    using p1 by (auto simp: props_of_def touch_person_def Let_def split: option.splits)
  obtain t2 where t2: "apply_event_kind ex pr ev ?t1 = Inr t2" "tables_inv ex t2"
    "distinct_ids t2 = distinct_ids ?t1" "persons t2 = persons ?t1"
  proof (cases "event ev = ''$groupidentify''")
    case True
    obtain t2 where "apply_group ex pr ev ?t1 = Inr t2" "tables_inv ex t2"
      "distinct_ids t2 = distinct_ids ?t1" "persons t2 = persons ?t1"
      using apply_group_ok [OF inv1 js] by metis
    then show thesis using that True by (simp add: apply_event_kind_def)
  next
    case False
    then show thesis using that [of ?t1] inv1 merge_of_event_None [OF plain]
      by (simp add: apply_event_kind_def)
  qed
  have row2: "map_of (distinct_ids t2) (pr, distinct_id ev) = Some (i, s)" using t2(3) e(3) by simp
  obtain t3 where t3: "apply_person_properties ex pr (distinct_id ev) ev t2 = Inr t3"
    "objects_distinct ev \<longrightarrow> props_of ex t3 pr i = map_option (updated_properties ev) (props_of ex t2 pr i)"
    using apply_person_properties_ok [OF t2(2) js row2] by metis
  have "t' = t3" using t' e(1) t2(1) t3(1) by (simp add: apply_identity_def)
  moreover have "props_of ex t2 pr i = props_of ex ?t1 pr i" using t2(4) by (simp add: props_of_def)
  ultimately show ?thesis using t3(2) od touch props1 i by simp
qed

end
