(* ===== verification/Overrides.thy ===== *)
theory Overrides
  imports ProjectionsProperties
begin

text \<open>
  The identity override feed: \<open>PersonStore::overrides_since\<close> of \<open>src/persons.rs\<close> cuts it into
  bounded batches that never split a sequence number, and \<open>IdentitySync\<close> of
  \<open>src/query/identity.rs\<close> applies them to the query engine's table of overrides. Each batch reads a
  snapshot of the tables, which may have changed since the batch before. Rows with one sequence
  number come in table order.
\<close>

section \<open>Batches\<close>

definition max_override_batch :: nat where
  "max_override_batch = 100000"

record override_change =
  oc_project :: string
  oc_distinct :: string
  oc_person :: string

record override_batch =
  ob_epoch :: nat
  ob_max_seq :: nat
  ob_changes :: "override_change list"
  ob_truncated :: bool

type_synonym id_row = "(string \<times> string) \<times> string \<times> nat"

definition row_seq :: "id_row \<Rightarrow> nat" where
  "row_seq r = snd (snd r)"

definition change_of :: "id_row \<Rightarrow> override_change" where
  "change_of r = \<lparr>oc_project = fst (fst r), oc_distinct = snd (fst r), oc_person = fst (snd r)\<rparr>"

definition overrides_since :: "tables \<Rightarrow> nat \<Rightarrow> override_batch" where
  "overrides_since t after =
     (let top = identity_seq t;
          rows = take (max_override_batch + 1)
                   (sort_key row_seq (filter (\<lambda>r. after < row_seq r \<and> row_seq r \<le> top) (distinct_ids t)));
          truncated = (max_override_batch < length rows);
          changes = take max_override_batch rows in
      if truncated then
        (let lst = (if changes = [] then after else row_seq (last changes)) in
         if list_ex (\<lambda>r. row_seq r < lst) changes
         then \<lparr>ob_epoch = identity_epoch t, ob_max_seq = lst - 1,
               ob_changes = map change_of (filter (\<lambda>r. row_seq r < lst) changes), ob_truncated = True\<rparr>
         else \<lparr>ob_epoch = identity_epoch t, ob_max_seq = lst,
               ob_changes = map change_of (filter (\<lambda>r. row_seq r = lst) (distinct_ids t)),
               ob_truncated = True\<rparr>)
      else \<lparr>ob_epoch = identity_epoch t, ob_max_seq = max top after,
            ob_changes = map change_of changes, ob_truncated = False\<rparr>)"

section \<open>The mirror\<close>

datatype sync_error = StoreError | ApplyError | NotConverged

record identity_sync =
  sync_rows :: "((string \<times> string) \<times> string) list"
  sync_epoch :: "nat option"
  sync_seq :: nat

definition sync_new :: identity_sync where
  "sync_new = \<lparr>sync_rows = [], sync_epoch = None, sync_seq = 0\<rparr>"

definition max_sync_batches :: nat where
  "max_sync_batches = 1000"

text \<open>Delete every staged id, insert those whose person id is not their distinct id.\<close>

definition apply_changes ::
  "override_change list \<Rightarrow> ((string \<times> string) \<times> string) list \<Rightarrow> ((string \<times> string) \<times> string) list" where
  "apply_changes cs rows =
     filter (\<lambda>(k, _). k \<notin> (\<lambda>c. (oc_project c, oc_distinct c)) ` set cs) rows
     @ map (\<lambda>c. ((oc_project c, oc_distinct c), oc_person c)) (filter (\<lambda>c. oc_person c \<noteq> oc_distinct c) cs)"

text \<open>
  Batch \<open>i\<close> reads the snapshot \<open>db i\<close>, or fails; \<open>apply_ok i\<close> says whether its changes can be
  applied (a failed transaction changes nothing).
\<close>

fun sync_loop ::
  "nat \<Rightarrow> nat \<Rightarrow> (nat \<Rightarrow> tables option) \<Rightarrow> (nat \<Rightarrow> bool) \<Rightarrow> identity_sync \<Rightarrow>
    (sync_error + nat \<times> nat) \<times> identity_sync" where
  "sync_loop 0 i db apply_ok st = (Inl NotConverged, st)"
| "sync_loop (Suc n) i db apply_ok st =
     (case db i of
        None \<Rightarrow> (Inl StoreError, st)
      | Some t \<Rightarrow>
          (let b = overrides_since t (sync_seq st);
               changed = (sync_epoch st \<noteq> Some (ob_epoch b));
               st1 = (if changed
                      then \<lparr>sync_rows = [], sync_epoch = Some (ob_epoch b), sync_seq = 0\<rparr> else st) in
           if changed \<and> sync_seq st \<noteq> 0 then sync_loop n (Suc i) db apply_ok st1
           else if ob_changes b \<noteq> [] \<and> \<not> apply_ok i then (Inl ApplyError, st1)
           else
             (let st2 = st1\<lparr>sync_rows := (if ob_changes b = [] then sync_rows st1
                                         else apply_changes (ob_changes b) (sync_rows st1)),
                           sync_seq := ob_max_seq b\<rparr> in
              if ob_truncated b then sync_loop n (Suc i) db apply_ok st2
              else (Inr (ob_epoch b, sync_seq st2), st2))))"

definition sync ::
  "(nat \<Rightarrow> tables option) \<Rightarrow> (nat \<Rightarrow> bool) \<Rightarrow> identity_sync \<Rightarrow> (sync_error + nat \<times> nat) \<times> identity_sync" where
  "sync = sync_loop max_sync_batches 0"

section \<open>A batch is complete up to its sequence number\<close>

lemma sorted_below_last:
  assumes "sorted (map f xs)" and "0 < n" and "n < length xs"
  shows "filter (\<lambda>x. f x < f (last (take n xs))) (take n xs) = filter (\<lambda>x. f x < f (last (take n xs))) xs"
proof -
  let ?l = "f (last (take n xs))"
  have l: "last (take n xs) = xs ! (n - 1)"
  proof -
    have "take n xs \<noteq> []" using assms(2,3) by auto
    from last_conv_nth [OF this] show ?thesis using assms(2,3) by simp
  qed
  have "\<not> f x < ?l" if x: "x \<in> set (drop n xs)" for x
  proof -
    obtain j where j: "j < length (drop n xs)" "x = drop n xs ! j"
      using x unfolding in_set_conv_nth by blast
    then have "x = xs ! (n + j)" "n + j < length xs" by simp_all
    then have "f (xs ! (n - 1)) \<le> f x"
      using assms(1) sorted_nth_mono [of "map f xs" "n - 1" "n + j"] by simp
    then show ?thesis using l by simp
  qed
  then have "filter (\<lambda>x. f x < ?l) (drop n xs) = []" by (simp add: filter_empty_conv)
  then show ?thesis by (metis append_Nil2 append_take_drop_id filter_append)
qed

lemma overrides_since_exact:
  assumes top: "\<forall>r \<in> set (distinct_ids t). row_seq r \<le> identity_seq t"
    and b_def: "b = overrides_since t after"
  shows "set (ob_changes b) =
      change_of ` {r \<in> set (distinct_ids t). after < row_seq r \<and> row_seq r \<le> ob_max_seq b}"
    and "ob_truncated b \<Longrightarrow> after < ob_max_seq b \<and> ob_max_seq b \<le> identity_seq t"
    and "\<not> ob_truncated b \<Longrightarrow> ob_max_seq b = max (identity_seq t) after"
    and "ob_epoch b = identity_epoch t"
proof -
  let ?R = "sort_key row_seq (filter (\<lambda>r. after < row_seq r \<and> row_seq r \<le> identity_seq t) (distinct_ids t))"
  let ?C = "take max_override_batch ?R"
  have setR: "set ?R = {r \<in> set (distinct_ids t). after < row_seq r}" using top by auto
  have sorted: "sorted (map row_seq ?R)" by simp
  have pos: "0 < max_override_batch" by (simp add: max_override_batch_def)
  have takes: "take max_override_batch (take (max_override_batch + 1) ?R) = ?C"
    by (simp only: take_take) simp
  have trunc: "max_override_batch < length (take (max_override_batch + 1) ?R) \<longleftrightarrow> max_override_batch < length ?R"
    by auto
  show "ob_epoch b = identity_epoch t"
    by (simp add: b_def overrides_since_def Let_def)
  show "set (ob_changes b) =
      change_of ` {r \<in> set (distinct_ids t). after < row_seq r \<and> row_seq r \<le> ob_max_seq b}"
    and "ob_truncated b \<Longrightarrow> after < ob_max_seq b \<and> ob_max_seq b \<le> identity_seq t"
    and "\<not> ob_truncated b \<Longrightarrow> ob_max_seq b = max (identity_seq t) after"
  proof -
    have "set (ob_changes b) =
        change_of ` {r \<in> set (distinct_ids t). after < row_seq r \<and> row_seq r \<le> ob_max_seq b}
      \<and> (ob_truncated b \<longrightarrow> after < ob_max_seq b \<and> ob_max_seq b \<le> identity_seq t)
      \<and> (\<not> ob_truncated b \<longrightarrow> ob_max_seq b = max (identity_seq t) after)"
    proof (cases "max_override_batch < length ?R")
      case False
      then have C: "?C = ?R" by simp
      have b: "b = \<lparr>ob_epoch = identity_epoch t, ob_max_seq = max (identity_seq t) after,
          ob_changes = map change_of ?C, ob_truncated = False\<rparr>"
        unfolding b_def overrides_since_def Let_def takes trunc using False by simp
      have "{r \<in> set (distinct_ids t). after < row_seq r}
          = {r \<in> set (distinct_ids t). after < row_seq r \<and> row_seq r \<le> max (identity_seq t) after}"
        using top by auto
      then show ?thesis using b C setR by (simp only: override_batch.simps set_map) simp
    next
      case True
      let ?l = "row_seq (last ?C)"
      have "length ?C = max_override_batch" using True by simp
      then have ne: "?C \<noteq> []" using pos by force
      have last_in: "last ?C \<in> set ?R" using ne by (meson in_set_takeD last_in_set)
      then have l: "after < ?l" "?l \<le> identity_seq t" using top by auto
      have below: "set (filter (\<lambda>r. row_seq r < ?l) ?C)
          = {r \<in> set (distinct_ids t). after < row_seq r \<and> row_seq r < ?l}"
        unfolding sorted_below_last [OF sorted pos True] set_filter setR by auto
      show ?thesis
      proof (cases "list_ex (\<lambda>r. row_seq r < ?l) ?C")
        case complete: True
        have b: "b = \<lparr>ob_epoch = identity_epoch t, ob_max_seq = ?l - 1,
            ob_changes = map change_of (filter (\<lambda>r. row_seq r < ?l) ?C), ob_truncated = True\<rparr>"
          unfolding b_def overrides_since_def Let_def takes trunc using True ne complete by simp
        obtain r where r: "r \<in> set ?C" "row_seq r < ?l" using complete unfolding list_ex_iff by blast
        have "r \<in> set ?R" by (rule in_set_takeD [OF r(1)])
        then have "after < row_seq r" unfolding setR by blast
        then have "after < ?l - 1" using r(2) by linarith
        moreover have "{r \<in> set (distinct_ids t). after < row_seq r \<and> row_seq r < ?l}
            = {r \<in> set (distinct_ids t). after < row_seq r \<and> row_seq r \<le> ?l - 1}"
          using l(1) by (intro Collect_cong conj_cong refl) linarith
        moreover have "?l - 1 \<le> identity_seq t" using l(2) by linarith
        ultimately show ?thesis
          unfolding b override_batch.simps set_map below by simp
      next
        case split: False
        have b: "b = \<lparr>ob_epoch = identity_epoch t, ob_max_seq = ?l,
            ob_changes = map change_of (filter (\<lambda>r. row_seq r = ?l) (distinct_ids t)), ob_truncated = True\<rparr>"
          unfolding b_def overrides_since_def Let_def takes trunc using True ne split by simp
        have empty: "filter (\<lambda>r. row_seq r < ?l) ?C = []"
          using split unfolding filter_empty_conv list_ex_iff by blast
        have none: "{r \<in> set (distinct_ids t). after < row_seq r \<and> row_seq r < ?l} = {}"
          unfolding below [symmetric] empty by (rule list.set(1))
        have "{r \<in> set (distinct_ids t). row_seq r = ?l}
            = {r \<in> set (distinct_ids t). after < row_seq r \<and> row_seq r \<le> ?l}" (is "?A = ?B")
        proof
          show "?A \<subseteq> ?B"
          proof
            fix r
            assume "r \<in> ?A"
            then have "r \<in> set (distinct_ids t)" "row_seq r = ?l" by blast+
            then show "r \<in> ?B" using l(1) by (simp only: mem_Collect_eq order_refl simp_thms)
          qed
          show "?B \<subseteq> ?A"
          proof
            fix r
            assume "r \<in> ?B"
            then have r: "r \<in> set (distinct_ids t)" "after < row_seq r" "row_seq r \<le> ?l" by blast+
            then have "\<not> row_seq r < ?l" using none by blast
            then show "r \<in> ?A" using r(1,3) by (simp only: mem_Collect_eq not_less order_antisym simp_thms)
          qed
        qed
        then show ?thesis unfolding b override_batch.simps set_map set_filter using l by simp
      qed
    qed
    then show "set (ob_changes b) =
        change_of ` {r \<in> set (distinct_ids t). after < row_seq r \<and> row_seq r \<le> ob_max_seq b}"
      and "ob_truncated b \<Longrightarrow> after < ob_max_seq b \<and> ob_max_seq b \<le> identity_seq t"
      and "\<not> ob_truncated b \<Longrightarrow> ob_max_seq b = max (identity_seq t) after" by blast+
  qed
qed

section \<open>What the mirror holds\<close>

definition override_at :: "tables \<Rightarrow> (string \<times> string) \<Rightarrow> string option" where
  "override_at t k =
     (case map_of (distinct_ids t) k of None \<Rightarrow> None
      | Some (i, _) \<Rightarrow> if i = snd k then None else Some i)"

text \<open>Up to sequence number \<open>s\<close> the mirror has the overrides of \<open>t\<close>.\<close>

definition mirror_ok :: "((string \<times> string) \<times> string) list \<Rightarrow> nat \<Rightarrow> tables \<Rightarrow> bool" where
  "mirror_ok rows s t \<longleftrightarrow>
     (\<forall>k. case map_of (distinct_ids t) k of
        None \<Rightarrow> map_of rows k = None
      | Some (i, q) \<Rightarrow> q \<le> s \<longrightarrow> map_of rows k = override_at t k)"

lemma mirror_okD:
  assumes "mirror_ok rows s t"
  shows "map_of (distinct_ids t) k = None \<Longrightarrow> map_of rows k = None"
    and "map_of (distinct_ids t) k = Some (i, q) \<Longrightarrow> q \<le> s \<Longrightarrow> map_of rows k = override_at t k"
  using assms [unfolded mirror_ok_def, THEN spec, of k] by simp_all

lemma mirror_okI:
  assumes "\<And>k. map_of (distinct_ids t) k = None \<Longrightarrow> map_of rows k = None"
    and "\<And>k i q. map_of (distinct_ids t) k = Some (i, q) \<Longrightarrow> q \<le> s \<Longrightarrow> map_of rows k = override_at t k"
  shows "mirror_ok rows s t"
  unfolding mirror_ok_def
proof
  fix k
  show "case map_of (distinct_ids t) k of None \<Rightarrow> map_of rows k = None
      | Some (i, q) \<Rightarrow> q \<le> s \<longrightarrow> map_of rows k = override_at t k"
    using assms(1) [of k] assms(2) [of k] by (cases "map_of (distinct_ids t) k") auto
qed

lemma mirror_empty:
  assumes "tables_inv ex t"
  shows "mirror_ok [] 0 t"
proof (rule mirror_okI)
  fix k i q
  assume row: "map_of (distinct_ids t) k = Some (i, q)" and "q \<le> 0"
  then have "map_of (distinct_ids t) (fst k, snd k) = Some (i, 0)" by simp
  then have "i = snd k" using tables_invD(5) [OF assms] by blast
  then show "map_of [] k = override_at t k" using row by (simp add: override_at_def)
qed simp

lemma mirror_feed_step:
  assumes m: "mirror_ok rows s t" and f: "feed_step t t'" and s: "s \<le> identity_seq t"
  shows "mirror_ok rows s t'"
proof (rule mirror_okI)
  fix k
  have fk: "map_of (distinct_ids t) k \<noteq> None \<longrightarrow> map_of (distinct_ids t') k \<noteq> None"
    "map_of (distinct_ids t') k = map_of (distinct_ids t) k
      \<or> map_of (distinct_ids t) k = None \<and> map_of (distinct_ids t') k = Some (snd k, 0)
      \<or> (\<exists>i q. map_of (distinct_ids t') k = Some (i, q) \<and> identity_seq t < q)"
    using f unfolding feed_step_def by blast+
  show "map_of rows k = None" if "map_of (distinct_ids t') k = None"
    using fk(1) that mirror_okD(1) [OF m] by blast
  show "map_of rows k = override_at t' k" if row: "map_of (distinct_ids t') k = Some (i, q)" "q \<le> s" for i q
  proof -
    consider "map_of (distinct_ids t) k = Some (i, q)"
      | "map_of (distinct_ids t) k = None" "i = snd k"
      using fk(2) row s by fastforce
    then show ?thesis
    proof cases
      case 1
      then have "map_of rows k = override_at t k" using mirror_okD(2) [OF m] row(2) by blast
      then show ?thesis using 1 row(1) by (simp add: override_at_def)
    next
      case 2
      then have "map_of rows k = None" using mirror_okD(1) [OF m] by blast
      then show ?thesis using 2 row(1) by (simp add: override_at_def)
    qed
  qed
qed

text \<open>Applying the changes of a batch.\<close>

lemma map_of_None_notin: "map_of xs k = None \<Longrightarrow> (k, p) \<notin> set xs"
  by (force simp: map_of_eq_None_iff)

lemma map_of_apply_changes:
  assumes cs: "set cs = change_of ` {r \<in> set (distinct_ids t). a < row_seq r \<and> row_seq r \<le> b}"
    and dist: "distinct (map fst (distinct_ids t))"
  shows "map_of (apply_changes cs rows) k =
    (case map_of (distinct_ids t) k of
       Some (i, q) \<Rightarrow> if a < q \<and> q \<le> b then override_at t k else map_of rows k
     | None \<Rightarrow> map_of rows k)"
proof -
  let ?key = "\<lambda>c. (oc_project c, oc_distinct c)"
  have key: "?key (change_of r) = fst r" for r by (simp add: change_of_def)
  have row: "map_of (distinct_ids t) k = Some (i, q) \<longleftrightarrow> (k, i, q) \<in> set (distinct_ids t)" for k i q
    using dist by (simp add: map_of_eq_Some_iff)
  have staged: "k \<in> ?key ` set cs \<longleftrightarrow> (\<exists>i q. map_of (distinct_ids t) k = Some (i, q) \<and> a < q \<and> q \<le> b)"
  proof
    assume "k \<in> ?key ` set cs"
    then obtain r where r: "r \<in> set (distinct_ids t)" "a < row_seq r" "row_seq r \<le> b" "k = fst r"
      unfolding cs by (auto simp: change_of_def)
    then have "(k, fst (snd r), row_seq r) \<in> set (distinct_ids t)" by (simp add: row_seq_def)
    then show "\<exists>i q. map_of (distinct_ids t) k = Some (i, q) \<and> a < q \<and> q \<le> b"
      using r(2,3) row by blast
  next
    assume "\<exists>i q. map_of (distinct_ids t) k = Some (i, q) \<and> a < q \<and> q \<le> b"
    then obtain i q where iq: "(k, i, q) \<in> set (distinct_ids t)" "a < q" "q \<le> b"
      using row by blast
    then have "change_of (k, i, q) \<in> set cs" unfolding cs by (intro imageI) (simp add: row_seq_def)
    moreover have "k = ?key (change_of (k, i, q))" by (simp add: change_of_def)
    ultimately show "k \<in> ?key ` set cs" by (rule rev_image_eqI)
  qed
  let ?new = "map (\<lambda>c. (?key c, oc_person c)) (filter (\<lambda>c. oc_person c \<noteq> oc_distinct c) cs)"
  have in_new: "(k, p) \<in> set ?new \<longleftrightarrow>
      (\<exists>q. map_of (distinct_ids t) k = Some (p, q) \<and> a < q \<and> q \<le> b \<and> p \<noteq> snd k)" for p
  proof
    assume "(k, p) \<in> set ?new"
    then obtain c where c: "c \<in> set cs" "oc_person c \<noteq> oc_distinct c" "k = ?key c" "p = oc_person c"
      by auto
    then obtain r where r: "r \<in> set (distinct_ids t)" "a < row_seq r" "row_seq r \<le> b" "c = change_of r"
      unfolding cs by blast
    have kr: "k = fst r" using c(3) r(4) by (simp add: change_of_def)
    have "p = fst (snd r)" "oc_distinct c = snd (fst r)" using c(4) r(4) by (simp_all add: change_of_def)
    moreover have "(k, fst (snd r), row_seq r) \<in> set (distinct_ids t)" using r(1) kr by (simp add: row_seq_def)
    ultimately show "\<exists>q. map_of (distinct_ids t) k = Some (p, q) \<and> a < q \<and> q \<le> b \<and> p \<noteq> snd k"
      using r(2,3) row kr c(2,4) by metis
  next
    assume "\<exists>q. map_of (distinct_ids t) k = Some (p, q) \<and> a < q \<and> q \<le> b \<and> p \<noteq> snd k"
    then obtain q where q: "(k, p, q) \<in> set (distinct_ids t)" "a < q" "q \<le> b" "p \<noteq> snd k"
      using row by blast
    have "change_of (k, p, q) \<in> set cs" unfolding cs using q by (intro imageI) (simp add: row_seq_def)
    moreover have "oc_person (change_of (k, p, q)) = p" "oc_distinct (change_of (k, p, q)) = snd k"
      by (simp_all add: change_of_def)
    moreover have "?key (change_of (k, p, q)) = k" by (simp add: change_of_def)
    ultimately have "change_of (k, p, q) \<in> set (filter (\<lambda>c. oc_person c \<noteq> oc_distinct c) cs)"
      and pair: "(k, p) = (?key (change_of (k, p, q)), oc_person (change_of (k, p, q)))"
      using q(4) by simp_all
    then show "(k, p) \<in> set ?new" unfolding set_map by (rule rev_image_eqI)
  qed
  have new: "map_of ?new k = (if k \<in> ?key ` set cs then override_at t k else None)"
  proof (cases "map_of ?new k")
    case None
    then have none: "(k, p) \<notin> set ?new" for p by (rule map_of_None_notin)
    show ?thesis
    proof (cases "k \<in> ?key ` set cs")
      case True
      then obtain i q where iq: "map_of (distinct_ids t) k = Some (i, q)" "a < q" "q \<le> b"
        unfolding staged by blast
      then have "i = snd k" using none [of i] unfolding in_new by blast
      then show ?thesis using None iq by (simp add: override_at_def)
    qed (use None in simp)
  next
    case (Some p)
    then have "(k, p) \<in> set ?new" by (rule map_of_SomeD)
    then obtain q where q: "map_of (distinct_ids t) k = Some (p, q)" "a < q" "q \<le> b" "p \<noteq> snd k"
      unfolding in_new by blast
    then have "k \<in> ?key ` set cs" unfolding staged by blast
    then show ?thesis using Some q by (simp add: override_at_def)
  qed
  have old: "map_of (filter (\<lambda>(k, _). k \<notin> ?key ` set cs) rows) k
      = (if k \<in> ?key ` set cs then None else map_of rows k)"
    by (induction rows) auto
  have "map_of (apply_changes cs rows) k = (if k \<in> ?key ` set cs then override_at t k else map_of rows k)"
    unfolding apply_changes_def map_of_append map_add_def new old by (simp split: option.splits)
  then show ?thesis unfolding staged by (auto split: option.splits)
qed

lemma mirror_batch:
  assumes inv: "tables_inv ex t" and m: "mirror_ok rows s t" and b: "b = overrides_since t s"
  shows "mirror_ok (if ob_changes b = [] then rows else apply_changes (ob_changes b) rows) (ob_max_seq b) t"
proof -
  have dist: "distinct (map fst (distinct_ids t))" using inv by (simp add: tables_inv_def)
  have top: "\<forall>r \<in> set (distinct_ids t). row_seq r \<le> identity_seq t"
  proof
    fix r
    assume "r \<in> set (distinct_ids t)"
    then have "map_of (distinct_ids t) (fst (fst r), snd (fst r)) = Some (fst (snd r), row_seq r)"
      using dist by (simp add: row_seq_def map_of_eq_Some_iff)
    then show "row_seq r \<le> identity_seq t" by (rule tables_invD(4) [OF inv])
  qed
  note exact = overrides_since_exact [OF top b]
  have le: "s \<le> ob_max_seq b" using exact(2,3) by (cases "ob_truncated b") simp_all
  have rows: "map_of (if ob_changes b = [] then rows else apply_changes (ob_changes b) rows) k =
      (case map_of (distinct_ids t) k of
         Some (i, q) \<Rightarrow> if s < q \<and> q \<le> ob_max_seq b then override_at t k else map_of rows k
       | None \<Rightarrow> map_of rows k)" for k
  proof (cases "ob_changes b = []")
    case True
    then have "apply_changes (ob_changes b) rows = rows" by (simp add: apply_changes_def filter_True)
    then show ?thesis using map_of_apply_changes [OF exact(1) dist, of rows k] by simp
  next
    case False
    then show ?thesis using map_of_apply_changes [OF exact(1) dist, of rows k] by simp
  qed
  show ?thesis
  proof (rule mirror_okI, goal_cases)
    case (1 k)
    then show ?case using rows [of k] mirror_okD(1) [OF m] by simp
  next
    case (2 k i q)
    then show ?case using rows [of k] mirror_okD(2) [OF m 2(1)] by simp
  qed
qed

section \<open>Synchronizing\<close>

text \<open>A later snapshot: the feed went on, or an erasure changed the epoch.\<close>

definition later :: "tables \<Rightarrow> tables \<Rightarrow> bool" where
  "later t t' \<longleftrightarrow> feed_step t t' \<or> identity_epoch t < identity_epoch t'"

text \<open>The mirror is right for the epoch it knows; \<open>t\<close> is a snapshot not older than its last batch.\<close>

definition sync_inv :: "identity_sync \<Rightarrow> tables \<Rightarrow> bool" where
  "sync_inv st t \<longleftrightarrow>
     (case sync_epoch st of None \<Rightarrow> sync_seq st = 0
      | Some e \<Rightarrow> e \<le> identity_epoch t
          \<and> (e = identity_epoch t \<longrightarrow> mirror_ok (sync_rows st) (sync_seq st) t \<and> sync_seq st \<le> identity_seq t))"

lemma sync_inv_later:
  assumes "sync_inv st t" and "later t t'"
  shows "sync_inv st t'"
proof (cases "sync_epoch st")
  case (Some e)
  show ?thesis
  proof (cases "feed_step t t'")
    case True
    then have "identity_epoch t' = identity_epoch t" "identity_seq t \<le> identity_seq t'"
      by (simp_all add: feed_step_def)
    then show ?thesis using assms(1) Some True mirror_feed_step
      unfolding sync_inv_def by auto
  next
    case False
    then have "identity_epoch t < identity_epoch t'" using assms(2) by (simp add: later_def)
    then show ?thesis using assms(1) Some by (auto simp: sync_inv_def)
  qed
qed (use assms(1) in \<open>simp add: sync_inv_def\<close>)

lemma sync_loop_exact:
  assumes dbs: "\<And>j t. i \<le> j \<Longrightarrow> db j = Some t \<Longrightarrow> tables_inv ex t"
    and chain: "\<And>j t t'. i \<le> j \<Longrightarrow> db j = Some t \<Longrightarrow> db (Suc j) = Some t' \<Longrightarrow> later t t'"
    and start: "\<And>t. db i = Some t \<Longrightarrow> sync_inv st t"
    and res: "sync_loop n i db apply_ok st = (Inr (e, q), st')"
  shows "\<exists>j t. i \<le> j \<and> j < i + n \<and> db j = Some t \<and> e = identity_epoch t \<and> q = identity_seq t
    \<and> sync_epoch st' = Some e \<and> sync_seq st' = q \<and> map_of (sync_rows st') = override_at t
    \<and> sync_inv st' t"
  using assms
proof (induction n arbitrary: i st)
  case 0
  then show ?case by simp
next
  case (Suc n)
  obtain t where t: "db i = Some t" using Suc.prems(4) by (cases "db i") simp_all
  have inv: "tables_inv ex t" by (rule Suc.prems(1) [OF order_refl t])
  have si: "sync_inv st t" by (rule Suc.prems(3) [OF t])
  have dist: "distinct (map fst (distinct_ids t))" using inv by (simp add: tables_inv_def)
  have top: "\<forall>r \<in> set (distinct_ids t). row_seq r \<le> identity_seq t"
  proof
    fix r
    assume "r \<in> set (distinct_ids t)"
    then have "map_of (distinct_ids t) (fst (fst r), snd (fst r)) = Some (fst (snd r), row_seq r)"
      using dist by (simp add: row_seq_def map_of_eq_Some_iff)
    then show "row_seq r \<le> identity_seq t" by (rule tables_invD(4) [OF inv])
  qed
  obtain b where b: "b = overrides_since t (sync_seq st)" by simp
  note exact = overrides_since_exact [OF top b]
  have next_inv: "\<exists>j t. i \<le> j \<and> j < i + Suc n \<and> db j = Some t \<and> e = identity_epoch t \<and> q = identity_seq t
      \<and> sync_epoch st' = Some e \<and> sync_seq st' = q \<and> map_of (sync_rows st') = override_at t
      \<and> sync_inv st' t"
    if "sync_loop n (Suc i) db apply_ok st1 = (Inr (e, q), st')" "sync_inv st1 t" for st1
  proof -
    have "\<exists>j t. Suc i \<le> j \<and> j < Suc i + n \<and> db j = Some t \<and> e = identity_epoch t \<and> q = identity_seq t
        \<and> sync_epoch st' = Some e \<and> sync_seq st' = q \<and> map_of (sync_rows st') = override_at t
        \<and> sync_inv st' t"
    proof (rule Suc.IH [of "Suc i" st1, OF _ _ _ that(1)])
      show "tables_inv ex u" if "Suc i \<le> j" "db j = Some u" for j u
        using Suc.prems(1) [of j u] that by simp
      show "later u u'" if "Suc i \<le> j" "db j = Some u" "db (Suc j) = Some u'" for j u u'
        using Suc.prems(2) [of j u u'] that by simp
      show "sync_inv st1 u" if "db (Suc i) = Some u" for u
        by (rule sync_inv_later [OF \<open>sync_inv st1 t\<close>]) (rule Suc.prems(2) [OF order_refl t that])
    qed
    then show ?thesis by (metis Suc_leD add_Suc add_Suc_right)
  qed
  let ?changed = "sync_epoch st \<noteq> Some (identity_epoch t)"
  obtain st1 where st1: "st1 = (if ?changed
      then \<lparr>sync_rows = [], sync_epoch = Some (identity_epoch t), sync_seq = 0\<rparr> else st)" by simp
  have inv1: "sync_inv st1 t"
    using si st1 mirror_empty [OF inv] by (auto simp: sync_inv_def)
  show ?case
  proof (cases "?changed \<and> sync_seq st \<noteq> 0")
    case True
    then have "sync_loop n (Suc i) db apply_ok st1 = (Inr (e, q), st')"
      using Suc.prems(4) t b st1 exact(4) by (simp add: Let_def)
    then show ?thesis using next_inv inv1 by blast
  next
    case False
    have m1: "mirror_ok (sync_rows st1) (sync_seq st) t" "sync_epoch st1 = Some (identity_epoch t)"
      "sync_seq st \<le> identity_seq t"
      using False inv1 st1 by (auto simp: sync_inv_def split: if_splits)
    obtain st2 where st2: "st2 = st1\<lparr>sync_rows := (if ob_changes b = [] then sync_rows st1
        else apply_changes (ob_changes b) (sync_rows st1)), sync_seq := ob_max_seq b\<rparr>" by simp
    have m2: "mirror_ok (sync_rows st2) (ob_max_seq b) t"
      using mirror_batch [OF inv m1(1) b] st2 by simp
    have le2: "ob_max_seq b \<le> identity_seq t"
      using exact(2,3) m1(3) by (cases "ob_truncated b") simp_all
    have inv2: "sync_inv st2 t" using m1(2) m2 le2 st2 by (simp add: sync_inv_def)
    have step: "(if ob_truncated b then sync_loop n (Suc i) db apply_ok st2
        else (Inr (ob_epoch b, ob_max_seq b), st2)) = (Inr (e, q), st')"
      using Suc.prems(4) t False st1 st2 exact(4) unfolding sync_loop.simps t option.case Let_def b [symmetric]
      by (auto split: if_splits)
    show ?thesis
    proof (cases "ob_truncated b")
      case True
      then show ?thesis using step next_inv inv2 by simp
    next
      case nt: False
      have q: "ob_max_seq b = identity_seq t" using exact(3) [OF nt] m1(3) by simp
      have "map_of (sync_rows st2) k = override_at t k" for k
      proof (cases "map_of (distinct_ids t) k")
        case None
        then show ?thesis using mirror_okD(1) [OF m2] by (simp add: override_at_def)
      next
        case (Some iq)
        obtain i' q' where iq: "iq = (i', q')" by (cases iq)
        have "q' \<le> identity_seq t" using tables_invD(4) [OF inv, of "fst k" "snd k" i' q'] Some iq by simp
        then show ?thesis using mirror_okD(2) [OF m2] Some iq q by simp
      qed
      then have "map_of (sync_rows st2) = override_at t" by (intro ext)
      then show ?thesis
        using step nt q exact(4) t st2 m1(2) inv2
        by (intro exI [where x = i] exI [where x = t]) auto
    qed
  qed
qed

end
