(* ===== verification/SyncProgress.thy ===== *)
theory SyncProgress
  imports Overrides
begin

text \<open>
  \<open>IdentitySync::sync\<close> ends within its \<open>max_sync_batches\<close>: two batches cut off in a row pass over at
  least \<open>max_override_batch\<close> rows.
\<close>

definition remaining :: "tables \<Rightarrow> nat \<Rightarrow> nat" where
  "remaining t s = length (filter (\<lambda>r. s < row_seq r) (distinct_ids t))"

lemma length_filter_mono:
  "(\<And>x. P x \<Longrightarrow> Q x) \<Longrightarrow> length (filter P xs) \<le> length (filter Q xs)"
  by (induction xs) auto

lemma remaining_antimono: "s \<le> s' \<Longrightarrow> remaining t s' \<le> remaining t s"
  unfolding remaining_def by (rule length_filter_mono) simp

lemma filter_length_split:
  fixes f :: "'a \<Rightarrow> nat"
  assumes "s \<le> l"
  shows "length (filter (\<lambda>r. s < f r) xs)
    = length (filter (\<lambda>r. s < f r \<and> f r \<le> l) xs) + length (filter (\<lambda>r. l < f r) xs)"
  using assms by (induction xs) auto

lemma sorted_prefix_le:
  assumes "sorted (map f xs)" and "0 < n" and "n \<le> length xs" and "x \<in> set (take n xs)"
  shows "f x \<le> f (last (take n xs))"
proof -
  have ne: "take n xs \<noteq> []" using assms by auto
  obtain i where i: "i < length (take n xs)" "x = take n xs ! i" using assms(4) by (metis in_set_conv_nth)
  have "sorted (map f (take n xs))" using assms(1) by (metis sorted_wrt_take take_map)
  then have "map f (take n xs) ! i \<le> map f (take n xs) ! (length (take n xs) - 1)"
    using i(1) by (intro sorted_nth_mono) auto
  moreover have "map f (take n xs) ! i = f x" using i by (metis nth_map)
  moreover have "map f (take n xs) ! (length (take n xs) - 1) = f (last (take n xs))"
    using ne by (metis diff_less last_conv_nth length_greater_0_conv nth_map zero_less_one)
  ultimately show ?thesis by simp
qed

lemma prefix_count:
  assumes "\<forall>x \<in> set (take n (sort_key f xs)). P x"
  shows "length (take n (sort_key f xs)) \<le> length (filter P xs)"
proof -
  have "length (take n (sort_key f xs)) = length (filter P (take n (sort_key f xs)))"
    using assms by simp
  also have "\<dots> \<le> length (filter P (sort_key f xs))"
    by (metis append_take_drop_id filter_append le_add1 length_append)
  also have "\<dots> = size (filter_mset P (mset (sort_key f xs)))" by (metis mset_filter size_mset)
  finally show ?thesis by (metis mset_filter mset_sort size_mset)
qed

text \<open>A batch cut off comes within one sequence number of the row that cut it.\<close>

lemma overrides_since_cut:
  assumes top: "\<forall>r \<in> set (distinct_ids t). row_seq r \<le> identity_seq t"
    and tr: "ob_truncated (overrides_since t s)"
  shows "\<exists>l. l \<le> Suc (ob_max_seq (overrides_since t s))
    \<and> max_override_batch \<le> length (filter (\<lambda>r. s < row_seq r \<and> row_seq r \<le> l) (distinct_ids t))"
proof -
  let ?F = "filter (\<lambda>r. s < row_seq r \<and> row_seq r \<le> identity_seq t) (distinct_ids t)"
  let ?R = "sort_key row_seq ?F"
  let ?C = "take max_override_batch ?R"
  let ?l = "row_seq (last ?C)"
  have pos: "0 < max_override_batch" by (simp add: max_override_batch_def)
  have takes: "take max_override_batch (take (max_override_batch + 1) ?R) = ?C"
    by (simp only: take_take) simp
  have trunc: "max_override_batch < length (take (max_override_batch + 1) ?R) \<longleftrightarrow> max_override_batch < length ?R"
    by auto
  have long: "max_override_batch < length ?R"
  proof (rule ccontr)
    assume "\<not> max_override_batch < length ?R"
    then have "ob_truncated (overrides_since t s) = False"
      unfolding overrides_since_def Let_def takes trunc by simp
    then show False using tr by blast
  qed
  then have lenC: "length ?C = max_override_batch" by simp
  then have ne: "?C \<noteq> []" using pos by force
  have cut: "?l \<le> Suc (ob_max_seq (overrides_since t s))"
  proof -
    have "if list_ex (\<lambda>r. row_seq r < ?l) ?C then ob_max_seq (overrides_since t s) = ?l - 1
        else ob_max_seq (overrides_since t s) = ?l"
      unfolding overrides_since_def Let_def takes trunc using long ne by (simp only: if_True if_False split: if_split) simp
    then show ?thesis by (simp split: if_splits)
  qed
  have all: "\<forall>r \<in> set ?C. s < row_seq r \<and> row_seq r \<le> ?l"
  proof
    fix r
    assume r: "r \<in> set ?C"
    have "row_seq r \<le> ?l"
      by (rule sorted_prefix_le [OF _ pos _ r]) (use long in simp_all)
    moreover have "r \<in> set ?R" by (rule in_set_takeD [OF r])
    ultimately show "s < row_seq r \<and> row_seq r \<le> ?l" unfolding set_sort set_filter by blast
  qed
  have "max_override_batch \<le> length (filter (\<lambda>r. s < row_seq r \<and> row_seq r \<le> ?l) ?F)"
    using prefix_count [OF all] unfolding lenC .
  also have "\<dots> \<le> length (filter (\<lambda>r. s < row_seq r \<and> row_seq r \<le> ?l) (distinct_ids t))"
    unfolding filter_filter by (rule length_filter_mono) blast
  finally show ?thesis using cut by blast
qed

lemma two_batches:
  assumes top: "\<forall>r \<in> set (distinct_ids t). row_seq r \<le> identity_seq t"
    and tr: "ob_truncated (overrides_since t s)" and m: "m = ob_max_seq (overrides_since t s)"
    and tr': "ob_truncated (overrides_since t m)" and m': "m' = ob_max_seq (overrides_since t m)"
  shows "remaining t m' + max_override_batch \<le> remaining t s"
proof -
  obtain l where l: "l \<le> Suc m"
    "max_override_batch \<le> length (filter (\<lambda>r. s < row_seq r \<and> row_seq r \<le> l) (distinct_ids t))"
    using overrides_since_cut [OF top tr] m by blast
  have "m < m'" using overrides_since_exact(2) [OF top refl] tr' m' by simp
  then have "l \<le> m'" using l(1) by linarith
  have "s < m" using overrides_since_exact(2) [OF top refl] tr m by simp
  then have sm: "s \<le> m'" using \<open>m < m'\<close> by linarith
  have "length (filter (\<lambda>r. s < row_seq r \<and> row_seq r \<le> l) (distinct_ids t))
      \<le> length (filter (\<lambda>r. s < row_seq r \<and> row_seq r \<le> m') (distinct_ids t))"
    using \<open>l \<le> m'\<close> by (intro length_filter_mono) linarith
  then show ?thesis
    using l(2) filter_length_split [OF sm, of row_seq "distinct_ids t"] unfolding remaining_def by linarith
qed

lemma truncated_many:
  assumes "ob_truncated (overrides_since t s)"
  shows "max_override_batch < remaining t s"
proof (rule ccontr)
  let ?F = "filter (\<lambda>r. s < row_seq r \<and> row_seq r \<le> identity_seq t) (distinct_ids t)"
  let ?R = "take (max_override_batch + 1) (sort_key row_seq ?F)"
  assume "\<not> max_override_batch < remaining t s"
  moreover have "length ?F \<le> remaining t s" unfolding remaining_def by (rule length_filter_mono) blast
  ultimately have "\<not> max_override_batch < length ?R" by simp
  then have "ob_truncated (overrides_since t s) = False"
    unfolding overrides_since_def Let_def by simp
  then show False using assms by blast
qed

section \<open>One iteration\<close>

lemma sync_loop_iteration:
  assumes db: "db i = Some t" "apply_ok i" and ep: "sync_epoch st = Some (identity_epoch t)"
  shows "ob_truncated (overrides_since t (sync_seq st)) \<Longrightarrow>
      \<exists>st2. sync_loop (Suc n) i db apply_ok st = sync_loop n (Suc i) db apply_ok st2
        \<and> sync_epoch st2 = Some (identity_epoch t)
        \<and> sync_seq st2 = ob_max_seq (overrides_since t (sync_seq st))"
    and "\<not> ob_truncated (overrides_since t (sync_seq st)) \<Longrightarrow>
      \<exists>st2 s2. sync_loop (Suc n) i db apply_ok st = (Inr (identity_epoch t, s2), st2)"
proof -
  have e: "ob_epoch (overrides_since t s) = identity_epoch t" for s
    by (simp add: overrides_since_def Let_def)
  show "\<exists>st2. sync_loop (Suc n) i db apply_ok st = sync_loop n (Suc i) db apply_ok st2
        \<and> sync_epoch st2 = Some (identity_epoch t)
        \<and> sync_seq st2 = ob_max_seq (overrides_since t (sync_seq st))"
    if "ob_truncated (overrides_since t (sync_seq st))"
    by (rule exI [where x = "st\<lparr>sync_rows := (if ob_changes (overrides_since t (sync_seq st)) = []
          then sync_rows st else apply_changes (ob_changes (overrides_since t (sync_seq st))) (sync_rows st)),
          sync_seq := ob_max_seq (overrides_since t (sync_seq st))\<rparr>"])
      (use that db ep in \<open>simp add: Let_def e\<close>)
  show "\<exists>st2 s2. sync_loop (Suc n) i db apply_ok st = (Inr (identity_epoch t, s2), st2)"
    if "\<not> ob_truncated (overrides_since t (sync_seq st))"
    using that db ep by (simp add: Let_def e)
qed

lemma sync_loop_converges:
  assumes top: "\<forall>r \<in> set (distinct_ids t). row_seq r \<le> identity_seq t"
    and db: "\<forall>j. db j = Some t" "\<forall>j. apply_ok j"
    and "sync_epoch st = Some (identity_epoch t)"
    and "remaining t (sync_seq st) \<le> Suc k * max_override_batch"
  shows "\<exists>st' s. sync_loop (Suc (2 * k)) i db apply_ok st = (Inr (identity_epoch t, s), st')"
  using assms(4,5)
proof (induction k arbitrary: i st)
  case 0
  then have "\<not> ob_truncated (overrides_since t (sync_seq st))" using truncated_many by force
  from sync_loop_iteration(2) [of db i t apply_ok, OF db(1) [rule_format] db(2) [rule_format] 0(1) this, of 0]
  show ?case unfolding mult_0_right by blast
next
  case (Suc k)
  have eq: "Suc (2 * Suc k) = Suc (Suc (Suc (2 * k)))" by simp
  note step = sync_loop_iteration [of db _ t apply_ok, OF db(1) [rule_format] db(2) [rule_format]]
  show ?case
  proof (cases "ob_truncated (overrides_since t (sync_seq st))")
    case False
    from step(2) [OF Suc.prems(1) False, of "Suc (Suc (2 * k))" i] show ?thesis unfolding eq by blast
  next
    case tr: True
    obtain st2 where st2: "sync_loop (Suc (Suc (Suc (2 * k)))) i db apply_ok st
        = sync_loop (Suc (Suc (2 * k))) (Suc i) db apply_ok st2"
      "sync_epoch st2 = Some (identity_epoch t)"
      "sync_seq st2 = ob_max_seq (overrides_since t (sync_seq st))"
      using step(1) [OF Suc.prems(1) tr, of "Suc (Suc (2 * k))" i] by blast
    show ?thesis
    proof (cases "ob_truncated (overrides_since t (sync_seq st2))")
      case False
      from step(2) [OF st2(2) this, of "Suc (2 * k)" "Suc i"] show ?thesis unfolding eq st2(1) by blast
    next
      case True
      obtain st3 where st3: "sync_loop (Suc (Suc (2 * k))) (Suc i) db apply_ok st2
          = sync_loop (Suc (2 * k)) (Suc (Suc i)) db apply_ok st3"
        "sync_epoch st3 = Some (identity_epoch t)"
        "sync_seq st3 = ob_max_seq (overrides_since t (sync_seq st2))"
        using step(1) [OF st2(2) True, of "Suc (2 * k)" "Suc i"] by blast
      have "remaining t (sync_seq st3) + max_override_batch \<le> remaining t (sync_seq st)"
        using two_batches [OF top tr st2(3) True st3(3)] .
      then have "remaining t (sync_seq st3) \<le> Suc k * max_override_batch" using Suc.prems(2) by simp
      from Suc.IH [OF st3(2) this] show ?thesis unfolding eq st2(1) st3(1) .
    qed
  qed
qed

lemma sync_converges:
  assumes top: "\<forall>r \<in> set (distinct_ids t). row_seq r \<le> identity_seq t"
    and db: "\<forall>j. db j = Some t" "\<forall>j. apply_ok j"
    and few: "remaining t 0 \<le> 500 * max_override_batch"
  shows "\<exists>st' s. sync db apply_ok st = (Inr (identity_epoch t, s), st')"
proof -
  have fuel: "max_sync_batches = Suc (Suc (2 * 499))" by (simp add: max_sync_batches_def)
  have few': "remaining t s \<le> Suc 499 * max_override_batch" for s
    using few remaining_antimono [of 0 s t] by simp
  have e: "ob_epoch (overrides_since t s) = identity_epoch t" for s
    by (simp add: overrides_since_def Let_def)
  have full: "\<exists>st' s. sync_loop (Suc (Suc (2 * 499))) 0 db apply_ok st0 = (Inr (identity_epoch t, s), st')"
    if ep: "sync_epoch st0 = Some (identity_epoch t)" for st0
  proof (cases "ob_truncated (overrides_since t (sync_seq st0))")
    case True
    then obtain st2 where "sync_loop (Suc (Suc (2 * 499))) 0 db apply_ok st0
        = sync_loop (Suc (2 * 499)) (Suc 0) db apply_ok st2" "sync_epoch st2 = Some (identity_epoch t)"
      using sync_loop_iteration(1) [of db 0 t apply_ok st0 "Suc (2 * 499)"] db ep by blast
    then show ?thesis using sync_loop_converges [OF top db _ few', of st2 "Suc 0"] by (simp only:)
  next
    case False
    then show ?thesis using sync_loop_iteration(2) [of db 0 t apply_ok st0 "Suc (2 * 499)"] db ep by blast
  qed
  let ?st1 = "\<lparr>sync_rows = [], sync_epoch = Some (identity_epoch t), sync_seq = 0\<rparr>"
  show ?thesis
  proof (cases "sync_epoch st = Some (identity_epoch t)")
    case True
    then show ?thesis unfolding sync_def fuel by (rule full)
  next
    case False
    show ?thesis
    proof (cases "sync_seq st = 0")
      case True
      have "sync_loop (Suc n) 0 db apply_ok st = sync_loop (Suc n) 0 db apply_ok ?st1" for n
        using False True db by (simp add: e)
      then show ?thesis unfolding sync_def fuel using full [of ?st1] by (simp only: identity_sync.simps)
    next
      case nz: False
      have "sync_loop (Suc n) 0 db apply_ok st = sync_loop n (Suc 0) db apply_ok ?st1" for n
        using False nz db by (simp add: e)
      then show ?thesis unfolding sync_def fuel
        using sync_loop_converges [OF top db _ few', of ?st1 "Suc 0"] by (simp only: identity_sync.simps)
    qed
  qed
qed

end
