(* ===== verification/IdentityProperties.thy ===== *)
theory IdentityProperties
  imports SyncProgress
begin

text \<open>
  What the identity projection and the override feed guarantee, each theorem applied at concrete
  tables and events. The JSON printer and parser of the instances are those of \<open>SampleJson\<close>.
\<close>

section \<open>Concrete tables and events\<close>

definition sample_externals :: externals where
  "sample_externals = \<lparr>to_string = sample_to_string, from_str = sample_from_str,
     number_text = (\<lambda>n. ''0''), rfc3339 = (\<lambda>t. replicate (nat t) (CHR ''1'')),
     format_micros = (\<lambda>t. replicate (nat t) (CHR ''1'')), timestamp_millis = (\<lambda>t. t div 1000000)\<rparr>"

lemma sample_externals_ok [simp]: "json_ok sample_externals"
  by (auto simp: json_ok_def sample_externals_def sample_json_ok map_of_clearjunk)

definition sample_person :: person where
  "sample_person = \<lparr>p_created_at = ''1'', p_identified = True, p_properties = ''{}'',
     p_first_seen_key = ''u'', p_last_seen = None\<rparr>"

definition sample_tables :: tables where
  "sample_tables = \<lparr>persons = [((''p'', ''u''), sample_person)],
     distinct_ids = [((''p'', ''u''), ''u'', 0), ((''p'', ''a''), ''u'', 1)],
     identity_seq = 1, identity_epoch = 0, pending = [],
     groups = [], event_names = [], property_keys = [], property_values = []\<rparr>"

lemma sample_tables_inv [simp]: "tables_inv sample_externals sample_tables"
proof -
  have "decodable sample_externals ''{}''"
    by (simp add: decodable_def decode_properties_def sample_externals_def sample_json_ok)
  then show ?thesis by (auto simp: tables_inv_def sample_tables_def sample_person_def split: if_splits)
qed

definition sample_identify :: captured_event where
  "sample_identify = \<lparr>uuid = 1, event = ''$identify'', distinct_id = ''u'', token = ''t'', timestamp = 2,
     properties = [(''$anon_distinct_id'', String ''b'')]\<rparr>"

definition sample_set :: captured_event where
  "sample_set = \<lparr>uuid = 2, event = ''$set'', distinct_id = ''a'', token = ''t'', timestamp = 3,
     properties = [(''$set'', Object [(''k'', Bool True)]), (''$unset'', Array [String ''l''])]\<rparr>"

section \<open>Properties\<close>

text \<open>C10: No sequence of events can make the projection fail: from tables that satisfy the invariant
  every event with a nonblank project is applied, and the invariant holds again (every distinct id
  belongs to an existing person, every person owns its own id with sequence number 0, an id has a
  sequence number exactly when it belongs to another one, no sequence number is above the counter,
  stored properties decode). The override feed only grows: the epoch stays, and a row changes only
  by getting a new, higher sequence number.\<close>

theorem identity_events_total:
  assumes "json_ok ex" and "tables_inv ex t" and "\<forall>(pr, ev) \<in> set evs. trim pr \<noteq> []"
  shows "\<exists>t'. apply_events ex evs t = Inr t' \<and> tables_inv ex t' \<and> feed_step t t'"
  by (rule apply_events_ok [OF assms])

theorem identity_events_total_witness:
  "\<exists>t'. apply_events sample_externals [(''p'', sample_identify), (''p'', sample_set)] empty_tables = Inr t'
     \<and> tables_inv sample_externals t' \<and> feed_step empty_tables t'"
  by (rule identity_events_total) (simp_all add: empty_tables_inv trim_empty_iff is_ws_def white_space_def)

text \<open>C11: An event changes to which person distinct ids resolve in one way only: an \<open>$identify\<close>,
  \<open>$create_alias\<close> or \<open>$merge_dangerously\<close> that names another id, whose guards admit the merge, sends
  every id of the losing person to the winning one. All other ids of the project, all other
  projects, and all other events keep their resolution. An identified person is never the loser of
  an \<open>$identify\<close>, and two identified persons are merged by \<open>$merge_dangerously\<close> only.\<close>

theorem identity_resolution:
  assumes "tables_inv ex t" and "json_ok ex" and "apply_identity ex pr ev t = Inr t'"
  shows "resolve t' q d =
    (case event_choice t pr ev of None \<Rightarrow> resolve t q d
     | Some (loser, winner) \<Rightarrow> if q = pr \<and> resolve t pr d = loser then winner else resolve t q d)"
  by (rule apply_identity_resolve [OF assms])

theorem identity_resolution_witness:
  "\<exists>t'. apply_identity sample_externals ''p'' sample_identify sample_tables = Inr t'
     \<and> resolve t' ''p'' ''b'' = ''u'' \<and> resolve t' ''p'' ''c'' = ''c''"
proof -
  obtain t' where t': "apply_identity sample_externals ''p'' sample_identify sample_tables = Inr t'"
    using apply_identity_ok [OF sample_tables_inv sample_externals_ok] by metis
  have "event_choice sample_tables ''p'' sample_identify = Some (''b'', ''u'')"
    by (simp add: event_choice_def merge_of_event_def other_id_def get_str_def merge_choice_def
        identified_def resolve_def sample_tables_def sample_identify_def)
  then have "resolve t' ''p'' d = (if resolve sample_tables ''p'' d = ''b'' then ''u'' else resolve sample_tables ''p'' d)" for d
    using identity_resolution [OF sample_tables_inv sample_externals_ok t', of "''p''" d] by simp
  then show ?thesis using t' by (auto simp: resolve_def sample_tables_def)
qed

text \<open>An event that is not a merge leaves the person of its distinct id with these properties:
  \<open>$unset\<close> removes a key whatever else the event says, then \<open>$set\<close> wins over the stored value, and the
  stored value wins over \<open>$set_once\<close>. A new person starts from no properties.\<close>

theorem identity_property_precedence:
  assumes "tables_inv ex t" and "json_ok ex" and "merge_of_event ev = None"
    and "objects_distinct ev" and "apply_identity ex pr ev t = Inr t'"
  shows "props_of ex t' pr (resolve t pr (distinct_id ev)) = Some (updated_properties ev
    (case props_of ex t pr (resolve t pr (distinct_id ev)) of None \<Rightarrow> Map.empty | Some m \<Rightarrow> m))"
  by (rule plain_event_properties [OF assms])

theorem identity_property_precedence_witness:
  "\<exists>t' m. apply_identity sample_externals ''p'' sample_set sample_tables = Inr t'
     \<and> props_of sample_externals t' ''p'' ''u'' = Some m \<and> m ''k'' = Some (Bool True) \<and> m ''l'' = None"
proof -
  obtain t' where t': "apply_identity sample_externals ''p'' sample_set sample_tables = Inr t'"
    using apply_identity_ok [OF sample_tables_inv sample_externals_ok] by metis
  have "resolve sample_tables ''p'' (distinct_id sample_set) = ''u''"
    by (simp add: resolve_def sample_tables_def sample_set_def)
  moreover have "merge_of_event sample_set = None" "objects_distinct sample_set"
    by (simp_all add: merge_of_event_def objects_distinct_def event_object_def sample_set_def)
  ultimately have "props_of sample_externals t' ''p'' ''u'' = Some (updated_properties sample_set
      (case props_of sample_externals sample_tables ''p'' ''u'' of None \<Rightarrow> Map.empty | Some m \<Rightarrow> m))"
    using identity_property_precedence [OF sample_tables_inv sample_externals_ok _ _ t'] by metis
  moreover have "updated_properties sample_set old ''k'' = Some (Bool True)"
    "updated_properties sample_set old ''l'' = None" for old
    by (simp_all add: updated_properties_def event_object_def event_unset_def sample_set_def map_add_def)
  ultimately show ?thesis using t' by blast
qed


text \<open>C23: While nothing changes and the database works, a sync ends well from any state of the
  mirror, if at most fifty million ids have an owner other than themselves: the loop needs no more
  than its \<open>max_sync_batches\<close> iterations.\<close>

theorem identity_sync_converges:
  assumes "tables_inv ex t" and "\<forall>j. db j = Some t" and "\<forall>j. apply_ok j"
    and "length (filter (\<lambda>r. 0 < row_seq r) (distinct_ids t)) \<le> 50000000"
  shows "\<exists>st' s. sync db apply_ok st = (Inr (identity_epoch t, s), st')"
proof (rule sync_converges [OF _ assms(2,3)])
  have dist: "distinct (map fst (distinct_ids t))" using assms(1) by (simp add: tables_inv_def)
  show "\<forall>r \<in> set (distinct_ids t). row_seq r \<le> identity_seq t"
  proof
    fix r
    assume "r \<in> set (distinct_ids t)"
    then have "map_of (distinct_ids t) (fst (fst r), snd (fst r)) = Some (fst (snd r), row_seq r)"
      using dist by (simp add: row_seq_def map_of_eq_Some_iff)
    then show "row_seq r \<le> identity_seq t" by (rule tables_invD(4) [OF assms(1)])
  qed
  show "remaining t 0 \<le> 500 * max_override_batch"
    using assms(4) by (simp add: remaining_def max_override_batch_def)
qed

theorem identity_sync_converges_witness:
  "\<exists>st' s. sync (\<lambda>_. Some sample_tables) (\<lambda>_. True) sync_new = (Inr (0, s), st')"
proof -
  have "\<exists>st' s. sync (\<lambda>_. Some sample_tables) (\<lambda>_. True) sync_new = (Inr (identity_epoch sample_tables, s), st')"
    by (rule identity_sync_converges [OF sample_tables_inv]) (simp_all add: sample_tables_def row_seq_def)
  then show ?thesis by (simp add: sample_tables_def)
qed


text \<open>C24: Erasing a person removes the person and its distinct ids and nothing else, and returns
  and queues every one of its ids for the erasure of their events, keeping what was queued. The
  epoch and the counter go up, so that mirrors reload, and the invariant holds again.\<close>

theorem identity_erasure:
  assumes "tables_inv ex t" and "erase_person pr i t = (ids, t')"
  shows "(d \<in> set ids \<longleftrightarrow> (\<exists>s. map_of (distinct_ids t) (pr, d) = Some (i, s)))
    \<and> map_of (distinct_ids t') (q, d) =
        (case map_of (distinct_ids t) (q, d) of None \<Rightarrow> None
         | Some (j, s) \<Rightarrow> if q = pr \<and> j = i then None else Some (j, s))
    \<and> map_of (persons t') = (map_of (persons t))((pr, i) := None)
    \<and> set (pending t') = set (pending t) \<union> (\<lambda>d. (pr, d)) ` set ids
    \<and> identity_epoch t' = Suc (identity_epoch t) \<and> tables_inv ex t'"
  using erase_person_rows [OF assms] erase_person_inv [OF assms] by simp

theorem identity_erasure_witness:
  "pending (snd (erase_person ''p'' ''u'' sample_tables)) \<noteq> []
   \<and> map_of (persons (snd (erase_person ''p'' ''u'' sample_tables))) (''p'', ''u'') = None"
proof -
  obtain ids t' where e: "erase_person ''p'' ''u'' sample_tables = (ids, t')" by fastforce
  note r = identity_erasure [OF sample_tables_inv e, of "''a''" "''p''"]
  then have "''a'' \<in> set ids" by (simp add: sample_tables_def)
  then show ?thesis using r e by auto
qed

end
