(* ===== verification/Catalog.thy ===== *)
theory Catalog
  imports IdentityProperties
begin

text \<open>
  The catalog of event names, property keys and property values, the second half of
  \<open>src/projections.rs\<close>: \<open>CatalogBatch\<close> adds up the effects of a publication window in memory and
  writes each row once. The batch's hash maps are association lists; their order stands for the
  order in which the code happens to iterate over them. Row counts are unbounded here (\<open>i64\<close>).
\<close>

section \<open>A batch\<close>

definition max_values_per_key :: nat where
  "max_values_per_key = 500"

definition max_catalog_value_chars :: nat where
  "max_catalog_value_chars = 200"

definition uncatalogued_value_keys :: "string list" where
  "uncatalogued_value_keys =
     [''$session_id'', ''$window_id'', ''$insert_id'', ''$pageview_id'', ''$device_id'',
      ''$anon_distinct_id'', ''$ai_trace_id'', ''$ai_span_id'', ''$ai_generation_id'', ''$time'',
      ''$sent_at'', ''token'', ''distinct_id'', ''$set'', ''$set_once'', ''$unset'', ''$groups'',
      ''$elements'', ''$elements_chain'']"

record seen =
  seen_count :: nat
  last_seen :: int

definition seen_default :: seen where
  "seen_default = \<lparr>seen_count = 0, last_seen = 0\<rparr>"

record catalog_batch =
  cb_names :: "((string \<times> string) \<times> seen) list"
  cb_keys :: "((string \<times> string) \<times> seen \<times> string) list"
  cb_values :: "((string \<times> string \<times> string) \<times> seen) list"

definition catalog_batch_default :: catalog_batch where
  "catalog_batch_default = \<lparr>cb_names = [], cb_keys = [], cb_values = []\<rparr>"

fun value_type :: "json \<Rightarrow> string" where
  "value_type Null = ''null''"
| "value_type (Bool _) = ''boolean''"
| "value_type (Number _) = ''number''"
| "value_type (String _) = ''string''"
| "value_type (Array _) = ''array''"
| "value_type (Object _) = ''object''"

definition value_text :: "externals \<Rightarrow> json \<Rightarrow> string" where
  "value_text ex v =
     (case v of
        String s \<Rightarrow> s
      | Bool b \<Rightarrow> if b then ''true'' else ''false''
      | Number n \<Rightarrow> number_text ex n
      | Null \<Rightarrow> ''''
      | _ \<Rightarrow> to_string ex v)"

definition bump :: "int \<Rightarrow> seen \<Rightarrow> seen" where
  "bump ms s = \<lparr>seen_count = seen_count s + 1, last_seen = max (last_seen s) ms\<rparr>"

definition bump_entry :: "'k \<Rightarrow> int \<Rightarrow> ('k \<times> seen) list \<Rightarrow> ('k \<times> seen) list" where
  "bump_entry k ms m = AList.update k (bump ms (case map_of m k of None \<Rightarrow> seen_default | Some s \<Rightarrow> s)) m"

definition bump_key :: "'k \<Rightarrow> int \<Rightarrow> string \<Rightarrow> ('k \<times> seen \<times> string) list \<Rightarrow> ('k \<times> seen \<times> string) list" where
  "bump_key k ms ty m =
     AList.update k (bump ms (case map_of m k of None \<Rightarrow> seen_default | Some (s, _) \<Rightarrow> s), ty) m"

definition uncatalogued :: "string \<Rightarrow> json \<Rightarrow> bool" where
  "uncatalogued k v \<longleftrightarrow>
     (case v of Null \<Rightarrow> True | Object _ \<Rightarrow> True | Array _ \<Rightarrow> True | _ \<Rightarrow> k \<in> set uncatalogued_value_keys)"

definition add_property ::
  "externals \<Rightarrow> string \<Rightarrow> int \<Rightarrow> string \<times> json \<Rightarrow> catalog_batch \<Rightarrow> catalog_batch" where
  "add_property ex pr ms kv b =
     (let (k, v) = kv;
          b1 = b\<lparr>cb_keys := bump_key (pr, k) ms (value_type v) (cb_keys b)\<rparr> in
      if uncatalogued k v then b1
      else (let text = value_text ex v in
        if max_catalog_value_chars < length (utf8_chars text) then b1
        else b1\<lparr>cb_values := bump_entry (pr, k, text) ms (cb_values b1)\<rparr>))"

definition batch_add :: "externals \<Rightarrow> string \<Rightarrow> captured_event \<Rightarrow> catalog_batch \<Rightarrow> catalog_batch" where
  "batch_add ex pr ev b =
     (let ms = timestamp_millis ex (timestamp ev) in
      fold (add_property ex pr ms) (properties ev)
        (b\<lparr>cb_names := bump_entry (pr, event ev) ms (cb_names b)\<rparr>))"

section \<open>Writing it\<close>

definition upsert_seen :: "'k \<Rightarrow> seen \<Rightarrow> ('k \<times> int \<times> nat) list \<Rightarrow> ('k \<times> int \<times> nat) list" where
  "upsert_seen k s rows =
     AList.update k
       (case map_of rows k of
          None \<Rightarrow> (last_seen s, seen_count s)
        | Some (l, c) \<Rightarrow> (max l (last_seen s), c + seen_count s)) rows"

definition upsert_key ::
  "'k \<Rightarrow> seen \<times> string \<Rightarrow> ('k \<times> string \<times> int \<times> nat) list \<Rightarrow> ('k \<times> string \<times> int \<times> nat) list" where
  "upsert_key k e rows =
     AList.update k
       (snd e, case map_of rows k of
          None \<Rightarrow> (last_seen (fst e), seen_count (fst e))
        | Some (_, l, c) \<Rightarrow> (max l (last_seen (fst e)), c + seen_count (fst e))) rows"

definition cardinality :: "((string \<times> string \<times> string) \<times> 'a) list \<Rightarrow> string \<Rightarrow> string \<Rightarrow> nat" where
  "cardinality rows pr k = length (filter (\<lambda>((p, k', _), _). p = pr \<and> k' = k) rows)"

type_synonym value_rows = "((string \<times> string \<times> string) \<times> int \<times> nat) list"

definition flush_value ::
  "(string \<times> string \<times> string) \<times> seen \<Rightarrow> ((string \<times> string) \<times> nat) list \<times> value_rows \<Rightarrow>
    ((string \<times> string) \<times> nat) list \<times> value_rows" where
  "flush_value e st =
     (let ((pr, k, v), s) = e; (sizes, rows) = st in
      if map_of rows (pr, k, v) \<noteq> None then (sizes, upsert_seen (pr, k, v) s rows)
      else
        (let n = (case map_of sizes (pr, k) of Some n \<Rightarrow> n | None \<Rightarrow> cardinality rows pr k) in
         if max_values_per_key \<le> n then (sizes, rows)
         else (AList.update (pr, k) (n + 1) sizes, upsert_seen (pr, k, v) s rows)))"

definition flush_values :: "((string \<times> string \<times> string) \<times> seen) list \<Rightarrow> value_rows \<Rightarrow> value_rows" where
  "flush_values vs rows =
     snd (fold flush_value (sort_key (\<lambda>(_, s). - int (seen_count s)) vs) ([], rows))"

definition batch_flush :: "catalog_batch \<Rightarrow> tables \<Rightarrow> tables" where
  "batch_flush b t =
     t\<lparr>event_names := fold (\<lambda>(k, s). upsert_seen k s) (cb_names b) (event_names t),
       property_keys := fold (\<lambda>((pr, k), e). upsert_key (pr, ''event'', k) e) (cb_keys b) (property_keys t),
       property_values := flush_values (cb_values b) (property_values t)\<rparr>"

definition apply_catalog :: "externals \<Rightarrow> string \<Rightarrow> captured_event \<Rightarrow> tables \<Rightarrow> tables" where
  "apply_catalog ex pr ev t = batch_flush (batch_add ex pr ev catalog_batch_default) t"

definition apply_captured_event ::
  "externals \<Rightarrow> string \<Rightarrow> captured_event \<Rightarrow> tables \<Rightarrow> projection_error + tables" where
  "apply_captured_event ex pr ev t =
     (if trim pr = [] then Inl InvalidProjectId
      else and_then (apply_identity ex pr ev t) (\<lambda>t1. Inr (apply_catalog ex pr ev t1)))"

section \<open>The cap on values\<close>

lemma cardinality_upsert:
  "cardinality (upsert_seen key s rows) pr k =
     cardinality rows pr k + (if map_of rows key = None \<and> fst key = pr \<and> fst (snd key) = k then 1 else 0)"
proof -
  have "cardinality (AList.update key x rows) pr k =
      cardinality rows pr k + (if map_of rows key = None \<and> fst key = pr \<and> fst (snd key) = k then 1 else 0)" for x
    unfolding cardinality_def by (induction rows) (auto split: prod.splits)
  then show ?thesis by (simp add: upsert_seen_def)
qed

text \<open>The remembered sizes are the cardinalities of the table as it grows.\<close>

definition sizes_ok :: "((string \<times> string) \<times> nat) list \<Rightarrow> value_rows \<Rightarrow> bool" where
  "sizes_ok sizes rows \<longleftrightarrow> (\<forall>pr k n. map_of sizes (pr, k) = Some n \<longrightarrow> n = cardinality rows pr k)"

text \<open>The reference: one value at a time, counting the rows each time.\<close>

definition put_value :: "(string \<times> string \<times> string) \<times> seen \<Rightarrow> value_rows \<Rightarrow> value_rows" where
  "put_value e rows =
     (if map_of rows (fst e) = None \<and> max_values_per_key \<le> cardinality rows (fst (fst e)) (fst (snd (fst e)))
      then rows else upsert_seen (fst e) (snd e) rows)"

lemma flush_value_put:
  assumes "sizes_ok sizes rows"
  shows "snd (flush_value e (sizes, rows)) = put_value e rows"
    and "sizes_ok (fst (flush_value e (sizes, rows))) (snd (flush_value e (sizes, rows)))"
proof -
  obtain pr k v s where e: "e = ((pr, k, v), s)" by (metis prod.collapse)
  have size: "(case map_of sizes (pr, k) of Some n \<Rightarrow> n | None \<Rightarrow> cardinality rows pr k) = cardinality rows pr k"
    using assms by (auto simp: sizes_ok_def split: option.splits)
  show "snd (flush_value e (sizes, rows)) = put_value e rows"
    by (simp add: flush_value_def put_value_def e Let_def size)
  show "sizes_ok (fst (flush_value e (sizes, rows))) (snd (flush_value e (sizes, rows)))"
    using assms unfolding sizes_ok_def flush_value_def e Let_def prod.case size
    by (auto simp: cardinality_upsert alist_simps)
qed

lemma flush_values_put: "sizes_ok sizes rows \<Longrightarrow> snd (fold flush_value vs (sizes, rows)) = fold put_value vs rows"
proof (induction vs arbitrary: sizes rows)
  case (Cons v vs)
  obtain sizes' rows' where f: "flush_value v (sizes, rows) = (sizes', rows')" by fastforce
  then show ?case using flush_value_put [OF Cons.prems, of v] Cons.IH [of sizes' rows'] by simp
qed simp

lemma flush_values_reference:
  "flush_values vs rows = fold put_value (sort_key (\<lambda>(_, s). - int (seen_count s)) vs) rows"
  unfolding flush_values_def by (rule flush_values_put) (simp add: sizes_ok_def)

lemma put_value_bounded:
  "cardinality (put_value e rows) pr k \<le> max max_values_per_key (cardinality rows pr k)"
  by (auto simp: put_value_def cardinality_upsert)

lemma put_values_bounded:
  "cardinality (fold put_value vs rows) pr k \<le> max max_values_per_key (cardinality rows pr k)"
proof (induction vs arbitrary: rows)
  case (Cons v vs)
  have "cardinality (fold put_value vs (put_value v rows)) pr k
      \<le> max max_values_per_key (cardinality (put_value v rows) pr k)" by (rule Cons.IH)
  also have "\<dots> \<le> max max_values_per_key (cardinality rows pr k)"
    using put_value_bounded [of v rows pr k] by simp
  finally show ?case by simp
qed simp

text \<open>A value the table knows is always counted.\<close>

lemma put_value_known:
  "map_of rows k = Some (l, c) \<Longrightarrow>
   map_of (put_value e rows) k = Some (if fst e = k then (max l (last_seen (snd e)), c + seen_count (snd e)) else (l, c))"
  by (auto simp: put_value_def upsert_seen_def alist_simps)

lemma put_values_known:
  assumes "distinct (map fst vs)" and "map_of rows k = Some (l, c)"
  shows "map_of (fold put_value vs rows) k = Some (case map_of vs k of None \<Rightarrow> (l, c)
    | Some s \<Rightarrow> (max l (last_seen s), c + seen_count s))"
  using assms
proof (induction vs arbitrary: rows l c)
  case (Cons v vs)
  obtain lc where lc: "map_of (put_value v rows) k = Some lc"
    "lc = (if fst v = k then (max l (last_seen (snd v)), c + seen_count (snd v)) else (l, c))"
    using put_value_known [OF Cons.prems(2)] by simp
  have none: "fst v = k \<Longrightarrow> map_of vs k = None" using Cons.prems(1) by (auto simp: map_of_eq_None_iff)
  show ?case
    using Cons.IH [of "put_value v rows" "fst lc" "snd lc"] lc Cons.prems(1) none
    by (cases v) (auto split: option.splits if_splits)
qed simp

section \<open>A batch is the same as its events one by one\<close>

text \<open>The effect of one sighting on a row.\<close>

definition note_name :: "'k \<Rightarrow> int \<Rightarrow> ('k \<times> int \<times> nat) list \<Rightarrow> ('k \<times> int \<times> nat) list" where
  "note_name k ms = upsert_seen k (bump ms seen_default)"

definition note_key :: "'k \<Rightarrow> int \<Rightarrow> string \<Rightarrow> ('k \<times> string \<times> int \<times> nat) list \<Rightarrow> ('k \<times> string \<times> int \<times> nat) list" where
  "note_key k ms ty = upsert_key k (bump ms seen_default, ty)"

definition after_seen :: "(int \<times> nat) option \<Rightarrow> seen option \<Rightarrow> (int \<times> nat) option" where
  "after_seen row s =
     (case s of None \<Rightarrow> row
      | Some s \<Rightarrow> Some (case row of None \<Rightarrow> (last_seen s, seen_count s)
                      | Some (l, c) \<Rightarrow> (max l (last_seen s), c + seen_count s)))"

definition after_key :: "(string \<times> int \<times> nat) option \<Rightarrow> (seen \<times> string) option \<Rightarrow> (string \<times> int \<times> nat) option" where
  "after_key row e =
     (case e of None \<Rightarrow> row
      | Some (s, ty) \<Rightarrow> map_option (Pair ty) (after_seen (map_option snd row) (Some s)))"

definition seen_ok :: "seen option \<Rightarrow> bool" where
  "seen_ok s = (case s of None \<Rightarrow> True | Some s \<Rightarrow> 0 \<le> last_seen s)"

lemma upsert_seen_at: "map_of (upsert_seen k s rows) k' = (if k' = k then after_seen (map_of rows k) (Some s) else map_of rows k')"
  by (simp add: upsert_seen_def after_seen_def alist_simps)

lemma upsert_key_at: "map_of (upsert_key k e rows) k' = (if k' = k then after_key (map_of rows k) (Some e) else map_of rows k')"
  by (cases e; cases "map_of rows k") (auto simp: upsert_key_def after_key_def after_seen_def alist_simps)

lemma fold_upsert_at:
  assumes at: "\<And>k v rows k'. map_of (f k v rows) k' = (if k' = k then h (map_of rows k) (Some v) else map_of rows k')"
    and none: "\<And>row. h row None = row"
  shows "distinct (map fst m) \<Longrightarrow> map_of (fold (\<lambda>(k, v). f k v) m rows) k' = h (map_of rows k') (map_of m k')"
proof (induction m arbitrary: rows)
  case (Cons kv m)
  have "map_of m (fst kv) = None" using Cons.prems by (simp add: map_of_eq_None_iff)
  then show ?case using Cons by (cases kv) (auto simp: at none)
qed (simp add: none)

lemma seen_ok_bump: "seen_ok s \<Longrightarrow> seen_ok (Some (bump ms (case s of None \<Rightarrow> seen_default | Some s \<Rightarrow> s)))"
  by (cases s) (auto simp: seen_ok_def bump_def seen_default_def)

lemma after_seen_bump:
  assumes "seen_ok s"
  shows "after_seen row (Some (bump ms (case s of None \<Rightarrow> seen_default | Some s \<Rightarrow> s)))
    = after_seen (after_seen row s) (Some (bump ms seen_default))"
  using assms by (cases s; cases row) (auto simp: after_seen_def bump_def seen_default_def seen_ok_def max_def)

lemma after_key_bump:
  assumes "seen_ok (map_option fst e)"
  shows "after_key row (Some (bump ms (case e of None \<Rightarrow> seen_default | Some (s, _) \<Rightarrow> s), ty))
    = after_key (after_key row e) (Some (bump ms seen_default, ty))"
proof (cases e)
  case None
  then show ?thesis by (simp add: after_key_def)
next
  case (Some st)
  obtain s ty0 where st: "st = (s, ty0)" by (cases st)
  have "map_option snd (after_key row e) = after_seen (map_option snd row) (Some s)"
    using Some st by (cases "after_seen (map_option snd row) (Some s)") (simp_all add: after_key_def)
  then show ?thesis
    using after_seen_bump [of "Some s" "map_option snd row" ms] assms Some st by (simp add: after_key_def)
qed

text \<open>The rows after a batch, and after the same sightings one by one.\<close>

lemma names_one_by_one:
  "(\<forall>k. seen_ok (map_of m k)) \<Longrightarrow> distinct (map fst m) \<Longrightarrow>
   (\<forall>k. map_of rows' k = after_seen (map_of rows k) (map_of m k)) \<Longrightarrow>
   (\<forall>k. map_of (fold (\<lambda>(k, ms). note_name k ms) xs rows') k
      = after_seen (map_of rows k) (map_of (fold (\<lambda>(k, ms). bump_entry k ms) xs m) k))
   \<and> (\<forall>k. seen_ok (map_of (fold (\<lambda>(k, ms). bump_entry k ms) xs m) k))
   \<and> distinct (map fst (fold (\<lambda>(k, ms). bump_entry k ms) xs m))"
proof (induction xs arbitrary: m rows')
  case (Cons x xs)
  obtain k ms where x: "x = (k, ms)" by (cases x)
  have "map_of (note_name k ms rows') j = after_seen (map_of rows j) (map_of (bump_entry k ms m) j)" for j
    using Cons.prems after_seen_bump [of "map_of m k" "map_of rows k" ms]
    by (simp add: note_name_def upsert_seen_at bump_entry_def alist_simps)
  moreover have "seen_ok (map_of (bump_entry k ms m) j)" for j
    using Cons.prems(1) seen_ok_bump [of "map_of m k" ms] by (simp add: bump_entry_def alist_simps)
  moreover have "distinct (map fst (bump_entry k ms m))"
    using Cons.prems(2) by (simp add: bump_entry_def alist_simps)
  ultimately show ?case using Cons.IH [of "bump_entry k ms m" "note_name k ms rows'"] x by simp
qed simp

text \<open>The table's key of a batch entry names the source \<open>event\<close>.\<close>

definition batch_key :: "((string \<times> string) \<times> seen \<times> string) list \<Rightarrow> string \<times> string \<times> string \<Rightarrow> (seen \<times> string) option" where
  "batch_key m K = (if fst (snd K) = ''event'' then map_of m (fst K, snd (snd K)) else None)"

definition note_event_key where
  "note_event_key pk ms ty = note_key (fst pk, ''event'', snd pk) ms ty"

lemma fold_keys_at:
  "distinct (map fst m) \<Longrightarrow>
   map_of (fold (\<lambda>((pr, k), e). upsert_key (pr, ''event'', k) e) m rows) K
     = after_key (map_of rows K) (batch_key m K)"
proof (induction m arbitrary: rows)
  case (Cons kv m)
  obtain pr k e where kv: "kv = ((pr, k), e)" by (metis prod.collapse)
  have "map_of m (pr, k) = None" using Cons.prems kv by (simp add: map_of_eq_None_iff)
  then have none: "K = (pr, ''event'', k) \<Longrightarrow> batch_key m K = None" by (simp add: batch_key_def)
  have "map_of (fold (\<lambda>((pr, k), e). upsert_key (pr, ''event'', k) e) m (upsert_key (pr, ''event'', k) e rows)) K
      = after_key (map_of (upsert_key (pr, ''event'', k) e rows) K) (batch_key m K)"
    using Cons.prems kv by (intro Cons.IH) simp
  moreover have "batch_key (kv # m) K = (if K = (pr, ''event'', k) then Some e else batch_key m K)"
    using kv by (cases K) (auto simp: batch_key_def)
  moreover have "after_key row None = row" for row by (simp add: after_key_def)
  ultimately show ?case using none kv by (simp add: upsert_key_at)
qed (simp add: batch_key_def after_key_def)

lemma keys_one_by_one:
  "(\<forall>k. seen_ok (map_option fst (map_of m k))) \<Longrightarrow> distinct (map fst m) \<Longrightarrow>
   (\<forall>K. map_of rows' K = after_key (map_of rows K) (batch_key m K)) \<Longrightarrow>
   (\<forall>K. map_of (fold (\<lambda>(k, ms, ty). note_event_key k ms ty) xs rows') K
      = after_key (map_of rows K) (batch_key (fold (\<lambda>(k, ms, ty). bump_key k ms ty) xs m) K))
   \<and> (\<forall>k. seen_ok (map_option fst (map_of (fold (\<lambda>(k, ms, ty). bump_key k ms ty) xs m) k)))
   \<and> distinct (map fst (fold (\<lambda>(k, ms, ty). bump_key k ms ty) xs m))"
proof (induction xs arbitrary: m rows')
  case (Cons x xs)
  obtain pr k ms ty where x: "x = ((pr, k), ms, ty)" by (metis prod.collapse)
  have "map_of (note_event_key (pr, k) ms ty rows') K
      = after_key (map_of rows K) (batch_key (bump_key (pr, k) ms ty m) K)" for K
    using Cons.prems after_key_bump [of "map_of m (pr, k)" "map_of rows (pr, ''event'', k)" ms ty]
    by (cases K) (auto simp: note_event_key_def note_key_def upsert_key_at bump_key_def alist_simps batch_key_def)
  moreover have "seen_ok (map_option fst (map_of (bump_key (pr, k) ms ty m) j))" for j
    using Cons.prems(1) [rule_format, of j] seen_ok_bump [OF Cons.prems(1) [rule_format, of "(pr, k)"], of ms]
    by (cases "map_of m (pr, k)") (auto simp: bump_key_def alist_simps)
  moreover have "distinct (map fst (bump_key (pr, k) ms ty m))"
    using Cons.prems(2) by (simp add: bump_key_def alist_simps)
  ultimately show ?case using Cons.IH [of "bump_key (pr, k) ms ty m" "note_event_key (pr, k) ms ty rows'"] x by simp
qed simp

section \<open>Windows\<close>

definition batch_add_all :: "externals \<Rightarrow> (string \<times> captured_event) list \<Rightarrow> catalog_batch" where
  "batch_add_all ex evs = fold (\<lambda>(pr, ev). batch_add ex pr ev) evs catalog_batch_default"

definition name_sighting :: "externals \<Rightarrow> string \<times> captured_event \<Rightarrow> (string \<times> string) \<times> int" where
  "name_sighting ex e = ((fst e, event (snd e)), timestamp_millis ex (timestamp (snd e)))"

definition key_sightings :: "externals \<Rightarrow> string \<times> captured_event \<Rightarrow> ((string \<times> string) \<times> int \<times> string) list" where
  "key_sightings ex e = map (\<lambda>(k, v). ((fst e, k), timestamp_millis ex (timestamp (snd e)), value_type v))
     (properties (snd e))"

lemma add_property_parts [simp]:
  "cb_names (add_property ex pr ms kv b) = cb_names b"
  "cb_keys (add_property ex pr ms kv b) = bump_key (pr, fst kv) ms (value_type (snd kv)) (cb_keys b)"
  by (simp_all add: add_property_def Let_def split: prod.split)

lemma fold_add_property:
  "cb_names (fold (add_property ex pr ms) kvs b) = cb_names b"
  "cb_keys (fold (add_property ex pr ms) kvs b)
     = fold (\<lambda>(k, ms, ty). bump_key k ms ty) (map (\<lambda>(k, v). ((pr, k), ms, value_type v)) kvs) (cb_keys b)"
  by (induction kvs arbitrary: b) (simp_all add: case_prod_unfold)

lemma batch_add_names:
  "cb_names (batch_add ex pr ev b)
     = bump_entry (pr, event ev) (timestamp_millis ex (timestamp ev)) (cb_names b)"
  by (simp add: batch_add_def Let_def fold_add_property)

lemma batch_add_keys:
  "cb_keys (batch_add ex pr ev b)
     = fold (\<lambda>(k, ms, ty). bump_key k ms ty) (key_sightings ex (pr, ev)) (cb_keys b)"
  by (simp add: batch_add_def Let_def fold_add_property key_sightings_def)

lemma batch_add_all_snoc: "batch_add_all ex (evs @ [(pr, ev)]) = batch_add ex pr ev (batch_add_all ex evs)"
  by (simp add: batch_add_all_def)

lemma batch_add_all_names:
  "cb_names (batch_add_all ex evs) = fold (\<lambda>(k, ms). bump_entry k ms) (map (name_sighting ex) evs) []"
proof (induction evs rule: rev_induct)
  case (snoc e evs)
  then show ?case
    by (cases e) (simp add: batch_add_all_snoc batch_add_names name_sighting_def)
qed (simp add: batch_add_all_def catalog_batch_default_def)

lemma batch_add_all_keys:
  "cb_keys (batch_add_all ex evs) = fold (\<lambda>(k, ms, ty). bump_key k ms ty) (concat (map (key_sightings ex) evs)) []"
proof (induction evs rule: rev_induct)
  case (snoc e evs)
  then show ?case
    by (cases e) (simp add: batch_add_all_snoc batch_add_keys)
qed (simp add: batch_add_all_def catalog_batch_default_def)

lemma batch_flush_names:
  "map_of (event_names (batch_flush (batch_add_all ex evs) t)) K
     = map_of (fold (\<lambda>(k, ms). note_name k ms) (map (name_sighting ex) evs) (event_names t)) K"
proof -
  let ?m = "fold (\<lambda>(k, ms). bump_entry k ms) (map (name_sighting ex) evs) []"
  have s: "after_seen row None = row" for row by (simp add: after_seen_def)
  have one: "map_of (fold (\<lambda>(k, ms). note_name k ms) (map (name_sighting ex) evs) (event_names t)) K
      = after_seen (map_of (event_names t) K) (map_of ?m K)" "distinct (map fst ?m)"
  proof -
    have p: "\<forall>k. seen_ok (map_of ([] :: ((string \<times> string) \<times> seen) list) k)"
      "distinct (map fst ([] :: ((string \<times> string) \<times> seen) list))"
      "\<forall>k. map_of (event_names t) k = after_seen (map_of (event_names t) k) (map_of [] k)"
      by (simp_all add: s seen_ok_def)
    note all = names_one_by_one [OF p, of "map (name_sighting ex) evs"]
    from all show "map_of (fold (\<lambda>(k, ms). note_name k ms) (map (name_sighting ex) evs) (event_names t)) K
      = after_seen (map_of (event_names t) K) (map_of ?m K)" by (rule conjunct1 [THEN spec])
    from all show "distinct (map fst ?m)" by (rule conjunct2 [THEN conjunct2])
  qed
  have "map_of (fold (\<lambda>(k, s). upsert_seen k s) ?m (event_names t)) K
      = after_seen (map_of (event_names t) K) (map_of ?m K)"
    by (rule fold_upsert_at [where f = upsert_seen and h = after_seen, OF _ s one(2)]) (simp add: upsert_seen_at)
  then show ?thesis using one(1) by (simp add: batch_flush_def batch_add_all_names)
qed

lemma batch_flush_keys:
  "map_of (property_keys (batch_flush (batch_add_all ex evs) t)) K
     = map_of (fold (\<lambda>(k, ms, ty). note_event_key k ms ty) (concat (map (key_sightings ex) evs)) (property_keys t)) K"
proof -
  let ?m = "fold (\<lambda>(k, ms, ty). bump_key k ms ty) (concat (map (key_sightings ex) evs)) []"
  have s: "batch_key [] K = None" "after_key row None = row" for K row by (simp_all add: batch_key_def after_key_def)
  have one: "map_of (fold (\<lambda>(k, ms, ty). note_event_key k ms ty) (concat (map (key_sightings ex) evs)) (property_keys t)) K
      = after_key (map_of (property_keys t) K) (batch_key ?m K)" "distinct (map fst ?m)"
  proof -
    have p: "\<forall>k. seen_ok (map_option fst (map_of ([] :: ((string \<times> string) \<times> seen \<times> string) list) k))"
      "distinct (map fst ([] :: ((string \<times> string) \<times> seen \<times> string) list))"
      "\<forall>K. map_of (property_keys t) K = after_key (map_of (property_keys t) K) (batch_key [] K)"
      by (simp_all add: s seen_ok_def)
    note all = keys_one_by_one [OF p, of "concat (map (key_sightings ex) evs)"]
    from all show "map_of (fold (\<lambda>(k, ms, ty). note_event_key k ms ty) (concat (map (key_sightings ex) evs)) (property_keys t)) K
      = after_key (map_of (property_keys t) K) (batch_key ?m K)" by (rule conjunct1 [THEN spec])
    from all show "distinct (map fst ?m)" by (rule conjunct2 [THEN conjunct2])
  qed
  then show ?thesis by (simp add: batch_flush_def batch_add_all_keys fold_keys_at)
qed

lemma note_names_cong:
  "(\<forall>K. map_of rows K = map_of rows' K) \<Longrightarrow>
   map_of (note_name k ms rows) K = map_of (note_name k ms rows') K"
  by (simp add: note_name_def upsert_seen_at)

lemma note_keys_cong:
  "(\<forall>K. map_of rows K = map_of rows' K) \<Longrightarrow>
   \<forall>K. map_of (fold (\<lambda>(k, ms, ty). note_event_key k ms ty) xs rows) K
     = map_of (fold (\<lambda>(k, ms, ty). note_event_key k ms ty) xs rows') K"
proof (induction xs arbitrary: rows rows')
  case (Cons x xs)
  show ?case unfolding fold_Cons o_apply
    by (rule Cons.IH) (use Cons.prems in \<open>auto simp: note_event_key_def note_key_def upsert_key_at split: prod.split\<close>)
qed simp

lemma apply_catalog_batch: "apply_catalog ex pr ev t = batch_flush (batch_add_all ex [(pr, ev)]) t"
  by (simp add: apply_catalog_def batch_add_all_def)

lemma window_names:
  "\<forall>K. map_of (event_names (fold (\<lambda>(pr, ev). apply_catalog ex pr ev) evs t)) K
     = map_of (event_names (batch_flush (batch_add_all ex evs) t)) K"
proof (induction evs rule: rev_induct)
  case Nil
  then show ?case by (simp add: batch_flush_names)
next
  case (snoc e evs)
  then show ?case
    by (cases e) (simp add: apply_catalog_batch batch_flush_names note_names_cong name_sighting_def)
qed

lemma window_keys:
  "\<forall>K. map_of (property_keys (fold (\<lambda>(pr, ev). apply_catalog ex pr ev) evs t)) K
     = map_of (property_keys (batch_flush (batch_add_all ex evs) t)) K"
proof (induction evs rule: rev_induct)
  case Nil
  then show ?case by (simp add: batch_flush_keys)
next
  case (snoc e evs)
  then show ?case
    by (cases e) (simp add: apply_catalog_batch batch_flush_keys note_keys_cong)
qed

section \<open>Properties\<close>

text \<open>C25: Adding up a publication window in memory and writing it once leaves the catalog of event
  names and property keys as writing every event on its own would: the same counts, the same last
  sightings, the same type guesses (that of the last event with the key).\<close>

theorem catalog_batching_exact:
  "map_of (event_names (batch_flush (batch_add_all ex evs) t))
     = map_of (event_names (fold (\<lambda>(pr, ev). apply_catalog ex pr ev) evs t))
   \<and> map_of (property_keys (batch_flush (batch_add_all ex evs) t))
     = map_of (property_keys (fold (\<lambda>(pr, ev). apply_catalog ex pr ev) evs t))"
  using window_names window_keys by (simp add: fun_eq_iff)

text \<open>Whatever a window holds, and in whatever order the batch's hash map yields it, no property
  key gets more than \<open>max_values_per_key\<close> catalogued values (unless it had more before), no value is
  forgotten, and the count of a value already known goes up by its sightings in the window.\<close>

theorem catalog_values_capped:
  assumes "distinct (map fst (cb_values b))"
  shows "cardinality (property_values (batch_flush b t)) pr k
      \<le> max max_values_per_key (cardinality (property_values t) pr k)
    \<and> (map_of (property_values t) key = Some (l, c) \<longrightarrow>
        map_of (property_values (batch_flush b t)) key = Some (case map_of (cb_values b) key of
          None \<Rightarrow> (l, c) | Some s \<Rightarrow> (max l (last_seen s), c + seen_count s)))"
proof
  let ?vs = "sort_key (\<lambda>(_, s). - int (seen_count s)) (cb_values b)"
  have rows: "property_values (batch_flush b t) = fold put_value ?vs (property_values t)"
    by (simp add: batch_flush_def flush_values_reference)
  show "cardinality (property_values (batch_flush b t)) pr k
      \<le> max max_values_per_key (cardinality (property_values t) pr k)"
    unfolding rows by (rule put_values_bounded)
  have dist: "distinct (map fst ?vs)"
  proof -
    have "mset (map fst ?vs) = mset (map fst (cb_values b))" by simp
    then show ?thesis using assms by (metis mset_eq_imp_distinct_iff)
  qed
  have "map_of ?vs = map_of (cb_values b)"
    by (rule map_of_eqI) (use dist assms in \<open>auto simp: map_of_eq_Some_iff intro: map_of_eqI\<close>)
  then show "map_of (property_values t) key = Some (l, c) \<longrightarrow>
      map_of (property_values (batch_flush b t)) key = Some (case map_of (cb_values b) key of
        None \<Rightarrow> (l, c) | Some s \<Rightarrow> (max l (last_seen s), c + seen_count s))"
    unfolding rows using put_values_known [OF dist] by auto
qed

theorem catalog_values_capped_witness:
  "cardinality (property_values (batch_flush
     \<lparr>cb_names = [], cb_keys = [], cb_values = [((''p'', ''k'', ''v''), \<lparr>seen_count = 3, last_seen = 5\<rparr>)]\<rparr>
     empty_tables)) ''p'' ''k'' \<le> 500"
  using catalog_values_capped [of "\<lparr>cb_names = [], cb_keys = [],
      cb_values = [((''p'', ''k'', ''v''), \<lparr>seen_count = 3, last_seen = 5\<rparr>)]\<rparr>" empty_tables "''p''" "''k''"]
  by (simp add: cardinality_def empty_tables_def max_values_per_key_def)

end
