(* ===== verification/Float64.thy ===== *)
theory Float64
  imports Types "HOL-Library.Log_Nat"
begin

text \<open>
  The arithmetic of Rust's \<open>f64\<close> that the modelled code uses: exact rational arithmetic followed by
  rounding to the nearest double, ties to even, with overflow to the infinities and gradual
  underflow. The sign of zero is not kept: nothing here divides by a zero.
\<close>

section \<open>Rounding\<close>

definition round_even :: "rat \<Rightarrow> int" where
  "round_even q =
     (let f = \<lfloor>q\<rfloor>; d = q - of_int f in
      if d < 1 / 2 then f else if d > 1 / 2 then f + 1 else if even f then f else f + 1)"

text \<open>The exponent of a positive number: the largest power of two that is not above it.\<close>

definition rexp :: "rat \<Rightarrow> int" where
  "rexp q =
     (let (a, b) = quotient_of q; e = bitlen a - bitlen b in
      if 2 powi e \<le> q then e else e - 1)"

definition ulp_exp :: "rat \<Rightarrow> int" where
  "ulp_exp q = max (rexp \<bar>q\<bar> - 52) (- 1074)"

definition f64_round :: "rat \<Rightarrow> f64" where
  "f64_round q =
     (if q = 0 then Fin 0
      else let r = of_int (round_even (q / 2 powi ulp_exp q)) * 2 powi ulp_exp q in
        if 2 powi 1024 \<le> r then PosInf else if r \<le> - (2 powi 1024) then NegInf else Fin r)"

section \<open>Operations\<close>

fun f64_add :: "f64 \<Rightarrow> f64 \<Rightarrow> f64" where
  "f64_add (Fin x) (Fin y) = f64_round (x + y)"
| "f64_add NaN _ = NaN"
| "f64_add _ NaN = NaN"
| "f64_add PosInf NegInf = NaN"
| "f64_add NegInf PosInf = NaN"
| "f64_add PosInf _ = PosInf"
| "f64_add _ PosInf = PosInf"
| "f64_add NegInf _ = NegInf"
| "f64_add _ NegInf = NegInf"

fun f64_neg :: "f64 \<Rightarrow> f64" where
  "f64_neg (Fin x) = Fin (- x)"
| "f64_neg PosInf = NegInf"
| "f64_neg NegInf = PosInf"
| "f64_neg NaN = NaN"

definition f64_sub :: "f64 \<Rightarrow> f64 \<Rightarrow> f64" where
  "f64_sub x y = f64_add x (f64_neg y)"

fun f64_abs :: "f64 \<Rightarrow> f64" where
  "f64_abs (Fin x) = Fin \<bar>x\<bar>"
| "f64_abs NaN = NaN"
| "f64_abs _ = PosInf"

fun f64_mul :: "f64 \<Rightarrow> f64 \<Rightarrow> f64" where
  "f64_mul (Fin x) (Fin y) = f64_round (x * y)"
| "f64_mul NaN _ = NaN"
| "f64_mul _ NaN = NaN"
| "f64_mul (Fin x) y = (if x = 0 then NaN else if 0 < x then y else f64_neg y)"
| "f64_mul x (Fin y) = (if y = 0 then NaN else if 0 < y then x else f64_neg x)"
| "f64_mul x y = (if x = y then PosInf else NegInf)"

text \<open>Division; a zero divisor counts as \<open>+0\<close>.\<close>

fun f64_div :: "f64 \<Rightarrow> f64 \<Rightarrow> f64" where
  "f64_div (Fin x) (Fin y) =
     (if y = 0 then (if x = 0 then NaN else if 0 < x then PosInf else NegInf) else f64_round (x / y))"
| "f64_div NaN _ = NaN"
| "f64_div _ NaN = NaN"
| "f64_div (Fin _) _ = Fin 0"
| "f64_div PosInf (Fin y) = (if y < 0 then NegInf else PosInf)"
| "f64_div NegInf (Fin y) = (if y < 0 then PosInf else NegInf)"
| "f64_div _ _ = NaN"

fun f64_less :: "f64 \<Rightarrow> f64 \<Rightarrow> bool" where
  "f64_less (Fin x) (Fin y) = (x < y)"
| "f64_less NaN _ = False"
| "f64_less _ NaN = False"
| "f64_less NegInf y = (y \<noteq> NegInf)"
| "f64_less _ NegInf = False"
| "f64_less PosInf _ = False"
| "f64_less _ PosInf = True"

fun f64_eq :: "f64 \<Rightarrow> f64 \<Rightarrow> bool" where
  "f64_eq NaN _ = False"
| "f64_eq x y = (x = y)"

definition f64_le :: "f64 \<Rightarrow> f64 \<Rightarrow> bool" where
  "f64_le x y \<longleftrightarrow> f64_less x y \<or> f64_eq x y"

fun f64_finite :: "f64 \<Rightarrow> bool" where
  "f64_finite (Fin _) = True"
| "f64_finite _ = False"

section \<open>Rounding is monotone on nonnegative numbers and keeps doubles\<close>

lemma round_even_of_int [simp]: "round_even (of_int k) = k"
  by (simp add: round_even_def Let_def)

lemma round_even_floor: "round_even q = \<lfloor>q\<rfloor> \<or> round_even q = \<lfloor>q\<rfloor> + 1"
  by (simp add: round_even_def Let_def)

lemma round_even_mono:
  assumes "p \<le> q"
  shows "round_even p \<le> round_even q"
proof (cases "\<lfloor>p\<rfloor> = \<lfloor>q\<rfloor>")
  case True
  then show ?thesis using assms by (auto simp: round_even_def Let_def)
next
  case False
  then have "\<lfloor>p\<rfloor> + 1 \<le> \<lfloor>q\<rfloor>" using floor_mono [OF assms] by linarith
  then show ?thesis using round_even_floor [of p] round_even_floor [of q] by linarith
qed

lemma rexp_bounds:
  assumes "0 < q"
  shows "2 powi rexp q \<le> q" and "q < 2 powi (rexp q + 1)"
proof -
  obtain a b where ab: "quotient_of q = (a, b)" by (cases "quotient_of q")
  have b: "0 < b" using quotient_of_denom_pos [OF ab] .
  have q: "q = of_int a / of_int b" using quotient_of_div [OF ab] .
  have a: "0 < a" using assms q b by (simp add: zero_less_divide_iff)
  let ?e = "bitlen a - bitlen b"
  have bl: "2 powi (bitlen x - 1) \<le> (of_int x :: rat) \<and> of_int x < (2 :: rat) powi bitlen x"
    if x: "0 < x" for x
  proof -
    have ge: "1 \<le> bitlen x" using x bitlen_nonneg [of x] by (metis bitlen_eq_zero_iff int_one_le_iff_zero_less linorder_not_less order_le_less)
    have "2 ^ nat (bitlen x - 1) \<le> x" "x < 2 ^ nat (bitlen x)" using bitlen_bounds [OF x] by simp_all
    then have "of_int (2 ^ nat (bitlen x - 1)) \<le> (of_int x :: rat)" "(of_int x :: rat) < of_int (2 ^ nat (bitlen x))"
      by (simp_all only: of_int_le_iff of_int_less_iff)
    then show ?thesis using ge by (simp add: power_int_def)
  qed
  have two: "(2 :: rat) powi (i - j) = 2 powi i / 2 powi j" for i j by (simp add: power_int_diff)
  have pos: "0 < (of_int b :: rat)" "0 < (2 :: rat) powi i" for i using b by simp_all
  have "q < 2 powi bitlen a / 2 powi (bitlen b - 1)"
    unfolding q using bl [OF a] bl [OF b] pos a by (intro frac_less) auto
  also have "\<dots> = 2 powi (?e + 1)" by (simp add: two [symmetric] algebra_simps)
  finally have up: "q < 2 powi (?e + 1)" .
  have "2 powi (bitlen a - 1) / 2 powi bitlen b < q"
    unfolding q using bl [OF a] bl [OF b] pos by (intro frac_less2) auto
  then have lo: "2 powi (?e - 1) \<le> q" by (simp add: two [symmetric] algebra_simps)
  show "2 powi rexp q \<le> q" and "q < 2 powi (rexp q + 1)"
    using up lo by (auto simp: rexp_def ab Let_def)
qed

lemma rexp_less_iff: "0 < q \<Longrightarrow> rexp q < n \<longleftrightarrow> q < 2 powi n"
proof -
  assume q: "0 < q"
  have "q < 2 powi n" if "rexp q < n"
  proof -
    have "(2 :: rat) powi (rexp q + 1) \<le> 2 powi n" using that by (intro power_int_increasing) auto
    then show ?thesis using rexp_bounds(2) [OF q] by linarith
  qed
  moreover have "rexp q < n" if "q < 2 powi n"
  proof (rule ccontr)
    assume "\<not> rexp q < n"
    then have "(2 :: rat) powi n \<le> 2 powi rexp q" by (intro power_int_increasing) auto
    then show False using rexp_bounds(1) [OF q] that by linarith
  qed
  ultimately show ?thesis by blast
qed

lemma rexp_mono: "0 < p \<Longrightarrow> p \<le> q \<Longrightarrow> rexp p \<le> rexp q"
  using rexp_less_iff [of p "rexp q + 1"] rexp_bounds(2) [of q] by force

lemma ulp_exp_mono: "0 < p \<Longrightarrow> p \<le> q \<Longrightarrow> ulp_exp p \<le> ulp_exp q"
  using rexp_mono [of p q] by (auto simp: ulp_exp_def)

text \<open>The rounded value before the overflow check.\<close>

definition nearest :: "rat \<Rightarrow> rat" where
  "nearest q = of_int (round_even (q / 2 powi ulp_exp q)) * 2 powi ulp_exp q"

lemma round_even_nonneg: "0 \<le> q \<Longrightarrow> 0 \<le> round_even q"
  using round_even_mono [of 0 q] round_even_of_int [of 0] by simp

lemma nearest_nonneg: "0 \<le> q \<Longrightarrow> 0 \<le> nearest q"
  by (simp add: nearest_def round_even_nonneg)

lemma f64_round_nearest:
  "0 \<le> q \<Longrightarrow> f64_round q = (if 2 powi 1024 \<le> nearest q then PosInf else Fin (nearest q))"
proof -
  assume q: "0 \<le> q"
  have "\<not> nearest q \<le> - (2 powi 1024)"
    using nearest_nonneg [OF q] zero_less_power_int [of "2 :: rat" 1024] by linarith
  moreover have "nearest 0 = 0" using round_even_of_int [of 0] by (simp add: nearest_def)
  ultimately show ?thesis
    by (cases "q = 0") (simp_all add: f64_round_def nearest_def Let_def)
qed

lemma powi_of_int: "0 \<le> n \<Longrightarrow> (2 :: rat) powi n = of_int (2 ^ nat n)"
  by (simp add: power_int_def)

text \<open>A multiple of the unit in the last place bounds the rounded value as it bounds the value.\<close>

lemma nearest_le:
  assumes "q \<le> of_int k * 2 powi ulp_exp q"
  shows "nearest q \<le> of_int k * 2 powi ulp_exp q"
proof -
  have "q / 2 powi ulp_exp q \<le> of_int k" using assms by (simp add: divide_le_eq)
  from round_even_mono [OF this] have "round_even (q / 2 powi ulp_exp q) \<le> k" by simp
  then show ?thesis unfolding nearest_def by (intro mult_right_mono) auto
qed

lemma nearest_ge:
  assumes "of_int k * 2 powi ulp_exp q \<le> q"
  shows "of_int k * 2 powi ulp_exp q \<le> nearest q"
proof -
  have "of_int k \<le> q / 2 powi ulp_exp q" using assms by (simp add: le_divide_eq)
  from round_even_mono [OF this] have "k \<le> round_even (q / 2 powi ulp_exp q)" by simp
  then show ?thesis unfolding nearest_def by (intro mult_right_mono) auto
qed

lemma pow_split: "ulp_exp q \<le> n \<Longrightarrow> (2 :: rat) powi n = of_int (2 ^ nat (n - ulp_exp q)) * 2 powi ulp_exp q"
proof -
  assume "ulp_exp q \<le> n"
  then have "(2 :: rat) powi (n - ulp_exp q) = of_int (2 ^ nat (n - ulp_exp q))" by (intro powi_of_int) simp
  moreover have "(2 :: rat) powi n = 2 powi (n - ulp_exp q) * 2 powi ulp_exp q"
    using power_int_add [of "2 :: rat" "n - ulp_exp q" "ulp_exp q"] by simp
  ultimately show ?thesis by simp
qed

lemma nearest_le_pow:
  assumes "0 < q" and "q \<le> 2 powi n" and "- 1074 \<le> n"
  shows "nearest q \<le> 2 powi n"
proof (cases "ulp_exp q \<le> n")
  case True
  then show ?thesis using nearest_le [of q "2 ^ nat (n - ulp_exp q)"] assms(2) pow_split [OF True] by simp
next
  case False
  have "rexp q < n + 1" using rexp_less_iff [OF assms(1), of "n + 1"] assms(2)
    by (simp add: power_int_add order_le_less_trans [of q "2 powi n"])
  then show ?thesis using False assms(1,3) by (simp add: ulp_exp_def)
qed

lemma nearest_ge_pow:
  assumes "0 < q" and "2 powi n \<le> q" and "- 1074 \<le> n"
  shows "2 powi n \<le> nearest q"
proof (cases "ulp_exp q \<le> n")
  case True
  then show ?thesis using nearest_ge [of "2 ^ nat (n - ulp_exp q)" q] assms(2) pow_split [OF True] by simp
next
  case False
  then have "ulp_exp q = rexp q - 52" "n < rexp q - 52" using assms(1,3) by (auto simp: ulp_exp_def max_def split: if_splits)
  then have ge: "ulp_exp q \<le> rexp q" by simp
  have "2 powi rexp q \<le> nearest q"
    using nearest_ge [of "2 ^ nat (rexp q - ulp_exp q)" q] rexp_bounds(1) [OF assms(1)] pow_split [OF ge] by simp
  moreover have "(2 :: rat) powi n \<le> 2 powi rexp q" using \<open>n < rexp q - 52\<close> by (intro power_int_increasing) auto
  ultimately show ?thesis by linarith
qed

lemma nearest_mono:
  assumes "0 \<le> p" and "p \<le> q"
  shows "nearest p \<le> nearest q"
proof (cases "p = 0 \<or> ulp_exp p = ulp_exp q")
  case True
  then show ?thesis
  proof
    assume "p = 0"
    then have "nearest p = 0" using round_even_of_int [of 0] by (simp add: nearest_def)
    then show ?thesis using nearest_nonneg assms by simp
  next
    assume eq: "ulp_exp p = ulp_exp q"
    have "p / 2 powi ulp_exp q \<le> q / 2 powi ulp_exp q" using assms(2) by (intro divide_right_mono) auto
    from round_even_mono [OF this] show ?thesis
      unfolding nearest_def eq by (intro mult_right_mono) auto
  qed
next
  case False
  then have p: "0 < p" and q: "0 < q" using assms by auto
  have less: "ulp_exp p < ulp_exp q" using ulp_exp_mono [OF p assms(2)] False by simp
  then have "rexp p < rexp q" "- 1074 \<le> rexp q" using p q by (auto simp: ulp_exp_def max_def split: if_splits)
  have "p \<le> 2 powi rexp q" using rexp_less_iff [OF p] \<open>rexp p < rexp q\<close> by force
  then have "nearest p \<le> 2 powi rexp q" using nearest_le_pow [OF p] \<open>- 1074 \<le> rexp q\<close> by blast
  also have "\<dots> \<le> nearest q" using nearest_ge_pow [OF q rexp_bounds(1) [OF q]] \<open>- 1074 \<le> rexp q\<close> by blast
  finally show ?thesis .
qed

text \<open>Rounding is the identity on doubles.\<close>

lemma nearest_idem:
  assumes "0 < q"
  shows "nearest (nearest q) = nearest q"
proof (cases "nearest q = 0")
  case True
  then show ?thesis using round_even_of_int [of 0] by (simp add: nearest_def)
next
  case False
  let ?r = "nearest q" and ?e = "ulp_exp q"
  have r: "0 < ?r" using False nearest_nonneg [of q] assms by simp
  obtain k where k: "?r = of_int k * 2 powi ulp_exp ?r"
  proof (cases "ulp_exp ?r \<le> ?e")
    case True
    have "?r = of_int (round_even (q / 2 powi ?e)) * 2 powi ?e" by (simp add: nearest_def)
    also have "\<dots> = of_int (round_even (q / 2 powi ?e)) * (of_int (2 ^ nat (?e - ulp_exp ?r)) * 2 powi ulp_exp ?r)"
      using pow_split [OF True] by simp
    finally have "?r = of_int (round_even (q / 2 powi ?e) * 2 ^ nat (?e - ulp_exp ?r)) * 2 powi ulp_exp ?r"
      by (simp add: mult.assoc)
    then show thesis by (rule that)
  next
    case False
    have norm: "- 1074 \<le> rexp ?r - 52" "ulp_exp ?r = rexp ?r - 52"
      using False r assms by (auto simp: ulp_exp_def max_def split: if_splits)
    have "rexp q < rexp ?r" using False r assms norm by (auto simp: ulp_exp_def max_def split: if_splits)
    then have "q < 2 powi rexp ?r" using rexp_less_iff [OF assms] by blast
    then have "?r \<le> 2 powi rexp ?r" using nearest_le_pow [OF assms, of "rexp ?r"] norm by simp
    then have "?r = 2 powi rexp ?r" using rexp_bounds(1) [OF r] by simp
    also have "\<dots> = of_int (2 ^ nat (rexp ?r - ulp_exp ?r)) * 2 powi ulp_exp ?r"
      by (rule pow_split) (use norm in simp)
    finally show thesis by (rule that)
  qed
  have "?r / 2 powi ulp_exp ?r = of_int k" using k by (simp add: divide_eq_eq)
  then show ?thesis using k unfolding nearest_def [of ?r] by simp
qed

section \<open>Comparing rounded values\<close>

lemma f64_round_mono: "0 \<le> p \<Longrightarrow> p \<le> q \<Longrightarrow> f64_le (f64_round p) (f64_round q)"
  using nearest_mono [of p q] by (auto simp: f64_round_nearest f64_le_def)

lemma f64_round_0 [simp]: "f64_round 0 = Fin 0"
  by (simp add: f64_round_def)

lemma f64_round_idem: "0 \<le> q \<Longrightarrow> f64_round q = Fin r \<Longrightarrow> 0 \<le> r \<and> f64_round r = Fin r"
proof -
  assume q: "0 \<le> q" and r: "f64_round q = Fin r"
  then have "r = nearest q" "\<not> 2 powi 1024 \<le> nearest q" by (auto simp: f64_round_nearest split: if_splits)
  moreover have "nearest (nearest q) = nearest q"
    using q nearest_idem round_even_of_int [of 0] by (cases "q = 0") (simp_all add: nearest_def)
  ultimately show ?thesis using nearest_nonneg [OF q] by (simp add: f64_round_nearest)
qed

lemma f64_round_cases:
  "0 \<le> q \<Longrightarrow> f64_round q = PosInf \<or> (\<exists>r. f64_round q = Fin r \<and> 0 \<le> r \<and> f64_round r = Fin r)"
  using f64_round_idem [of q] f64_round_nearest [of q] by metis

lemma f64_round_le_pow:
  assumes "0 \<le> q" and "q \<le> 2 powi n" and "- 1074 \<le> n" and "n < 1024"
  obtains r where "f64_round q = Fin r" "0 \<le> r" "r \<le> 2 powi n"
proof (cases "q = 0")
  case True
  then show thesis using that [of 0] by simp
next
  case False
  then have le: "nearest q \<le> 2 powi n" using assms nearest_le_pow by simp
  moreover have "(2 :: rat) powi n < 2 powi 1024" using assms(4) by (intro power_int_strict_increasing) auto
  ultimately show thesis using that [of "nearest q"] assms(1) by (simp add: f64_round_nearest nearest_nonneg)
qed

text \<open>Powers of two are doubles.\<close>

lemma f64_round_pow:
  assumes "- 1074 \<le> n" and "n < 1024"
  shows "f64_round (2 powi n) = Fin (2 powi n)"
proof -
  have pos: "(0 :: rat) < 2 powi n" by simp
  have "nearest (2 powi n) = 2 powi n"
    using nearest_le_pow [OF pos order_refl assms(1)] nearest_ge_pow [OF pos order_refl assms(1)] by simp
  moreover have "(2 :: rat) powi n < 2 powi 1024" using assms(2) by (intro power_int_strict_increasing) auto
  ultimately show ?thesis using pos by (simp only: f64_round_nearest less_imp_le not_le [symmetric] if_False)
qed

lemma f64_round_half: "f64_round (1 / 2) = Fin (1 / 2)"
  using f64_round_pow [of "- 1"] by (simp add: power_int_minus)

lemma f64_round_one: "f64_round 1 = Fin 1"
  using f64_round_pow [of 0] by simp

text \<open>So are the integers of up to 53 bits.\<close>

lemma f64_round_int:
  assumes "0 \<le> k" and "k < 2 ^ 53"
  shows "f64_round (of_int k) = Fin (of_int k)"
proof (cases "k = 0")
  case False
  then have pos: "(0 :: rat) < of_int k" using assms(1) by simp
  have "of_int k < (of_int (2 ^ 53) :: rat)" using assms(2) by (simp only: of_int_less_iff)
  then have below: "of_int k < (2 :: rat) powi 53" by (simp add: power_int_def)
  then have "rexp (of_int k) < 53" using rexp_less_iff [OF pos] by blast
  then have u: "ulp_exp (of_int k) \<le> 0" using pos by (simp add: ulp_exp_def)
  obtain c where c: "(of_int k :: rat) = of_int c * 2 powi ulp_exp (of_int k)"
  proof (rule that)
    show "(of_int k :: rat) = of_int (k * 2 ^ nat (0 - ulp_exp (of_int k))) * 2 powi ulp_exp (of_int k)"
      using pow_split [OF u] by simp
  qed
  have "nearest (of_int k) \<le> of_int c * 2 powi ulp_exp (of_int k)" by (rule nearest_le [OF eq_refl [OF c]])
  moreover have "of_int c * 2 powi ulp_exp (of_int k) \<le> nearest (of_int k)"
    by (rule nearest_ge [OF eq_refl [OF c [symmetric]]])
  ultimately have "nearest (of_int k) = of_int k" using c by linarith
  moreover have "(of_int k :: rat) < 2 powi 1024"
    using below power_int_strict_increasing [of 53 1024 "2 :: rat"] by linarith
  ultimately show ?thesis using pos by (simp only: f64_round_nearest less_imp_le not_le [symmetric] if_False)
qed simp

end
