(* ===== verification/Flags.thy ===== *)
theory Flags
  imports Float64 Projections "HOL-Library.Sublist"
begin

text \<open>
  Feature flags: the data of \<open>src/contract/flags.rs\<close> and the evaluation of \<open>src/flags/eval.rs\<close>.
  SHA-1, the regular expressions, Unicode lower case, the text of floating-point numbers and their
  parser, and the parsers and calendar arithmetic of \<open>chrono\<close> are the record \<open>flag_externals\<close>.
\<close>

section \<open>Data\<close>

datatype property_source = EventSource | PersonSource

datatype property_operator =
    Exact | IsNot | Icontains | NotIcontains | Regex | NotRegex | Gt | Gte | Lt | Lte
  | IsSet | IsNotSet | IsDateBefore | IsDateAfter

record property_filter =
  pf_key :: string
  pf_source :: property_source
  pf_operator :: property_operator
  pf_value :: json

record flag_variant =
  fv_key :: string
  fv_name :: "string option"
  fv_rollout :: f64

record condition_group =
  cg_properties :: "property_filter list"
  cg_rollout :: "f64 option"
  cg_variant :: "string option"

record flag_filters =
  ff_groups :: "condition_group list"
  ff_variants :: "flag_variant list option"
  ff_payloads :: "(string \<times> json) list"

record feature_flag =
  flag_id :: int
  flag_key :: string
  flag_name :: string
  flag_active :: bool
  flag_filters :: flag_filters
  flag_continuity :: bool
  flag_created_at :: string
  flag_updated_at :: string

record 'r flag_externals =
  sha1 :: "string \<Rightarrow> bytes"
  compile_regex :: "string \<Rightarrow> 'r option"
  is_match :: "'r \<Rightarrow> string \<Rightarrow> bool"
  to_lowercase :: "string \<Rightarrow> string"
  json_text :: "json \<Rightarrow> string"
  f64_text :: "f64 \<Rightarrow> string"
  parse_f64 :: "string \<Rightarrow> f64 option"
  parse_rfc3339 :: "string \<Rightarrow> instant option"
  parse_datetime :: "string \<Rightarrow> string \<Rightarrow> instant option"
  parse_naive :: "string \<Rightarrow> string \<Rightarrow> instant option"
  parse_day :: "string \<Rightarrow> string \<Rightarrow> instant option"
  add_hours :: "instant \<Rightarrow> int \<Rightarrow> instant option"
  sub_months :: "instant \<Rightarrow> nat \<Rightarrow> instant option"

section \<open>The hash\<close>

definition long_scale :: f64 where
  "long_scale = f64_round (2 ^ 60 - 1)"

definition from_be_bytes :: "bytes \<Rightarrow> nat" where
  "from_be_bytes bs = foldl (\<lambda>v b. 256 * v + unat b) 0 bs"

definition flag_hash :: "'r flag_externals \<Rightarrow> string \<Rightarrow> string \<Rightarrow> string \<Rightarrow> f64" where
  "flag_hash fx key bucketing_id salt =
     (let digest = sha1 fx (key @ ''.'' @ bucketing_id @ salt);
          v = from_be_bytes (take 8 digest) div 16 in
      f64_div (f64_round (of_nat v)) long_scale)"

section \<open>Values\<close>

definition decimal_int :: "int \<Rightarrow> string" where
  "decimal_int i = (if i < 0 then ''-'' @ decimal (nat (- i)) else decimal (nat i))"

fun number_f64 :: "number \<Rightarrow> f64" where
  "number_f64 (PosInt n) = f64_round (of_nat (unat n))"
| "number_f64 (NegInt n) = f64_round (of_int (sint n))"
| "number_f64 (Float x) = x"

fun number_to_string :: "'r flag_externals \<Rightarrow> number \<Rightarrow> string" where
  "number_to_string fx (PosInt n) = decimal (unat n)"
| "number_to_string fx (NegInt n) = decimal_int (sint n)"
| "number_to_string fx (Float x) =
     (case x of
        Fin r \<Rightarrow> if of_int \<lfloor>r\<rfloor> = r \<and> \<bar>r\<bar> < 10 ^ 15 then decimal_int \<lfloor>r\<rfloor> else f64_text fx x
      | _ \<Rightarrow> f64_text fx x)"

fun value_to_string :: "'r flag_externals \<Rightarrow> json \<Rightarrow> string" where
  "value_to_string fx (String s) = s"
| "value_to_string fx Null = ''null''"
| "value_to_string fx (Bool b) = (if b then ''true'' else ''false'')"
| "value_to_string fx (Number n) = number_to_string fx n"
| "value_to_string fx v = json_text fx v"

fun is_truthy_or_falsy :: "json \<Rightarrow> bool" where
  "is_truthy_or_falsy (Bool _) = True"
| "is_truthy_or_falsy (String s) = (eq_ignore_ascii_case s ''true'' \<or> eq_ignore_ascii_case s ''false'')"
| "is_truthy_or_falsy (Array xs) = (\<forall>x \<in> set xs. is_truthy_or_falsy x)"
| "is_truthy_or_falsy _ = False"

fun is_truthy :: "json \<Rightarrow> bool" where
  "is_truthy (Bool b) = b"
| "is_truthy (String s) = eq_ignore_ascii_case s ''true''"
| "is_truthy (Array xs) = (\<forall>x \<in> set xs. is_truthy x)"
| "is_truthy _ = False"

definition exact_match :: "'r flag_externals \<Rightarrow> json \<Rightarrow> json \<Rightarrow> bool" where
  "exact_match fx expected actual =
     (if as_array expected = Some [] \<or> is_truthy_or_falsy expected
      then is_truthy expected = is_truthy actual
      else
        (let act = to_lowercase fx (value_to_string fx actual) in
         case expected of
           Array candidates \<Rightarrow> list_ex (\<lambda>c. to_lowercase fx (value_to_string fx c) = act) candidates
         | scalar \<Rightarrow> to_lowercase fx (value_to_string fx scalar) = act))"

definition icontains :: "'r flag_externals \<Rightarrow> json \<Rightarrow> json \<Rightarrow> bool" where
  "icontains fx expected actual =
     sublist (ascii_lower (value_to_string fx expected)) (ascii_lower (value_to_string fx actual))"

definition as_number :: "'r flag_externals \<Rightarrow> json \<Rightarrow> f64 option" where
  "as_number fx v =
     (case (case v of
              Number n \<Rightarrow> Some (number_f64 n)
            | String s \<Rightarrow> parse_f64 fx (trim s)
            | _ \<Rightarrow> None) of
        None \<Rightarrow> None
      | Some x \<Rightarrow> if f64_finite x then Some x else None)"

datatype ordering = Less | Equal | Greater

fun f64_partial_cmp :: "f64 \<Rightarrow> f64 \<Rightarrow> ordering option" where
  "f64_partial_cmp x y =
     (if f64_less x y then Some Less else if f64_less y x then Some Greater
      else if f64_eq x y then Some Equal else None)"

definition str_cmp :: "string \<Rightarrow> string \<Rightarrow> ordering" where
  "str_cmp a b = (if str_less a b then Less else if a = b then Equal else Greater)"

definition compare_values :: "'r flag_externals \<Rightarrow> property_operator \<Rightarrow> json \<Rightarrow> json \<Rightarrow> bool" where
  "compare_values fx op expected actual =
     (case (case (as_number fx expected, as_number fx actual) of
              (Some e, Some a) \<Rightarrow> f64_partial_cmp a e
            | _ \<Rightarrow> Some (str_cmp (value_to_string fx actual) (value_to_string fx expected))) of
        None \<Rightarrow> False
      | Some ord \<Rightarrow>
          (case op of
             Gt \<Rightarrow> ord = Greater
           | Gte \<Rightarrow> ord \<noteq> Less
           | Lt \<Rightarrow> ord = Less
           | Lte \<Rightarrow> ord \<noteq> Greater
           | _ \<Rightarrow> False))"

section \<open>Dates\<close>

definition max_relative_date_count :: nat where
  "max_relative_date_count = 10000"

text \<open>The last character, a unit when it is one byte, and the digits before it. A count below
  10,000 needs no overflow check: a longer number is rejected by \<open>parse\<close> or by the limit.\<close>

definition relative_date :: "'r flag_externals \<Rightarrow> string \<Rightarrow> instant \<Rightarrow> instant option" where
  "relative_date fx text now =
     (let body = (if text \<noteq> [] \<and> hd text = CHR ''-'' then tl text else text) in
      if body = [] then None
      else
        (let unit = last (utf8_chars body); ds = take (length body - length unit) body in
         if ds = [] \<or> \<not> list_all is_digit ds then None
         else
           (let n = digits_value ds in
            if 2 ^ 63 \<le> n \<or> max_relative_date_count \<le> n then None
            else if unit = ''h'' then add_hours fx now (- int n)
            else if unit = ''d'' then add_hours fx now (- 24 * int n)
            else if unit = ''w'' then add_hours fx now (- 168 * int n)
            else if unit = ''m'' then sub_months fx now n
            else if unit = ''y'' then sub_months fx now (n * 12)
            else None)))"

definition strip_z :: "string \<Rightarrow> string" where
  "strip_z s = (if s \<noteq> [] \<and> last s = CHR ''Z'' then butlast s else s)"

fun first_some :: "('a \<Rightarrow> 'b option) \<Rightarrow> 'a list \<Rightarrow> 'b option" where
  "first_some f [] = None"
| "first_some f (x # xs) = (case f x of None \<Rightarrow> first_some f xs | Some y \<Rightarrow> Some y)"

definition parse_date :: "'r flag_externals \<Rightarrow> string \<Rightarrow> instant option" where
  "parse_date fx text0 =
     (let text = trim text0 in
      case parse_rfc3339 fx text of
        Some t \<Rightarrow> Some t
      | None \<Rightarrow>
          (case first_some (\<lambda>fmt. parse_datetime fx text fmt)
                  [''%Y-%m-%dT%H:%M:%S%.f%:z'', ''%Y-%m-%d %H:%M:%S%.f%:z'', ''%Y-%m-%d %H:%M:%S%.f%z''] of
             Some t \<Rightarrow> Some t
           | None \<Rightarrow>
               (case first_some (\<lambda>fmt. parse_naive fx (strip_z text) fmt)
                       [''%Y-%m-%dT%H:%M:%S%.f'', ''%Y-%m-%d %H:%M:%S%.f'', ''%Y-%m-%dT%H:%M'',
                        ''%Y-%m-%d %H:%M''] of
                  Some t \<Rightarrow> Some t
                | None \<Rightarrow> parse_day fx (strip_z text) ''%Y-%m-%d'')))"

definition flag_date :: "'r flag_externals \<Rightarrow> instant \<Rightarrow> json \<Rightarrow> instant option" where
  "flag_date fx now v =
     (case as_str v of
        None \<Rightarrow> None
      | Some text \<Rightarrow> (case relative_date fx text now of None \<Rightarrow> parse_date fx text | Some t \<Rightarrow> Some t))"

definition property_date :: "'r flag_externals \<Rightarrow> json \<Rightarrow> instant option" where
  "property_date fx v = Option.bind (as_str v) (parse_date fx)"

section \<open>Filters\<close>

type_synonym 'r regexes = "(string \<times> 'r option) list"

definition find_regex :: "'r flag_externals \<Rightarrow> 'r regexes \<Rightarrow> string \<Rightarrow> 'r option" where
  "find_regex fx regexes pattern =
     (case map_of regexes pattern of
        Some compiled \<Rightarrow> compiled
      | None \<Rightarrow> compile_regex fx pattern)"

definition match_present ::
  "'r flag_externals \<Rightarrow> instant \<Rightarrow> 'r regexes \<Rightarrow> property_operator \<Rightarrow> json \<Rightarrow> json \<Rightarrow> bool" where
  "match_present fx now regexes op expected actual =
     (case op of
        IsSet \<Rightarrow> True
      | IsNotSet \<Rightarrow> False
      | Exact \<Rightarrow> exact_match fx expected actual
      | IsNot \<Rightarrow> \<not> exact_match fx expected actual
      | _ \<Rightarrow>
          if actual = Null then False
          else
            (case op of
               Icontains \<Rightarrow> icontains fx expected actual
             | NotIcontains \<Rightarrow> \<not> icontains fx expected actual
             | Gt \<Rightarrow> compare_values fx op expected actual
             | Gte \<Rightarrow> compare_values fx op expected actual
             | Lt \<Rightarrow> compare_values fx op expected actual
             | Lte \<Rightarrow> compare_values fx op expected actual
             | IsDateBefore \<Rightarrow>
                 (case (flag_date fx now expected, property_date fx actual) of
                    (Some boundary, Some v) \<Rightarrow> v < boundary | _ \<Rightarrow> False)
             | IsDateAfter \<Rightarrow>
                 (case (flag_date fx now expected, property_date fx actual) of
                    (Some boundary, Some v) \<Rightarrow> v > boundary | _ \<Rightarrow> False)
             | _ \<Rightarrow>
                 (let pattern = value_to_string fx expected in
                  case find_regex fx regexes pattern of
                    None \<Rightarrow> False
                  | Some regex \<Rightarrow>
                      (let found = is_match fx regex (value_to_string fx actual) in
                       if op = Regex then found else \<not> found))))"

definition match_property ::
  "'r flag_externals \<Rightarrow> instant \<Rightarrow> 'r regexes \<Rightarrow> object \<Rightarrow> property_filter \<Rightarrow> bool" where
  "match_property fx now regexes props pf =
     (case map_of props (pf_key pf) of
        None \<Rightarrow> pf_operator pf = IsNotSet
      | Some actual \<Rightarrow> match_present fx now regexes (pf_operator pf) (pf_value pf) actual)"

section \<open>Evaluation\<close>

datatype reason_code = Disabled | NoConditionMatch | OutOfRolloutBound | ConditionMatch

fun reason_rank :: "reason_code \<Rightarrow> nat" where
  "reason_rank Disabled = 0"
| "reason_rank NoConditionMatch = 1"
| "reason_rank OutOfRolloutBound = 2"
| "reason_rank ConditionMatch = 3"

instantiation reason_code :: linorder
begin

definition less_eq_reason_code :: "reason_code \<Rightarrow> reason_code \<Rightarrow> bool" where
  "less_eq_reason_code a b \<longleftrightarrow> reason_rank a \<le> reason_rank b"

definition less_reason_code :: "reason_code \<Rightarrow> reason_code \<Rightarrow> bool" where
  "less_reason_code a b \<longleftrightarrow> reason_rank a < reason_rank b"

lemma reason_rank_inj: "reason_rank a = reason_rank b \<Longrightarrow> a = b"
  by (cases a; cases b) simp_all

instance
  by standard (auto simp: less_eq_reason_code_def less_reason_code_def dest: reason_rank_inj)

end

fun reason_text :: "reason_code \<Rightarrow> string" where
  "reason_text Disabled = ''disabled''"
| "reason_text NoConditionMatch = ''no_condition_match''"
| "reason_text OutOfRolloutBound = ''out_of_rollout_bound''"
| "reason_text ConditionMatch = ''condition_match''"

fun reason_description :: "reason_code \<Rightarrow> nat option \<Rightarrow> string" where
  "reason_description ConditionMatch (Some i) = ''Matched condition set '' @ decimal (i + 1)"
| "reason_description ConditionMatch None = ''Matched condition set''"
| "reason_description NoConditionMatch _ = ''No matching condition set''"
| "reason_description OutOfRolloutBound _ = ''Out of rollout bound''"
| "reason_description Disabled _ = ''Flag is disabled''"

record evaluation =
  ev_enabled :: bool
  ev_variant :: "string option"
  ev_reason :: reason_code
  ev_condition :: "nat option"
  ev_payload :: "json option"

record 'r compiled_flag =
  cf_flag :: feature_flag
  cf_version :: int
  cf_regexes :: "'r regexes"

definition add_regex :: "'r flag_externals \<Rightarrow> property_filter \<Rightarrow> 'r regexes \<Rightarrow> 'r regexes" where
  "add_regex fx pf m =
     (if pf_operator pf = Regex \<or> pf_operator pf = NotRegex
      then (let pattern = value_to_string fx (pf_value pf) in
            if map_of m pattern = None then (pattern, compile_regex fx pattern) # m else m)
      else m)"

definition compile_flag :: "'r flag_externals \<Rightarrow> feature_flag \<Rightarrow> int \<Rightarrow> 'r compiled_flag" where
  "compile_flag fx flag version =
     \<lparr>cf_flag = flag, cf_version = version,
      cf_regexes = fold (add_regex fx)
        (concat (map cg_properties (ff_groups (flag_filters flag)))) []\<rparr>"

definition reads_properties :: "'r compiled_flag \<Rightarrow> bool" where
  "reads_properties cf = list_ex (\<lambda>g. cg_properties g \<noteq> []) (ff_groups (flag_filters (cf_flag cf)))"

datatype group_match = GroupMatch | NoMatch | OutOfRollout

definition match_group ::
  "'r flag_externals \<Rightarrow> instant \<Rightarrow> 'r compiled_flag \<Rightarrow> string \<Rightarrow> object \<Rightarrow> condition_group \<Rightarrow> group_match" where
  "match_group fx now cf bucketing_id props g =
     (if \<not> list_all (match_property fx now (cf_regexes cf) props) (cg_properties g) then NoMatch
      else case cg_rollout g of
        Some rollout \<Rightarrow>
          if f64_less (f64_div rollout (Fin 100)) (flag_hash fx (flag_key (cf_flag cf)) bucketing_id '''')
          then OutOfRollout else GroupMatch
      | None \<Rightarrow> GroupMatch)"

definition has_variant :: "'r compiled_flag \<Rightarrow> string \<Rightarrow> bool" where
  "has_variant cf key =
     (case ff_variants (flag_filters (cf_flag cf)) of
        None \<Rightarrow> False | Some vs \<Rightarrow> list_ex (\<lambda>v. fv_key v = key) vs)"

fun variant_at :: "f64 \<Rightarrow> f64 \<Rightarrow> flag_variant list \<Rightarrow> string option" where
  "variant_at v lo [] = None"
| "variant_at v lo (x # xs) =
     (let hi = f64_add lo (f64_div (fv_rollout x) (Fin 100)) in
      if f64_le lo v \<and> f64_less v hi then Some (fv_key x) else variant_at v hi xs)"

definition matching_variant :: "'r flag_externals \<Rightarrow> 'r compiled_flag \<Rightarrow> string \<Rightarrow> string option" where
  "matching_variant fx cf bucketing_id =
     (case ff_variants (flag_filters (cf_flag cf)) of
        None \<Rightarrow> None
      | Some vs \<Rightarrow> variant_at (flag_hash fx (flag_key (cf_flag cf)) bucketing_id ''variant'') (Fin 0) vs)"

definition matched :: "'r flag_externals \<Rightarrow> 'r compiled_flag \<Rightarrow> string \<Rightarrow> nat \<Rightarrow> condition_group \<Rightarrow> evaluation" where
  "matched fx cf bucketing_id index g =
     (let variant = (case (case cg_variant g of None \<Rightarrow> None
                           | Some key \<Rightarrow> if has_variant cf key then Some key else None) of
            Some key \<Rightarrow> Some key
          | None \<Rightarrow> matching_variant fx cf bucketing_id);
          payload_key = (case variant of None \<Rightarrow> ''true'' | Some key \<Rightarrow> key) in
      \<lparr>ev_enabled = True, ev_variant = variant, ev_reason = ConditionMatch, ev_condition = Some index,
       ev_payload = map_of (ff_payloads (flag_filters (cf_flag cf))) payload_key\<rparr>)"

fun eval_groups ::
  "'r flag_externals \<Rightarrow> instant \<Rightarrow> 'r compiled_flag \<Rightarrow> string \<Rightarrow> object \<Rightarrow> nat \<Rightarrow> reason_code \<Rightarrow> nat option \<Rightarrow>
    condition_group list \<Rightarrow> evaluation" where
  "eval_groups fx now cf bid props index closest closest_index [] =
     \<lparr>ev_enabled = False, ev_variant = None, ev_reason = closest, ev_condition = closest_index,
      ev_payload = None\<rparr>"
| "eval_groups fx now cf bid props index closest closest_index (g # gs) =
     (case match_group fx now cf bid props g of
        GroupMatch \<Rightarrow> matched fx cf bid index g
      | OutOfRollout \<Rightarrow>
          if closest < OutOfRolloutBound
          then eval_groups fx now cf bid props (index + 1) OutOfRolloutBound (Some index) gs
          else eval_groups fx now cf bid props (index + 1) closest closest_index gs
      | NoMatch \<Rightarrow> eval_groups fx now cf bid props (index + 1) closest closest_index gs)"

definition evaluate :: "'r flag_externals \<Rightarrow> instant \<Rightarrow> 'r compiled_flag \<Rightarrow> string \<Rightarrow> object \<Rightarrow> evaluation" where
  "evaluate fx now cf bucketing_id props =
     (if \<not> flag_active (cf_flag cf)
      then \<lparr>ev_enabled = False, ev_variant = None, ev_reason = Disabled, ev_condition = None, ev_payload = None\<rparr>
      else eval_groups fx now cf bucketing_id props 0 NoConditionMatch None (ff_groups (flag_filters (cf_flag cf))))"

end
