(* ===== verification/FlagsCorrect.thy ===== *)
theory FlagsCorrect
  imports Flags
begin

text \<open>
  The evaluation of feature flags: which group decides, the hash and the rollouts, the variant
  ranges, and the table of compiled regular expressions.
\<close>

section \<open>The deciding group\<close>

fun first_index :: "('a \<Rightarrow> bool) \<Rightarrow> 'a list \<Rightarrow> nat option" where
  "first_index P [] = None"
| "first_index P (x # xs) = (if P x then Some 0 else map_option Suc (first_index P xs))"

lemma first_index_Some: "first_index P xs = Some i \<longleftrightarrow> i < length xs \<and> P (xs ! i) \<and> (\<forall>j < i. \<not> P (xs ! j))"
proof (induction xs arbitrary: i)
  case (Cons x xs)
  then show ?case by (cases i) (auto simp: less_Suc_eq_0_disj)
qed simp

lemma first_index_None: "first_index P xs = None \<longleftrightarrow> (\<forall>x \<in> set xs. \<not> P x)"
  by (induction xs) auto

text \<open>What no match reports: the first group missed by its rollout only, if there is one.\<close>

definition closest_miss ::
  "'r flag_externals \<Rightarrow> instant \<Rightarrow> 'r compiled_flag \<Rightarrow> string \<Rightarrow> object \<Rightarrow> condition_group list \<Rightarrow> evaluation" where
  "closest_miss fx now cf bid props gs =
     (case first_index (\<lambda>g. match_group fx now cf bid props g = OutOfRollout) gs of
        None \<Rightarrow> \<lparr>ev_enabled = False, ev_variant = None, ev_reason = NoConditionMatch, ev_condition = None, ev_payload = None\<rparr>
      | Some i \<Rightarrow> \<lparr>ev_enabled = False, ev_variant = None, ev_reason = OutOfRolloutBound, ev_condition = Some i, ev_payload = None\<rparr>)"

lemma eval_groups_decision:
  "eval_groups fx now cf bid props n c ci gs =
    (case first_index (\<lambda>g. match_group fx now cf bid props g = GroupMatch) gs of
       Some i \<Rightarrow> matched fx cf bid (n + i) (gs ! i)
     | None \<Rightarrow>
         (case (if c < OutOfRolloutBound then first_index (\<lambda>g. match_group fx now cf bid props g = OutOfRollout) gs
                else None) of
            None \<Rightarrow> \<lparr>ev_enabled = False, ev_variant = None, ev_reason = c, ev_condition = ci, ev_payload = None\<rparr>
          | Some i \<Rightarrow> \<lparr>ev_enabled = False, ev_variant = None, ev_reason = OutOfRolloutBound,
              ev_condition = Some (n + i), ev_payload = None\<rparr>))"
proof (induction gs arbitrary: n c ci)
  case (Cons g gs)
  then show ?case
    by (cases "match_group fx now cf bid props g"; cases "c < OutOfRolloutBound") (simp_all split: option.splits)
qed simp

lemma evaluate_decision:
  assumes "flag_active (cf_flag cf)"
  shows "evaluate fx now cf bid props =
    (case first_index (\<lambda>g. match_group fx now cf bid props g = GroupMatch) (ff_groups (flag_filters (cf_flag cf))) of
       Some i \<Rightarrow> matched fx cf bid i (ff_groups (flag_filters (cf_flag cf)) ! i)
     | None \<Rightarrow> closest_miss fx now cf bid props (ff_groups (flag_filters (cf_flag cf))))"
proof -
  have "NoConditionMatch < OutOfRolloutBound" by (simp add: less_reason_code_def)
  then show ?thesis using assms by (simp add: evaluate_def eval_groups_decision closest_miss_def split: option.split)
qed

section \<open>The hash and the rollout\<close>

lemma from_be_bytes_bound: "from_be_bytes bs < 256 ^ length bs"
proof (induction bs rule: rev_induct)
  case (snoc b bs)
  have "unat b < 256" using unsigned_less [of b, where ?'a = nat] by simp
  then have "256 * from_be_bytes bs + unat b < 256 * (from_be_bytes bs + 1)" by simp
  also have "\<dots> \<le> 256 * 256 ^ length bs" using snoc by simp
  finally show ?case by (simp add: from_be_bytes_def)
qed (simp add: from_be_bytes_def)

lemma long_scale_eq: "long_scale = Fin (2 ^ 60)"
proof -
  have q: "(0 :: rat) < 2 ^ 60 - 1" by simp
  have "rexp (2 ^ 60 - 1) < 60" using rexp_less_iff [OF q, of 60] by simp
  moreover have "\<not> rexp (2 ^ 60 - 1) < 59" using rexp_less_iff [OF q, of 59] by simp
  ultimately have "rexp (2 ^ 60 - 1) = 59" by linarith
  then have u: "ulp_exp (2 ^ 60 - 1) = 7" by (simp add: ulp_exp_def)
  have "round_even ((2 ^ 60 - 1) / 2 powi 7) = 2 ^ 53"
    by (simp add: round_even_def Let_def floor_divide_of_int_eq [of "1152921504606846975" 128, symmetric, simplified])
  then have "nearest (2 ^ 60 - 1) = 2 ^ 60" unfolding nearest_def u by simp
  then show ?thesis by (simp add: long_scale_def f64_round_nearest power_int_def)
qed

lemma flag_hash_unit: "\<exists>r. flag_hash fx key bid salt = Fin r \<and> 0 \<le> r \<and> r \<le> 1"
proof -
  let ?v = "from_be_bytes (take 8 (sha1 fx (key @ ''.'' @ bid @ salt))) div 16"
  have "from_be_bytes (take 8 (sha1 fx (key @ ''.'' @ bid @ salt))) < 256 ^ 8"
    using from_be_bytes_bound [of "take 8 (sha1 fx (key @ ''.'' @ bid @ salt))"]
      power_increasing [of "length (take 8 (sha1 fx (key @ ''.'' @ bid @ salt)))" 8 "256 :: nat"] by simp
  then have "?v < 2 ^ 60" by simp
  then have "(of_nat ?v :: rat) < of_nat (2 ^ 60)" by (simp only: of_nat_less_iff)
  then have v: "(of_nat ?v :: rat) \<le> 2 powi 60" by (simp add: power_int_def)
  obtain r where r: "f64_round (of_nat ?v) = Fin r" "0 \<le> r" "r \<le> 2 powi 60"
    by (rule f64_round_le_pow [OF _ v]) simp_all
  then have "0 \<le> r / 2 ^ 60" "r / 2 ^ 60 \<le> 2 powi 0" by (simp_all add: power_int_def divide_le_eq)
  then obtain s where "f64_round (r / 2 ^ 60) = Fin s" "0 \<le> s" "s \<le> 2 powi 0"
    by (rule f64_round_le_pow) simp_all
  then show ?thesis using r by (simp add: flag_hash_def Let_def long_scale_eq)
qed

lemma f64_le_trans: "f64_le a b \<Longrightarrow> f64_le b c \<Longrightarrow> f64_le a c"
  by (cases a; cases b; cases c) (auto simp: f64_le_def)

lemma f64_less_le: "f64_le a b \<Longrightarrow> f64_less b c \<Longrightarrow> f64_less a c"
  by (cases a; cases b; cases c) (auto simp: f64_le_def)

lemma div_100_mono:
  assumes "f64_le (Fin 0) p" and "f64_le p q"
  shows "f64_le (f64_div p (Fin 100)) (f64_div q (Fin 100))"
proof (cases q)
  case (Fin y)
  then obtain x where "p = Fin x" "0 \<le> x" "x \<le> y" using assms by (cases p) (auto simp: f64_le_def)
  then show ?thesis using Fin f64_round_mono [of "x / 100" "y / 100"] by simp
next
  case PosInf
  then show ?thesis using assms by (cases "f64_div p (Fin 100)"; cases p)
    (auto simp: f64_le_def f64_round_nearest split: if_splits)
qed (use assms in \<open>auto simp: f64_le_def elim: f64_less.elims\<close>)

section \<open>Variants\<close>

fun variant_ranges :: "f64 \<Rightarrow> flag_variant list \<Rightarrow> (f64 \<times> f64) list" where
  "variant_ranges lo [] = []"
| "variant_ranges lo (x # xs) =
     (let hi = f64_add lo (f64_div (fv_rollout x) (Fin 100)) in (lo, hi) # variant_ranges hi xs)"

definition in_range :: "f64 \<Rightarrow> f64 \<times> f64 \<Rightarrow> bool" where
  "in_range v r \<longleftrightarrow> f64_le (fst r) v \<and> f64_less v (snd r)"

lemma length_variant_ranges [simp]: "length (variant_ranges lo vs) = length vs"
  by (induction vs arbitrary: lo) (simp_all add: Let_def)

definition bound_ok :: "f64 \<Rightarrow> bool" where
  "bound_ok lo \<longleftrightarrow> lo = PosInf \<or> (\<exists>r. lo = Fin r \<and> 0 \<le> r \<and> f64_round r = Fin r)"

definition percentage_ok :: "f64 \<Rightarrow> bool" where
  "percentage_ok p \<longleftrightarrow> (\<exists>r. p = Fin r \<and> 0 \<le> r \<and> r \<le> 100)"

lemma next_bound:
  assumes lo: "bound_ok lo" and p: "percentage_ok p"
  shows "bound_ok (f64_add lo (f64_div p (Fin 100)))" and "f64_le lo (f64_add lo (f64_div p (Fin 100)))"
    and "p = Fin 0 \<Longrightarrow> f64_add lo (f64_div p (Fin 100)) = lo"
proof -
  obtain r where r: "p = Fin r" "0 \<le> r" "r \<le> 100" using p by (auto simp: percentage_ok_def)
  then have "0 \<le> r / 100" "r / 100 \<le> 2 powi 0" by (simp_all add: divide_le_eq)
  then obtain s where s: "f64_round (r / 100) = Fin s" "0 \<le> s" by (rule f64_round_le_pow) simp_all
  have add: "f64_add lo (f64_div p (Fin 100)) = (case lo of Fin x \<Rightarrow> f64_round (x + s) | _ \<Rightarrow> lo)"
    using lo r s by (auto simp: bound_ok_def)
  show "bound_ok (f64_add lo (f64_div p (Fin 100)))"
  proof (cases lo)
    case (Fin x)
    then have "0 \<le> x + s" using lo s by (auto simp: bound_ok_def)
    then have "f64_round (x + s) = PosInf \<or> (\<exists>r. f64_round (x + s) = Fin r \<and> 0 \<le> r \<and> f64_round r = Fin r)"
      by (rule f64_round_cases)
    then show ?thesis unfolding add using Fin by (simp add: bound_ok_def)
  qed (use lo add in \<open>auto simp: bound_ok_def\<close>)
  show "f64_le lo (f64_add lo (f64_div p (Fin 100)))"
  proof (cases lo)
    case (Fin x)
    then have "f64_le (f64_round x) (f64_round (x + s))"
      using lo s by (intro f64_round_mono) (auto simp: bound_ok_def)
    then show ?thesis unfolding add using Fin lo by (auto simp: bound_ok_def)
  qed (use lo add in \<open>auto simp: bound_ok_def f64_le_def\<close>)
  show "f64_add lo (f64_div p (Fin 100)) = lo" if "p = Fin 0"
  proof -
    have "s = 0" using that r s by simp
    then show ?thesis unfolding add using lo by (auto simp: bound_ok_def split: f64.splits)
  qed
qed

lemma ranges_above:
  assumes "bound_ok lo" and "\<forall>x \<in> set vs. percentage_ok (fv_rollout x)" and "j < length vs"
  shows "f64_le lo (fst (variant_ranges lo vs ! j))"
  using assms
proof (induction vs arbitrary: lo j)
  case (Cons x vs)
  let ?hi = "f64_add lo (f64_div (fv_rollout x) (Fin 100))"
  have n: "bound_ok ?hi" "f64_le lo ?hi" using next_bound [OF Cons.prems(1)] Cons.prems(2) by simp_all
  show ?case
  proof (cases j)
    case 0
    then show ?thesis using Cons.prems(1) by (auto simp: Let_def bound_ok_def f64_le_def)
  next
    case (Suc i)
    have "f64_le ?hi (fst (variant_ranges ?hi vs ! i))"
      using Cons.IH [OF n(1), of i] Cons.prems Suc by simp
    then show ?thesis using f64_le_trans [OF n(2)] Suc by (simp add: Let_def)
  qed
qed simp

lemma not_below_and_above: "f64_le hi v \<Longrightarrow> f64_less v hi \<Longrightarrow> False"
  by (cases hi; cases v) (auto simp: f64_le_def)

lemma variant_at_range:
  assumes "bound_ok lo" and "\<forall>x \<in> set vs. percentage_ok (fv_rollout x)" and "variant_at v lo vs = Some key"
  shows "\<exists>i < length vs. key = fv_key (vs ! i) \<and> fv_rollout (vs ! i) \<noteq> Fin 0
    \<and> (\<forall>j < length vs. in_range v (variant_ranges lo vs ! j) \<longleftrightarrow> j = i)"
  using assms
proof (induction vs arbitrary: lo)
  case (Cons x vs)
  let ?hi = "f64_add lo (f64_div (fv_rollout x) (Fin 100))"
  have n: "bound_ok ?hi" "f64_le lo ?hi" "fv_rollout x = Fin 0 \<Longrightarrow> ?hi = lo"
    using next_bound [OF Cons.prems(1)] Cons.prems(2) by simp_all
  have all: "(\<forall>j < length (x # vs). P j) \<longleftrightarrow> P 0 \<and> (\<forall>j < length vs. P (Suc j))" for P
    by (auto simp: less_Suc_eq_0_disj)
  show ?case
  proof (cases "in_range v (lo, ?hi)")
    case True
    then have key: "key = fv_key x" using Cons.prems(3) by (simp add: Let_def in_range_def)
    have nz: "fv_rollout x \<noteq> Fin 0" using True n(3) not_below_and_above by (auto simp: in_range_def)
    have "\<not> in_range v (variant_ranges ?hi vs ! j)" if "j < length vs" for j
    proof
      assume "in_range v (variant_ranges ?hi vs ! j)"
      then have "f64_le (fst (variant_ranges ?hi vs ! j)) v" by (simp add: in_range_def)
      with ranges_above [OF n(1), of vs j] Cons.prems(2) that have "f64_le ?hi v"
        using f64_le_trans by force
      then show False using True not_below_and_above by (auto simp: in_range_def)
    qed
    then have "\<forall>j < length (x # vs). in_range v (variant_ranges lo (x # vs) ! j) \<longleftrightarrow> j = 0"
      unfolding all using True by (simp add: Let_def)
    then show ?thesis using key nz by (intro exI [where x = 0]) auto
  next
    case False
    then have "variant_at v ?hi vs = Some key" using Cons.prems(3) by (auto simp: Let_def in_range_def)
    then obtain i where i: "i < length vs" "key = fv_key (vs ! i)" "fv_rollout (vs ! i) \<noteq> Fin 0"
      "\<forall>j < length vs. in_range v (variant_ranges ?hi vs ! j) \<longleftrightarrow> j = i"
      using Cons.IH [OF n(1)] Cons.prems(2) by auto
    have "\<forall>j < length (x # vs). in_range v (variant_ranges lo (x # vs) ! j) \<longleftrightarrow> j = Suc i"
      unfolding all using False i(4) by (simp add: Let_def)
    then show ?thesis using i(1-3) by (intro exI [where x = "Suc i"]) auto
  qed
qed simp

section \<open>Compiled regular expressions\<close>

definition regexes_ok :: "'r flag_externals \<Rightarrow> 'r regexes \<Rightarrow> bool" where
  "regexes_ok fx m \<longleftrightarrow> (\<forall>p r. map_of m p = Some r \<longrightarrow> r = compile_regex fx p)"

lemma add_regex_ok: "regexes_ok fx m \<Longrightarrow> regexes_ok fx (add_regex fx pf m)"
  by (auto simp: regexes_ok_def add_regex_def Let_def)

lemma compile_flag_regexes: "regexes_ok fx (cf_regexes (compile_flag fx flag version))"
proof -
  have "regexes_ok fx m \<Longrightarrow> regexes_ok fx (fold (add_regex fx) pfs m)" for pfs m
    by (induction pfs arbitrary: m) (simp_all add: add_regex_ok)
  from this [of "[]"] show ?thesis by (simp add: compile_flag_def regexes_ok_def)
qed

lemma find_regex_ok: "regexes_ok fx m \<Longrightarrow> find_regex fx m = find_regex fx []"
  by (rule ext) (auto simp: regexes_ok_def find_regex_def split: option.split)

lemma match_property_regexes:
  assumes "regexes_ok fx m"
  shows "match_property fx now m props pf = match_property fx now [] props pf"
  unfolding match_property_def match_present_def find_regex_ok [OF assms] ..

lemma evaluate_regexes:
  assumes ok: "regexes_ok fx (cf_regexes cf)" "regexes_ok fx (cf_regexes cf')" and flag: "cf_flag cf' = cf_flag cf"
  shows "evaluate fx now cf' bid props = evaluate fx now cf bid props"
proof -
  have mp: "match_property fx now (cf_regexes cf') = match_property fx now (cf_regexes cf)"
    using match_property_regexes [OF ok(1)] match_property_regexes [OF ok(2)] by (intro ext) simp
  have mg: "match_group fx now cf' bid props g = match_group fx now cf bid props g" for g
    unfolding match_group_def mp flag ..
  have m: "matched fx cf' bid i g = matched fx cf bid i g" for i g
    unfolding matched_def has_variant_def matching_variant_def flag ..
  have "eval_groups fx now cf' bid props n c ci gs = eval_groups fx now cf bid props n c ci gs" for n c ci gs
    unfolding eval_groups_decision m mg ..
  then show ?thesis by (simp add: evaluate_def flag)
qed

end
