(* ===== verification/FlagValidate.thy ===== *)
theory FlagValidate
  imports FlagsCorrect
begin

text \<open>
  The limits on flag definitions, \<open>src/flags/validate.rs\<close>, with the fields and messages of the errors.
  \<open>enc\<close> serializes the filters (\<open>serde_json::to_vec\<close>, which may fail with a message).
\<close>

section \<open>The checks\<close>

definition max_flags_per_project :: nat where "max_flags_per_project = 2000"
definition max_key_bytes :: nat where "max_key_bytes = 400"
definition max_name_bytes :: nat where "max_name_bytes = 4096"
definition max_groups :: nat where "max_groups = 50"
definition max_properties_per_group :: nat where "max_properties_per_group = 50"
definition max_variants :: nat where "max_variants = 50"
definition max_property_key_bytes :: nat where "max_property_key_bytes = 400"
definition max_filter_value_bytes :: nat where "max_filter_value_bytes = 16 * 1024"
definition max_payload_bytes :: nat where "max_payload_bytes = 64 * 1024"
definition max_filters_bytes :: nat where "max_filters_bytes = 512 * 1024"

definition variant_sum_epsilon :: f64 where
  "variant_sum_epsilon = f64_round (1 / 1000000)"

record invalid =
  iv_field :: string
  iv_message :: string

abbreviation refuse :: "string \<Rightarrow> string \<Rightarrow> invalid + unit" where
  "refuse field message \<equiv> Inl \<lparr>iv_field = field, iv_message = message\<rparr>"

definition at_most_bytes :: "nat \<Rightarrow> string" where
  "at_most_bytes n = ''must be at most '' @ decimal n @ '' bytes''"

definition key_byte :: "char \<Rightarrow> bool" where
  "key_byte c \<longleftrightarrow> is_digit c \<or> 65 \<le> code c \<and> code c \<le> 90 \<or> 97 \<le> code c \<and> code c \<le> 122
     \<or> c = CHR ''-'' \<or> c = CHR ''_''"

definition validate_key :: "string \<Rightarrow> invalid + unit" where
  "validate_key key =
     (if key = [] then refuse ''key'' ''must not be empty''
      else if max_key_bytes < length key then refuse ''key'' (at_most_bytes max_key_bytes)
      else if \<not> list_all key_byte key
        then refuse ''key'' ''may only contain letters, numbers, hyphens (-) and underscores (_)''
      else Inr ())"

definition validate_name :: "string \<Rightarrow> invalid + unit" where
  "validate_name name =
     (if max_name_bytes < length name then refuse ''name'' (at_most_bytes max_name_bytes) else Inr ())"

definition percentage :: "f64 \<Rightarrow> string \<Rightarrow> invalid + unit" where
  "percentage v field =
     (if \<not> f64_finite v \<or> \<not> (f64_le (Fin 0) v \<and> f64_le v (Fin 100))
      then refuse field ''must be a number from 0 through 100'' else Inr ())"

definition rename_field :: "string \<Rightarrow> invalid + unit \<Rightarrow> invalid + unit" where
  "rename_field field r = (case r of Inl e \<Rightarrow> refuse field (iv_message e) | Inr u \<Rightarrow> Inr u)"

definition element :: "string \<Rightarrow> nat \<Rightarrow> string" where
  "element field i = field @ ''['' @ decimal i @ '']''"

fun validate_variants :: "nat \<Rightarrow> string list \<Rightarrow> f64 \<Rightarrow> flag_variant list \<Rightarrow> invalid + string list \<times> f64" where
  "validate_variants i keys acc [] = Inr (keys, acc)"
| "validate_variants i keys acc (v # vs) =
     (let field = element ''filters.multivariate.variants'' i in
      and_then (rename_field (field @ ''.key'') (validate_key (fv_key v))) (\<lambda>_.
      and_then (case fv_name v of None \<Rightarrow> Inr ()
                | Some name \<Rightarrow> rename_field (field @ ''.name'') (validate_name name)) (\<lambda>_.
      and_then (percentage (fv_rollout v) (field @ ''.rollout_percentage'')) (\<lambda>_.
      and_then (if fv_key v \<in> set keys then refuse (field @ ''.key'') ''variant keys must be unique''
                else Inr ()) (\<lambda>_.
        validate_variants (i + 1) (fv_key v # keys) (f64_add acc (fv_rollout v)) vs)))))"

definition validate_filter ::
  "'r flag_externals \<Rightarrow> instant \<Rightarrow> string \<Rightarrow> property_filter \<Rightarrow> invalid + unit" where
  "validate_filter fx now field pf =
     (if pf_key pf = [] \<or> max_property_key_bytes < length (pf_key pf)
      then refuse (field @ ''.key'') (''must be 1 to '' @ decimal max_property_key_bytes @ '' bytes'')
      else if max_filter_value_bytes < length (json_text fx (pf_value pf))
      then refuse (field @ ''.value'') (at_most_bytes max_filter_value_bytes)
      else if (pf_operator pf = Regex \<or> pf_operator pf = NotRegex)
          \<and> compile_regex fx (value_to_string fx (pf_value pf)) = None
      then refuse (field @ ''.value'') ''is not a valid regular expression''
      else if (pf_operator pf = IsDateBefore \<or> pf_operator pf = IsDateAfter)
          \<and> flag_date fx now (pf_value pf) = None
      then refuse (field @ ''.value'') ''must be a date (2024-01-31) or relative date (-7d)''
      else Inr ())"

fun validate_properties ::
  "'r flag_externals \<Rightarrow> instant \<Rightarrow> string \<Rightarrow> nat \<Rightarrow> property_filter list \<Rightarrow> invalid + unit" where
  "validate_properties fx now field i [] = Inr ()"
| "validate_properties fx now field i (pf # pfs) =
     and_then (validate_filter fx now (element (field @ ''.properties'') i) pf) (\<lambda>_.
       validate_properties fx now field (i + 1) pfs)"

fun validate_groups ::
  "'r flag_externals \<Rightarrow> instant \<Rightarrow> string list \<Rightarrow> nat \<Rightarrow> condition_group list \<Rightarrow> invalid + unit" where
  "validate_groups fx now keys i [] = Inr ()"
| "validate_groups fx now keys i (g # gs) =
     (let field = element ''filters.groups'' i in
      and_then (case cg_rollout g of None \<Rightarrow> Inr ()
                | Some rollout \<Rightarrow> percentage rollout (field @ ''.rollout_percentage'')) (\<lambda>_.
      and_then (case cg_variant g of None \<Rightarrow> Inr ()
                | Some v \<Rightarrow> if v \<in> set keys then Inr ()
                            else refuse (field @ ''.variant'') ''must name one of the flag's variants'') (\<lambda>_.
      and_then (if max_properties_per_group < length (cg_properties g)
                then refuse (field @ ''.properties'')
                       (''at most '' @ decimal max_properties_per_group @ '' property filters'')
                else Inr ()) (\<lambda>_.
      and_then (validate_properties fx now field 0 (cg_properties g)) (\<lambda>_.
        validate_groups fx now keys (i + 1) gs)))))"

fun validate_payloads ::
  "'r flag_externals \<Rightarrow> bool \<Rightarrow> string list \<Rightarrow> (string \<times> json) list \<Rightarrow> invalid + unit" where
  "validate_payloads fx multi keys [] = Inr ()"
| "validate_payloads fx multi keys ((key, payload) # ps) =
     (if \<not> (if multi then key \<in> set keys else key = ''true'')
      then refuse (''filters.payloads.'' @ key)
             ''payload keys must be \"true\" for boolean flags or a variant key''
      else if max_payload_bytes < length (json_text fx payload)
      then refuse (''filters.payloads.'' @ key) (at_most_bytes max_payload_bytes)
      else validate_payloads fx multi keys ps)"

definition validate_multivariate :: "flag_filters \<Rightarrow> invalid + string list" where
  "validate_multivariate ff =
     (case ff_variants ff of
        None \<Rightarrow> Inr []
      | Some vs \<Rightarrow>
          if vs = [] \<or> max_variants < length vs
          then Inl \<lparr>iv_field = ''filters.multivariate.variants'',
                 iv_message = ''must have between 1 and '' @ decimal max_variants @ '' variants''\<rparr>
          else and_then (validate_variants 0 [] (Fin 0) vs) (\<lambda>(keys, acc).
            if f64_less variant_sum_epsilon (f64_abs (f64_sub acc (Fin 100)))
            then Inl \<lparr>iv_field = ''filters.multivariate.variants'',
                   iv_message = ''variant rollout percentages must sum to 100''\<rparr>
            else Inr keys))"

definition validate_filters ::
  "'r flag_externals \<Rightarrow> instant \<Rightarrow> (flag_filters \<Rightarrow> string + string) \<Rightarrow> flag_filters \<Rightarrow> invalid + unit" where
  "validate_filters fx now enc ff =
     (case enc ff of
        Inl message \<Rightarrow> refuse ''filters'' message
      | Inr encoded \<Rightarrow>
          if max_filters_bytes < length encoded then refuse ''filters'' (at_most_bytes max_filters_bytes)
          else if max_groups < length (ff_groups ff)
          then refuse ''filters.groups'' (''at most '' @ decimal max_groups @ '' condition groups'')
          else and_then (validate_multivariate ff) (\<lambda>keys.
            and_then (validate_groups fx now keys 0 (ff_groups ff)) (\<lambda>_.
              validate_payloads fx (ff_variants ff \<noteq> None) keys (ff_payloads ff))))"

record flag_input =
  in_key :: string
  in_name :: string
  in_active :: bool
  in_filters :: flag_filters
  in_continuity :: bool

definition validate_input ::
  "'r flag_externals \<Rightarrow> instant \<Rightarrow> (flag_filters \<Rightarrow> string + string) \<Rightarrow> flag_input \<Rightarrow> invalid + unit" where
  "validate_input fx now enc inp =
     and_then (validate_key (in_key inp)) (\<lambda>_.
     and_then (validate_name (in_name inp)) (\<lambda>_.
       validate_filters fx now enc (in_filters inp)))"

section \<open>What an accepted definition satisfies\<close>

definition key_valid :: "string \<Rightarrow> bool" where
  "key_valid key \<longleftrightarrow> key \<noteq> [] \<and> length key \<le> max_key_bytes \<and> list_all key_byte key"

definition variant_valid :: "flag_variant \<Rightarrow> bool" where
  "variant_valid v \<longleftrightarrow> key_valid (fv_key v) \<and> percentage_ok (fv_rollout v)
     \<and> (\<forall>name. fv_name v = Some name \<longrightarrow> length name \<le> max_name_bytes)"

definition filter_valid :: "'r flag_externals \<Rightarrow> instant \<Rightarrow> property_filter \<Rightarrow> bool" where
  "filter_valid fx now pf \<longleftrightarrow> pf_key pf \<noteq> [] \<and> length (pf_key pf) \<le> max_property_key_bytes
     \<and> length (json_text fx (pf_value pf)) \<le> max_filter_value_bytes
     \<and> (pf_operator pf \<in> {Regex, NotRegex} \<longrightarrow> compile_regex fx (value_to_string fx (pf_value pf)) \<noteq> None)
     \<and> (pf_operator pf \<in> {IsDateBefore, IsDateAfter} \<longrightarrow> flag_date fx now (pf_value pf) \<noteq> None)"

definition group_valid :: "'r flag_externals \<Rightarrow> instant \<Rightarrow> string set \<Rightarrow> condition_group \<Rightarrow> bool" where
  "group_valid fx now keys g \<longleftrightarrow> (\<forall>p. cg_rollout g = Some p \<longrightarrow> percentage_ok p)
     \<and> (\<forall>v. cg_variant g = Some v \<longrightarrow> v \<in> keys)
     \<and> length (cg_properties g) \<le> max_properties_per_group
     \<and> (\<forall>pf \<in> set (cg_properties g). filter_valid fx now pf)"

definition variant_sum :: "f64 \<Rightarrow> flag_variant list \<Rightarrow> f64" where
  "variant_sum = foldl (\<lambda>acc v. f64_add acc (fv_rollout v))"

definition variant_keys :: "flag_filters \<Rightarrow> string set" where
  "variant_keys ff = (case ff_variants ff of None \<Rightarrow> {} | Some vs \<Rightarrow> fv_key ` set vs)"

definition variants_valid :: "flag_filters \<Rightarrow> bool" where
  "variants_valid ff \<longleftrightarrow> (\<forall>vs. ff_variants ff = Some vs \<longrightarrow> vs \<noteq> [] \<and> length vs \<le> max_variants
     \<and> (\<forall>v \<in> set vs. variant_valid v) \<and> distinct (map fv_key vs)
     \<and> \<not> f64_less variant_sum_epsilon (f64_abs (f64_sub (variant_sum (Fin 0) vs) (Fin 100))))"

definition filters_valid ::
  "'r flag_externals \<Rightarrow> instant \<Rightarrow> (flag_filters \<Rightarrow> string + string) \<Rightarrow> flag_filters \<Rightarrow> bool" where
  "filters_valid fx now enc ff \<longleftrightarrow>
     (\<exists>s. enc ff = Inr s \<and> length s \<le> max_filters_bytes) \<and> length (ff_groups ff) \<le> max_groups
     \<and> variants_valid ff \<and> (\<forall>g \<in> set (ff_groups ff). group_valid fx now (variant_keys ff) g)
     \<and> (\<forall>(k, p) \<in> set (ff_payloads ff). length (json_text fx p) \<le> max_payload_bytes
          \<and> (if ff_variants ff = None then k = ''true'' else k \<in> variant_keys ff))"

section \<open>The checks accept exactly these\<close>

lemma is_ok_and_then: "is_ok (and_then r f) \<longleftrightarrow> (\<exists>x. r = Inr x \<and> is_ok (f x))"
  by (cases r) simp_all

lemma unit_ok: "r = Inr x \<longleftrightarrow> is_ok (r :: 'e + unit)"
  by (cases r) simp_all

lemma is_ok_key: "is_ok (validate_key key) \<longleftrightarrow> key_valid key"
  by (auto simp: validate_key_def key_valid_def)

lemma is_ok_name: "is_ok (validate_name name) \<longleftrightarrow> length name \<le> max_name_bytes"
  by (auto simp: validate_name_def)

lemma is_ok_percentage: "is_ok (percentage v field) \<longleftrightarrow> percentage_ok v"
  by (cases v) (auto simp: percentage_def percentage_ok_def f64_le_def)

lemma is_ok_rename: "is_ok (rename_field field r) \<longleftrightarrow> is_ok r"
  by (cases r) (simp_all add: rename_field_def)

lemma validate_variants_ok:
  "validate_variants i keys acc vs = Inr (keys', acc') \<longleftrightarrow>
     (\<forall>v \<in> set vs. variant_valid v) \<and> distinct (map fv_key vs) \<and> fv_key ` set vs \<inter> set keys = {}
     \<and> keys' = rev (map fv_key vs) @ keys \<and> acc' = variant_sum acc vs"
proof (induction vs arbitrary: i keys acc)
  case Nil
  then show ?case by (auto simp: variant_sum_def)
next
  case (Cons v vs)
  have name: "is_ok (case fv_name v of None \<Rightarrow> Inr () | Some name \<Rightarrow> rename_field field (validate_name name))
      \<longleftrightarrow> (\<forall>name. fv_name v = Some name \<longrightarrow> length name \<le> max_name_bytes)" for field
    by (simp add: is_ok_rename is_ok_name split: option.split)
  have fresh: "is_ok (if fv_key v \<in> set keys then refuse field msg else Inr ()) \<longleftrightarrow> fv_key v \<notin> set keys" for field msg
    by simp
  show ?case
    unfolding validate_variants.simps Let_def and_then_Inr_iff Cons.IH unit_ok name fresh is_ok_rename is_ok_key
      is_ok_percentage
    by (auto simp: variant_valid_def variant_sum_def)
qed

lemma validate_filter_ok: "is_ok (validate_filter fx now field pf) \<longleftrightarrow> filter_valid fx now pf"
  unfolding validate_filter_def filter_valid_def by (simp split: if_split) (auto simp: not_less)

lemma validate_properties_ok:
  "is_ok (validate_properties fx now field i pfs) \<longleftrightarrow> (\<forall>pf \<in> set pfs. filter_valid fx now pf)"
  by (induction pfs arbitrary: i) (simp_all add: is_ok_and_then unit_ok validate_filter_ok)

lemma validate_groups_ok:
  "is_ok (validate_groups fx now keys i gs) \<longleftrightarrow> (\<forall>g \<in> set gs. group_valid fx now (set keys) g)"
proof (induction gs arbitrary: i)
  case (Cons g gs)
  have r: "is_ok (case cg_rollout g of None \<Rightarrow> Inr () | Some rollout \<Rightarrow> percentage rollout field)
      \<longleftrightarrow> (\<forall>p. cg_rollout g = Some p \<longrightarrow> percentage_ok p)" for field
    by (simp add: is_ok_percentage split: option.split)
  have v: "is_ok (case cg_variant g of None \<Rightarrow> Inr ()
        | Some v \<Rightarrow> if v \<in> set keys then Inr () else refuse field msg)
      \<longleftrightarrow> (\<forall>v. cg_variant g = Some v \<longrightarrow> v \<in> set keys)" for field msg
    by (simp split: option.split)
  have n: "is_ok (if a < b then refuse field msg else Inr ()) \<longleftrightarrow> b \<le> a" for a b :: nat and field msg
    by simp
  show ?case
    unfolding validate_groups.simps Let_def is_ok_and_then unit_ok Cons.IH r v n validate_properties_ok
    by (auto simp: group_valid_def)
qed simp

lemma validate_payloads_ok:
  "is_ok (validate_payloads fx multi keys ps) \<longleftrightarrow>
     (\<forall>(k, p) \<in> set ps. length (json_text fx p) \<le> max_payload_bytes \<and> (if multi then k \<in> set keys else k = ''true''))"
proof (induction ps)
  case (Cons kp ps)
  have refuse: "is_ok (if b then refuse field msg else r) \<longleftrightarrow> \<not> b \<and> is_ok r" for b field msg r by simp
  obtain k p where "kp = (k, p)" by (cases kp)
  then show ?case
    by (simp only: validate_payloads.simps refuse Cons.IH list.set ball_simps prod.case not_not not_less conj_ac)
qed simp

lemma validate_multivariate_ok:
  "validate_multivariate ff = Inr keys \<Longrightarrow> variants_valid ff \<and> set keys = variant_keys ff"
  "variants_valid ff \<Longrightarrow> \<exists>keys. validate_multivariate ff = Inr keys"
  by (auto simp: validate_multivariate_def variants_valid_def variant_keys_def and_then_Inr_iff
      validate_variants_ok split: option.splits if_splits)

lemma validate_filters_ok: "is_ok (validate_filters fx now enc ff) \<longleftrightarrow> filters_valid fx now enc ff"
proof (cases "validate_multivariate ff")
  case (Inl e)
  then have "\<not> variants_valid ff" using validate_multivariate_ok(2) [of ff] by auto
  then show ?thesis using Inl by (auto simp: validate_filters_def filters_valid_def split: sum.split)
next
  case (Inr keys)
  then have k: "variants_valid ff" "set keys = variant_keys ff" using validate_multivariate_ok(1) by blast+
  show ?thesis using k
    by (auto simp: validate_filters_def filters_valid_def Inr is_ok_and_then unit_ok validate_groups_ok
        validate_payloads_ok not_less split: sum.split) fastforce+
qed

lemma validate_input_ok:
  "is_ok (validate_input fx now enc inp) \<longleftrightarrow>
     key_valid (in_key inp) \<and> length (in_name inp) \<le> max_name_bytes \<and> filters_valid fx now enc (in_filters inp)"
  by (simp add: validate_input_def is_ok_and_then unit_ok is_ok_key is_ok_name validate_filters_ok)

end
