(* ===== verification/FlagStore.thy ===== *)
theory FlagStore
  imports FlagValidate
begin

text \<open>
  The flag definitions in \<open>control.db\<close>, \<open>src/flags/store.rs\<close>: the table \<open>flag_definitions\<close> with its
  partial unique index, the operations as transactions on it, and the cache of compiled definitions.
  Each operation takes the instant of the call and its text \<open>stamp\<close>. \<open>enc\<close> and \<open>dec\<close> are
  \<open>serde_json\<close> on the filters. SQLite's own failures leave the database as it is and are not modelled.
\<close>

section \<open>The table\<close>

datatype flag_store_error =
    StoreDatabase | InvalidStorage | Unavailable | FlagNotFound | FlagConflict
  | FlagInvalid invalid | LimitExceeded string | Corrupt string

record flag_row =
  fr_id :: nat
  fr_project :: string
  fr_key :: string
  fr_name :: string
  fr_active :: bool
  fr_filters :: string
  fr_continuity :: bool
  fr_version :: nat
  fr_deleted :: bool
  fr_created_at :: string
  fr_updated_at :: string

text \<open>\<open>next_row\<close> is the next \<open>AUTOINCREMENT\<close> id.\<close>

record flag_db =
  flag_rows :: "flag_row list"
  next_row :: nat
  db_projects :: "string list"

record 'r flag_env =
  fe_externals :: "'r flag_externals"
  fe_encode :: "flag_filters \<Rightarrow> string + string"
  fe_decode :: "string \<Rightarrow> string + flag_filters"

definition decode_row :: "'r flag_env \<Rightarrow> flag_row \<Rightarrow> flag_store_error + feature_flag \<times> nat" where
  "decode_row fe r =
     (case fe_decode fe (fr_filters r) of
        Inl message \<Rightarrow> Inl (Corrupt (''flag '' @ decimal (fr_id r) @ '': '' @ message))
      | Inr filters \<Rightarrow> Inr
          (\<lparr>flag_id = int (fr_id r), flag_key = fr_key r, flag_name = fr_name r, flag_active = fr_active r,
            flag_filters = filters, flag_continuity = fr_continuity r,
            flag_created_at = fr_created_at r, flag_updated_at = fr_updated_at r\<rparr>, fr_version r))"

definition live :: "string \<Rightarrow> flag_row \<Rightarrow> bool" where
  "live pr r \<longleftrightarrow> fr_project r = pr \<and> \<not> fr_deleted r"

fun decode_rows :: "'r flag_env \<Rightarrow> flag_row list \<Rightarrow> flag_store_error + (feature_flag \<times> nat) list" where
  "decode_rows fe [] = Inr []"
| "decode_rows fe (r # rs) =
     and_then (decode_row fe r) (\<lambda>f. and_then (decode_rows fe rs) (\<lambda>fs. Inr (f # fs)))"

text \<open>\<open>ORDER BY id\<close> or \<open>ORDER BY id DESC\<close>, with the limit of a project.\<close>

definition load_live :: "'r flag_env \<Rightarrow> flag_db \<Rightarrow> string \<Rightarrow> bool \<Rightarrow> flag_store_error + (feature_flag \<times> nat) list" where
  "load_live fe db pr descending =
     (let rs = sort_key fr_id (filter (live pr) (flag_rows db)) in
      decode_rows fe (take max_flags_per_project (if descending then rev rs else rs)))"

definition flag_list :: "'r flag_env \<Rightarrow> flag_db \<Rightarrow> string \<Rightarrow> flag_store_error + feature_flag list" where
  "flag_list fe db pr = and_then (load_live fe db pr True) (\<lambda>fs. Inr (map fst fs))"

definition flag_definitions :: "'r flag_env \<Rightarrow> flag_db \<Rightarrow> string \<Rightarrow> flag_store_error + (feature_flag \<times> nat) list" where
  "flag_definitions fe db pr = load_live fe db pr False"

definition load_flag :: "'r flag_env \<Rightarrow> flag_db \<Rightarrow> string \<Rightarrow> nat \<Rightarrow> flag_store_error + feature_flag \<times> nat" where
  "load_flag fe db pr i =
     (case find (\<lambda>r. live pr r \<and> fr_id r = i) (flag_rows db) of
        None \<Rightarrow> Inl FlagNotFound
      | Some r \<Rightarrow> decode_row fe r)"

definition get_flag :: "'r flag_env \<Rightarrow> flag_db \<Rightarrow> string \<Rightarrow> nat \<Rightarrow> flag_store_error + feature_flag" where
  "get_flag fe db pr i = and_then (load_flag fe db pr i) (\<lambda>(flag, _). Inr flag)"

definition encode_filters :: "'r flag_env \<Rightarrow> flag_filters \<Rightarrow> flag_store_error + string" where
  "encode_filters fe ff =
     (case fe_encode fe ff of
        Inl message \<Rightarrow> Inl (FlagInvalid \<lparr>iv_field = ''filters'', iv_message = message\<rparr>)
      | Inr s \<Rightarrow> Inr s)"

definition checked :: "invalid + unit \<Rightarrow> flag_store_error + unit" where
  "checked r = (case r of Inl e \<Rightarrow> Inl (FlagInvalid e) | Inr u \<Rightarrow> Inr u)"

text \<open>The unique index on live keys, apart from the row being written.\<close>

definition key_taken :: "flag_db \<Rightarrow> string \<Rightarrow> string \<Rightarrow> nat option \<Rightarrow> bool" where
  "key_taken db pr key self = list_ex (\<lambda>r. live pr r \<and> fr_key r = key \<and> Some (fr_id r) \<noteq> self) (flag_rows db)"

section \<open>Writing\<close>

definition create_row ::
  "'r flag_env \<Rightarrow> instant \<Rightarrow> string \<Rightarrow> string \<Rightarrow> flag_input \<Rightarrow> flag_db \<Rightarrow> flag_store_error + nat \<times> flag_db" where
  "create_row fe now stamp pr inp db =
     and_then (checked (validate_input (fe_externals fe) now (fe_encode fe) inp)) (\<lambda>_.
     and_then (encode_filters fe (in_filters inp)) (\<lambda>filters.
       if max_flags_per_project \<le> length (filter (live pr) (flag_rows db))
       then Inl (LimitExceeded (''a project may have at most '' @ decimal max_flags_per_project @ '' feature flags''))
       else if pr \<notin> set (db_projects db) then Inl FlagNotFound
       else if key_taken db pr (in_key inp) None then Inl FlagConflict
       else Inr (next_row db, db\<lparr>
         flag_rows := flag_rows db @
           [\<lparr>fr_id = next_row db, fr_project = pr, fr_key = in_key inp, fr_name = in_name inp,
             fr_active = in_active inp, fr_filters = filters, fr_continuity = in_continuity inp,
             fr_version = 1, fr_deleted = False, fr_created_at = stamp, fr_updated_at = stamp\<rparr>],
         next_row := next_row db + 1\<rparr>)))"

record flag_patch =
  pa_key :: "string option"
  pa_name :: "string option"
  pa_active :: "bool option"
  pa_filters :: "flag_filters option"
  pa_continuity :: "bool option"

definition unwrap_or :: "'a option \<Rightarrow> 'a \<Rightarrow> 'a" where
  "unwrap_or x d = (case x of None \<Rightarrow> d | Some y \<Rightarrow> y)"

definition patched :: "flag_patch \<Rightarrow> feature_flag \<Rightarrow> flag_input" where
  "patched patch flag =
     \<lparr>in_key = unwrap_or (pa_key patch) (flag_key flag), in_name = unwrap_or (pa_name patch) (flag_name flag),
      in_active = unwrap_or (pa_active patch) (flag_active flag),
      in_filters = unwrap_or (pa_filters patch) (flag_filters flag),
      in_continuity = unwrap_or (pa_continuity patch) (flag_continuity flag)\<rparr>"

definition update_rows :: "(flag_row \<Rightarrow> flag_row) \<Rightarrow> string \<Rightarrow> nat \<Rightarrow> flag_db \<Rightarrow> flag_db" where
  "update_rows f pr i db =
     db\<lparr>flag_rows := map (\<lambda>r. if live pr r \<and> fr_id r = i then f r else r) (flag_rows db)\<rparr>"

definition update_row ::
  "'r flag_env \<Rightarrow> instant \<Rightarrow> string \<Rightarrow> string \<Rightarrow> nat \<Rightarrow> flag_patch \<Rightarrow> flag_db \<Rightarrow>
    flag_store_error + feature_flag \<times> flag_db" where
  "update_row fe now stamp pr i patch db =
     and_then (load_flag fe db pr i) (\<lambda>(current, _).
       (let inp = patched patch current in
        and_then (checked (validate_input (fe_externals fe) now (fe_encode fe) inp)) (\<lambda>_.
        and_then (encode_filters fe (in_filters inp)) (\<lambda>filters.
          if key_taken db pr (in_key inp) (Some i) then Inl FlagConflict
          else
            (let db' = update_rows (\<lambda>r. r\<lparr>fr_key := in_key inp, fr_name := in_name inp, fr_active := in_active inp,
                   fr_filters := filters, fr_continuity := in_continuity inp,
                   fr_version := fr_version r + 1, fr_updated_at := stamp\<rparr>) pr i db in
             and_then (load_flag fe db' pr i) (\<lambda>(updated, _). Inr (updated, db')))))))"

definition delete_row :: "string \<Rightarrow> string \<Rightarrow> nat \<Rightarrow> flag_db \<Rightarrow> flag_store_error + flag_db" where
  "delete_row stamp pr i db =
     (if \<not> list_ex (\<lambda>r. live pr r \<and> fr_id r = i) (flag_rows db) then Inl FlagNotFound
      else Inr (update_rows (\<lambda>r. r\<lparr>fr_deleted := True, fr_active := False, fr_version := fr_version r + 1,
        fr_updated_at := stamp\<rparr>) pr i db))"

section \<open>The cache\<close>

definition max_cached_projects :: nat where
  "max_cached_projects = 1024"

type_synonym 'r project_flags = "'r compiled_flag list"

record 'r flag_cache =
  generation :: u64
  cached :: "(string \<times> 'r project_flags) list"

definition cache_start :: "'r flag_cache" where
  "cache_start = \<lparr>generation = 0, cached = []\<rparr>"

definition invalidate :: "string \<Rightarrow> 'r flag_cache \<Rightarrow> 'r flag_cache" where
  "invalidate pr c = \<lparr>generation = generation c + 1, cached = AList.delete pr (cached c)\<rparr>"

definition compile_all :: "'r flag_env \<Rightarrow> (feature_flag \<times> nat) list \<Rightarrow> 'r project_flags" where
  "compile_all fe = map (\<lambda>(flag, version). compile_flag (fe_externals fe) flag (int version))"

text \<open>The end of a reader that missed: keep the definitions when no write came in between.\<close>

definition cache_insert :: "u64 \<Rightarrow> string \<Rightarrow> 'r project_flags \<Rightarrow> 'r flag_cache \<Rightarrow> 'r flag_cache" where
  "cache_insert gen pr flags c =
     (if generation c = gen
      then c\<lparr>cached := AList.update pr flags (if max_cached_projects \<le> length (cached c) then [] else cached c)\<rparr>
      else c)"

text \<open>One reader from beginning to end.\<close>

definition compiled ::
  "'r flag_env \<Rightarrow> flag_db \<Rightarrow> string \<Rightarrow> 'r flag_cache \<Rightarrow> (flag_store_error + 'r project_flags) \<times> 'r flag_cache" where
  "compiled fe db pr c =
     (case map_of (cached c) pr of
        Some flags \<Rightarrow> (Inr flags, c)
      | None \<Rightarrow>
          (case flag_definitions fe db pr of
             Inl e \<Rightarrow> (Inl e, c)
           | Inr fs \<Rightarrow> (Inr (compile_all fe fs), cache_insert (generation c) pr (compile_all fe fs) c)))"

definition create_flag where
  "create_flag fe now stamp pr inp db c =
     (case create_row fe now stamp pr inp db of
        Inl e \<Rightarrow> (Inl e, db, c)
      | Inr (i, db') \<Rightarrow> (get_flag fe db' pr i, db', invalidate pr c))"

definition update_flag where
  "update_flag fe now stamp pr i patch db c =
     (case update_row fe now stamp pr i patch db of
        Inl e \<Rightarrow> (Inl e, db, c)
      | Inr (flag, db') \<Rightarrow> (Inr flag, db', invalidate pr c))"

definition delete_flag where
  "delete_flag stamp pr i db c =
     (case delete_row stamp pr i db of
        Inl e \<Rightarrow> (Inl e, db, c)
      | Inr db' \<Rightarrow> (Inr (), db', invalidate pr c))"

section \<open>Readers and writers at the same time\<close>

text \<open>
  Every lock is released between the steps of an operation: a reader misses and remembers the
  generation, loads the definitions, and inserts them; a writer commits and then invalidates.
  \<open>committed\<close> holds the projects of the writers in between. \<open>invalidations\<close> counts them without
  the wrap-around of \<open>generation\<close>.
\<close>

datatype 'r reader =
    Missed string u64 nat
  | Loaded string u64 nat "'r project_flags"

record 'r store_state =
  st_db :: flag_db
  st_cache :: "'r flag_cache"
  st_readers :: "'r reader list"
  committed :: "string list"
  invalidations :: nat

definition commits :: "'r flag_env \<Rightarrow> string \<Rightarrow> flag_db \<Rightarrow> flag_db \<Rightarrow> bool" where
  "commits fe pr db db' \<longleftrightarrow>
     (\<exists>now stamp inp i. create_row fe now stamp pr inp db = Inr (i, db'))
     \<or> (\<exists>now stamp i patch flag. update_row fe now stamp pr i patch db = Inr (flag, db'))
     \<or> (\<exists>stamp i. delete_row stamp pr i db = Inr db')"

inductive store_step :: "'r flag_env \<Rightarrow> 'r store_state \<Rightarrow> 'r store_state \<Rightarrow> bool" for fe where
  commit: "commits fe pr (st_db s) db' \<Longrightarrow>
    store_step fe s (s\<lparr>st_db := db', committed := pr # committed s\<rparr>)"
| invalidated: "pr \<in> set (committed s) \<Longrightarrow>
    store_step fe s (s\<lparr>st_cache := invalidate pr (st_cache s), committed := remove1 pr (committed s),
      invalidations := invalidations s + 1\<rparr>)"
| missed: "map_of (cached (st_cache s)) pr = None \<Longrightarrow>
    store_step fe s (s\<lparr>st_readers := Missed pr (generation (st_cache s)) (invalidations s) # st_readers s\<rparr>)"
| loaded: "Missed pr g n \<in> set (st_readers s) \<Longrightarrow> flag_definitions fe (st_db s) pr = Inr fs \<Longrightarrow>
    store_step fe s (s\<lparr>st_readers := Loaded pr g n (compile_all fe fs) # remove1 (Missed pr g n) (st_readers s)\<rparr>)"
| failed: "Missed pr g n \<in> set (st_readers s) \<Longrightarrow> flag_definitions fe (st_db s) pr = Inl e \<Longrightarrow>
    store_step fe s (s\<lparr>st_readers := remove1 (Missed pr g n) (st_readers s)\<rparr>)"
| inserted: "Loaded pr g n flags \<in> set (st_readers s) \<Longrightarrow>
    store_step fe s (s\<lparr>st_cache := cache_insert g pr flags (st_cache s),
      st_readers := remove1 (Loaded pr g n flags) (st_readers s)\<rparr>)"

definition store_start :: "flag_db \<Rightarrow> 'r store_state" where
  "store_start db = \<lparr>st_db = db, st_cache = cache_start, st_readers = [], committed = [], invalidations = 0\<rparr>"

end
