(* ===== verification/FlagStoreCorrect.thy ===== *)
theory FlagStoreCorrect
  imports FlagStore
begin

text \<open>
  The invariant of the flag table, what each write does to it, and the coherence of the cache of
  compiled definitions under concurrent readers and writers.
\<close>

section \<open>The table\<close>

definition flag_db_inv :: "flag_db \<Rightarrow> bool" where
  "flag_db_inv db \<longleftrightarrow>
     distinct (map fr_id (flag_rows db)) \<and> (\<forall>r \<in> set (flag_rows db). fr_id r < next_row db)
     \<and> (\<forall>r \<in> set (flag_rows db). 1 \<le> fr_version r \<and> key_valid (fr_key r) \<and> length (fr_name r) \<le> max_name_bytes)
     \<and> (\<forall>pr. distinct (map fr_key (filter (live pr) (flag_rows db))))
     \<and> (\<forall>pr. length (filter (live pr) (flag_rows db)) \<le> max_flags_per_project)"

lemma checked_ok: "checked r = Inr u \<longleftrightarrow> is_ok r"
  by (cases r) (simp_all add: checked_def)

lemma encode_filters_ok: "encode_filters fe ff = Inr s \<longleftrightarrow> fe_encode fe ff = Inr s"
  by (cases "fe_encode fe ff") (simp_all add: encode_filters_def)

lemma create_row_cases:
  assumes "create_row fe now stamp pr inp db = Inr (i, db')"
  obtains filters where "fe_encode fe (in_filters inp) = Inr filters" "i = next_row db"
    "is_ok (validate_input (fe_externals fe) now (fe_encode fe) inp)"
    "length (filter (live pr) (flag_rows db)) < max_flags_per_project" "pr \<in> set (db_projects db)"
    "\<not> key_taken db pr (in_key inp) None"
    "db' = db\<lparr>flag_rows := flag_rows db @
       [\<lparr>fr_id = next_row db, fr_project = pr, fr_key = in_key inp, fr_name = in_name inp,
         fr_active = in_active inp, fr_filters = filters, fr_continuity = in_continuity inp,
         fr_version = 1, fr_deleted = False, fr_created_at = stamp, fr_updated_at = stamp\<rparr>],
       next_row := next_row db + 1\<rparr>"
  using assms
  by (auto simp: create_row_def and_then_Inr_iff checked_ok encode_filters_ok not_le split: if_splits)

lemma find_live:
  "find (\<lambda>r. live pr r \<and> fr_id r = i) rows = Some r \<Longrightarrow> r \<in> set rows \<and> live pr r \<and> fr_id r = i"
  by (auto simp: find_Some_iff)

lemma update_row_cases:
  assumes "update_row fe now stamp pr i patch db = Inr (flag, db')"
  obtains current v inp filters where "load_flag fe db pr i = Inr (current, v)" "inp = patched patch current"
    "is_ok (validate_input (fe_externals fe) now (fe_encode fe) inp)"
    "fe_encode fe (in_filters inp) = Inr filters" "\<not> key_taken db pr (in_key inp) (Some i)"
    "db' = update_rows (\<lambda>r. r\<lparr>fr_key := in_key inp, fr_name := in_name inp, fr_active := in_active inp,
       fr_filters := filters, fr_continuity := in_continuity inp,
       fr_version := fr_version r + 1, fr_updated_at := stamp\<rparr>) pr i db"
    "\<exists>v. load_flag fe db' pr i = Inr (flag, v)"
  using assms
  by (auto simp: update_row_def and_then_Inr_iff checked_ok encode_filters_ok Let_def split: if_splits)

text \<open>What a row update leaves alone.\<close>

lemma update_rows_simps [simp]:
  "next_row (update_rows f pr i db) = next_row db" "db_projects (update_rows f pr i db) = db_projects db"
  "flag_rows (update_rows f pr i db) = map (\<lambda>r. if live pr r \<and> fr_id r = i then f r else r) (flag_rows db)"
  by (simp_all add: update_rows_def)

lemma filter_live_update:
  assumes "\<And>r. fr_project (f r) = fr_project r" and "q \<noteq> pr"
  shows "filter (live q) (flag_rows (update_rows f pr i db)) = filter (live q) (flag_rows db)"
proof -
  have "filter (live q) (map (\<lambda>r. if live pr r \<and> fr_id r = i then f r else r) rs) = filter (live q) rs" for rs
    using assms by (induction rs) (auto simp: live_def)
  then show ?thesis by simp
qed

lemma create_row_inv:
  assumes inv: "flag_db_inv db" and c: "create_row fe now stamp pr inp db = Inr (i, db')"
  shows "flag_db_inv db'"
proof -
  obtain filters where f: "is_ok (validate_input (fe_externals fe) now (fe_encode fe) inp)"
    "length (filter (live pr) (flag_rows db)) < max_flags_per_project"
    "\<not> key_taken db pr (in_key inp) None"
    "db' = db\<lparr>flag_rows := flag_rows db @
       [\<lparr>fr_id = next_row db, fr_project = pr, fr_key = in_key inp, fr_name = in_name inp,
         fr_active = in_active inp, fr_filters = filters, fr_continuity = in_continuity inp,
         fr_version = 1, fr_deleted = False, fr_created_at = stamp, fr_updated_at = stamp\<rparr>],
       next_row := next_row db + 1\<rparr>"
    using c by (rule create_row_cases)
  have fresh: "in_key inp \<notin> fr_key ` set (filter (live pr) (flag_rows db))"
    using f(3) by (auto simp: key_taken_def list_ex_iff)
  have valid: "key_valid (in_key inp)" "length (in_name inp) \<le> max_name_bytes"
    using f(1) by (simp_all add: validate_input_ok)
  show ?thesis
    using inv f(2) fresh valid unfolding flag_db_inv_def f(4)
    by (auto simp: live_def less_Suc_eq image_iff)
qed

lemma distinct_keys_update_rows:
  assumes ids: "distinct (map fr_id rs)" and d: "distinct (map fr_key (filter (live pr) rs))"
    and f: "\<And>r. fr_project (f r) = fr_project r \<and> fr_deleted (f r) = fr_deleted r \<and> fr_key (f r) = key"
    and free: "\<forall>r \<in> set rs. live pr r \<and> fr_key r = key \<longrightarrow> fr_id r = i"
  shows "distinct (map fr_key (filter (live pr) (map (\<lambda>r. if live pr r \<and> fr_id r = i then f r else r) rs)))"
  using ids d free
proof (induction rs)
  case (Cons r rs)
  have live_f: "live pr (f r) = live pr r" for r using f by (simp add: live_def)
  have keys: "fr_key ` set (filter (live pr) (map (\<lambda>r. if live pr r \<and> fr_id r = i then f r else r) rs))
      \<subseteq> (if \<exists>r \<in> set rs. live pr r \<and> fr_id r = i then {key} else {})
        \<union> fr_key ` {r \<in> set rs. live pr r \<and> fr_id r \<noteq> i}"
    using f live_f by auto
  show ?case
  proof (cases "live pr r \<and> fr_id r = i")
    case True
    have "fr_id r \<notin> fr_id ` set rs" using Cons.prems(1) by simp
    then have "\<forall>s \<in> set rs. fr_id s \<noteq> i" using True by blast
    then have "key \<notin> fr_key ` set (filter (live pr) (map (\<lambda>r. if live pr r \<and> fr_id r = i then f r else r) rs))"
      using Cons.prems(3) keys by fastforce
    then show ?thesis using Cons True live_f f by auto
  next
    case False
    show ?thesis
    proof (cases "live pr r")
      case True
      then have "fr_key r \<noteq> key" using False Cons.prems(3) by auto
      moreover have "fr_key r \<notin> fr_key ` {r \<in> set rs. live pr r \<and> fr_id r \<noteq> i}"
        using Cons.prems(2) True by auto
      ultimately have "fr_key r \<notin> fr_key ` set (filter (live pr) (map (\<lambda>r. if live pr r \<and> fr_id r = i then f r else r) rs))"
        using keys by (auto split: if_splits)
      then show ?thesis using Cons False True by auto
    qed (use Cons False in auto)
  qed
qed simp

lemma length_live_update:
  assumes "\<And>r. fr_project (f r) = fr_project r" and "\<And>r. fr_deleted r \<Longrightarrow> fr_deleted (f r)"
  shows "length (filter (live q) (map (\<lambda>r. if live pr r \<and> fr_id r = i then f r else r) rs)) \<le> length (filter (live q) rs)"
  using assms by (induction rs) (auto simp: live_def)

lemma update_row_inv:
  assumes inv: "flag_db_inv db" and u: "update_row fe now stamp pr i patch db = Inr (flag, db')"
  shows "flag_db_inv db'"
proof -
  obtain inp filters where f: "is_ok (validate_input (fe_externals fe) now (fe_encode fe) inp)"
    "\<not> key_taken db pr (in_key inp) (Some i)"
    "db' = update_rows (\<lambda>r. r\<lparr>fr_key := in_key inp, fr_name := in_name inp, fr_active := in_active inp,
       fr_filters := filters, fr_continuity := in_continuity inp,
       fr_version := fr_version r + 1, fr_updated_at := stamp\<rparr>) pr i db"
    using u by (rule update_row_cases)
  let ?f = "\<lambda>r. r\<lparr>fr_key := in_key inp, fr_name := in_name inp, fr_active := in_active inp,
       fr_filters := filters, fr_continuity := in_continuity inp,
       fr_version := fr_version r + 1, fr_updated_at := stamp\<rparr>"
  have valid: "key_valid (in_key inp)" "length (in_name inp) \<le> max_name_bytes"
    using f(1) by (simp_all add: validate_input_ok)
  have free: "\<forall>r \<in> set (flag_rows db). live pr r \<and> fr_key r = in_key inp \<longrightarrow> fr_id r = i"
    using f(2) by (auto simp: key_taken_def list_ex_iff)
  have ids: "map fr_id (flag_rows db') = map fr_id (flag_rows db)"
    unfolding f(3) by (simp add: map_idI)
  show ?thesis
    unfolding flag_db_inv_def
  proof (intro conjI allI)
    show "distinct (map fr_id (flag_rows db'))" using inv by (simp add: ids flag_db_inv_def)
    show "\<forall>r \<in> set (flag_rows db'). fr_id r < next_row db'"
      using inv unfolding f(3) by (auto simp: flag_db_inv_def)
    show "\<forall>r \<in> set (flag_rows db'). 1 \<le> fr_version r \<and> key_valid (fr_key r) \<and> length (fr_name r) \<le> max_name_bytes"
      using inv valid unfolding f(3) by (auto simp: flag_db_inv_def)
    show "distinct (map fr_key (filter (live q) (flag_rows db')))" for q
    proof (cases "q = pr")
      case True
      have "distinct (map fr_id (flag_rows db))" "distinct (map fr_key (filter (live pr) (flag_rows db)))"
        using inv by (simp_all add: flag_db_inv_def)
      from distinct_keys_update_rows [OF this _ free, of ?f] show ?thesis unfolding f(3) update_rows_simps True by simp
    next
      case False
      then show ?thesis using inv filter_live_update [of ?f q pr i db] unfolding f(3) by (simp add: flag_db_inv_def)
    qed
    show "length (filter (live q) (flag_rows db')) \<le> max_flags_per_project" for q
    proof -
      have "length (filter (live q) (flag_rows db')) \<le> length (filter (live q) (flag_rows db))"
        unfolding f(3) update_rows_simps by (rule length_live_update) simp_all
      also have "\<dots> \<le> max_flags_per_project" using inv by (simp add: flag_db_inv_def)
      finally show ?thesis .
    qed
  qed
qed

lemma delete_row_inv:
  assumes inv: "flag_db_inv db" and d: "delete_row stamp pr i db = Inr db'"
  shows "flag_db_inv db'"
proof -
  let ?f = "\<lambda>r. r\<lparr>fr_deleted := True, fr_active := False, fr_version := fr_version r + 1, fr_updated_at := stamp\<rparr>"
  have db': "db' = update_rows ?f pr i db" using d by (auto simp: delete_row_def split: if_splits)
  have ids: "map fr_id (flag_rows db') = map fr_id (flag_rows db)" unfolding db' by (simp add: map_idI)
  have keys: "distinct (map fr_key (filter (live q) (map (\<lambda>r. if live pr r \<and> fr_id r = i then ?f r else r) rs)))"
    if "distinct (map fr_key (filter (live q) rs))" for q rs
    using that by (induction rs) (auto simp: live_def split: if_splits)
  show ?thesis
    unfolding flag_db_inv_def
  proof (intro conjI allI)
    show "distinct (map fr_id (flag_rows db'))" using inv by (simp add: ids flag_db_inv_def)
    show "\<forall>r \<in> set (flag_rows db'). fr_id r < next_row db'"
      using inv unfolding db' by (auto simp: flag_db_inv_def)
    show "\<forall>r \<in> set (flag_rows db'). 1 \<le> fr_version r \<and> key_valid (fr_key r) \<and> length (fr_name r) \<le> max_name_bytes"
      using inv unfolding db' by (auto simp: flag_db_inv_def)
    show "distinct (map fr_key (filter (live q) (flag_rows db')))" for q
      using inv keys unfolding db' update_rows_simps flag_db_inv_def by blast
    show "length (filter (live q) (flag_rows db')) \<le> max_flags_per_project" for q
    proof -
      have "length (filter (live q) (flag_rows db')) \<le> length (filter (live q) (flag_rows db))"
        unfolding db' update_rows_simps by (rule length_live_update) simp_all
      also have "\<dots> \<le> max_flags_per_project" using inv by (simp add: flag_db_inv_def)
      finally show ?thesis .
    qed
  qed
qed

lemma commits_inv: "commits fe pr db db' \<Longrightarrow> flag_db_inv db \<Longrightarrow> flag_db_inv db'"
  unfolding commits_def using create_row_inv update_row_inv delete_row_inv by metis

text \<open>A write to one project does not change the definitions of another.\<close>

lemma commits_other:
  assumes "commits fe pr db db'" and "q \<noteq> pr"
  shows "flag_definitions fe db' q = flag_definitions fe db q"
proof -
  have "filter (live q) (flag_rows db') = filter (live q) (flag_rows db)"
    using assms(1) unfolding commits_def
  proof (elim disjE exE)
    fix now stamp inp i
    assume "create_row fe now stamp pr inp db = Inr (i, db')"
    then show ?thesis by (rule create_row_cases) (use assms(2) in \<open>simp add: live_def\<close>)
  next
    fix now stamp i patch flag
    assume "update_row fe now stamp pr i patch db = Inr (flag, db')"
    then show ?thesis by (rule update_row_cases) (use assms(2) in \<open>simp add: filter_live_update del: update_rows_simps\<close>)
  next
    fix stamp i
    assume "delete_row stamp pr i db = Inr db'"
    then show ?thesis
      using assms(2) by (auto simp: delete_row_def filter_live_update simp del: update_rows_simps split: if_splits)
  qed
  then show ?thesis by (simp add: flag_definitions_def load_live_def)
qed

section \<open>The cache\<close>

definition current :: "'r flag_env \<Rightarrow> flag_db \<Rightarrow> string \<Rightarrow> 'r project_flags \<Rightarrow> bool" where
  "current fe db pr flags \<longleftrightarrow> (\<exists>fs. flag_definitions fe db pr = Inr fs \<and> flags = compile_all fe fs)"

fun reader_ok :: "'r flag_env \<Rightarrow> 'r store_state \<Rightarrow> 'r reader \<Rightarrow> bool" where
  "reader_ok fe s (Missed pr g n) \<longleftrightarrow> g = word_of_nat n \<and> n \<le> invalidations s"
| "reader_ok fe s (Loaded pr g n flags) \<longleftrightarrow> g = word_of_nat n \<and> n \<le> invalidations s
     \<and> (n < invalidations s \<or> pr \<in> set (committed s) \<or> current fe (st_db s) pr flags)"

definition coherent :: "'r flag_env \<Rightarrow> 'r store_state \<Rightarrow> bool" where
  "coherent fe s \<longleftrightarrow>
     generation (st_cache s) = word_of_nat (invalidations s)
     \<and> (\<forall>pr flags. map_of (cached (st_cache s)) pr = Some flags \<longrightarrow>
          pr \<in> set (committed s) \<or> current fe (st_db s) pr flags)
     \<and> (\<forall>r \<in> set (st_readers s). reader_ok fe s r)"

lemma current_commit: "commits fe pr db db' \<Longrightarrow> q \<noteq> pr \<Longrightarrow> current fe db' q flags = current fe db q flags"
  by (simp add: current_def commits_other)

lemma coherent_step:
  assumes "store_step fe s s'" and "coherent fe s" and few: "invalidations s < 2 ^ 64"
  shows "coherent fe s'"
  using assms(1)
proof cases
  case (commit pr db')
  have "reader_ok fe s' r" if "reader_ok fe s r" for r
    using that current_commit [OF commit(2)] unfolding commit(1) by (cases r) auto
  then show ?thesis
    using assms(2) current_commit [OF commit(2)] unfolding commit(1) coherent_def by fastforce
next
  case (invalidated pr)
  have "reader_ok fe s' r" if "reader_ok fe s r" for r
    using that unfolding invalidated(1) by (cases r) auto
  moreover have "generation (st_cache s') = word_of_nat (invalidations s')"
    using assms(2) unfolding invalidated(1) coherent_def by (simp add: invalidate_def)
  moreover have "q \<in> set (committed s') \<or> current fe (st_db s') q flags"
    if "map_of (cached (st_cache s')) q = Some flags" for q flags
  proof -
    have q: "q \<noteq> pr" "map_of (cached (st_cache s)) q = Some flags"
      using that unfolding invalidated(1) by (auto simp: invalidate_def alist_simps split: if_splits)
    then have "q \<in> set (committed s) \<or> current fe (st_db s) q flags" using assms(2) by (simp add: coherent_def)
    then show ?thesis using q(1) unfolding invalidated(1) by (simp add: in_set_remove1)
  qed
  ultimately show ?thesis using assms(2) unfolding invalidated(1) coherent_def by simp
next
  case (missed pr)
  have "reader_ok fe s' r" if "reader_ok fe s r" for r using that unfolding missed(1) by (cases r) auto
  then show ?thesis using assms(2) unfolding missed(1) coherent_def by simp
next
  case (loaded pr g n fs)
  have "reader_ok fe s' r" if "reader_ok fe s r" for r using that unfolding loaded(1) by (cases r) auto
  moreover have "reader_ok fe s (Missed pr g n)" using assms(2) loaded(2) unfolding coherent_def by blast
  then have "reader_ok fe s' (Loaded pr g n (compile_all fe fs))"
    using loaded(3) unfolding loaded(1) by (auto simp: current_def)
  ultimately show ?thesis using assms(2) unfolding loaded(1) coherent_def
    by (auto dest: in_set_remove1 [THEN iffD1] notin_set_remove1 set_remove1_subset [THEN subsetD])
next
  case (failed pr g n e)
  have "reader_ok fe s' r" if "reader_ok fe s r" for r using that unfolding failed(1) by (cases r) auto
  then show ?thesis using assms(2) unfolding failed(1) coherent_def
    by (auto dest: set_remove1_subset [THEN subsetD])
next
  case (inserted pr g n flags)
  have ok: "reader_ok fe s (Loaded pr g n flags)" using assms(2) inserted(2) unfolding coherent_def by blast
  have "reader_ok fe s' r" if "reader_ok fe s r" for r using that unfolding inserted(1) by (cases r) auto
  moreover have "q \<in> set (committed s') \<or> current fe (st_db s') q fl"
    if "map_of (cached (st_cache s')) q = Some fl" for q fl
  proof (cases "generation (st_cache s) = g \<and> q = pr")
    case True
    then have "word_of_nat (invalidations s) = (word_of_nat n :: u64)"
      using ok assms(2) by (simp add: coherent_def)
    then have "n = invalidations s"
      using few ok by (auto simp: word_of_nat_eq_iff take_bit_nat_eq_self)
    moreover have "fl = flags" using that True unfolding inserted(1) by (simp add: cache_insert_def alist_simps)
    ultimately show ?thesis using ok True unfolding inserted(1) by auto
  next
    case False
    then have "map_of (cached (st_cache s)) q = Some fl"
      using that unfolding inserted(1) by (auto simp: cache_insert_def alist_simps split: if_splits)
    then show ?thesis using assms(2) unfolding inserted(1) by (simp add: coherent_def)
  qed
  moreover have "generation (st_cache s') = generation (st_cache s)"
    unfolding inserted(1) by (simp add: cache_insert_def)
  ultimately show ?thesis using assms(2) unfolding inserted(1) coherent_def
    by (auto dest: set_remove1_subset [THEN subsetD])
qed

lemma step_invalidations: "store_step fe s s' \<Longrightarrow> invalidations s \<le> invalidations s'"
  by (induction rule: store_step.induct) simp_all

lemma reachable_coherent:
  assumes "(store_step fe)\<^sup>*\<^sup>* (store_start db) s" and "invalidations s < 2 ^ 64"
  shows "coherent fe s"
  using assms
proof (induction rule: rtranclp_induct)
  case base
  then show ?case by (simp add: coherent_def store_start_def cache_start_def)
next
  case (step s s')
  then have "invalidations s < 2 ^ 64" using step_invalidations by fastforce
  then show ?case using coherent_step [OF step(2)] step(3) by blast
qed

lemma reachable_db_inv:
  assumes "(store_step fe)\<^sup>*\<^sup>* (store_start db) s" and "flag_db_inv db"
  shows "flag_db_inv (st_db s)"
  using assms
proof (induction rule: rtranclp_induct)
  case (step s s')
  from step(2) show ?case using step(3) [OF step(4)] by cases (auto intro: commits_inv)
qed (simp add: store_start_def)

lemma cached_bounded:
  assumes "(store_step fe)\<^sup>*\<^sup>* (store_start db) s"
  shows "length (cached (st_cache s)) \<le> max_cached_projects"
  using assms
proof (induction rule: rtranclp_induct)
  case (step s s')
  from step(2) show ?case
  proof cases
    case (invalidated pr)
    then show ?thesis using step(3) length_delete [of pr "cached (st_cache s)"] by (simp add: invalidate_def)
  next
    case (inserted pr g n flags)
    then show ?thesis using step(3) by (auto simp: cache_insert_def alist_simps max_cached_projects_def)
  qed (use step(3) in simp_all)
qed (simp add: store_start_def cache_start_def)

end
