(* ===== verification/FlagSubjects.thy ===== *)
theory FlagSubjects
  imports FlagStoreCorrect IdentityProperties
begin

text \<open>
  Who a flag is evaluated for, \<open>src/flags/mod.rs\<close>, with the person lookup of \<open>src/persons.rs\<close> on the
  tables of the projections: the stored properties overridden by those of the request, and the
  bucketing id of flags that keep a person's value stable across an identify merge.
\<close>

section \<open>Persons\<close>

datatype person_store_error = PersonDatabase | PersonCorrupt string

record person_record =
  pe_project :: string
  pe_id :: string
  pe_properties :: object
  pe_identified :: bool
  pe_created_at :: string
  pe_first_seen_key :: string

definition person_for_distinct_id ::
  "externals \<Rightarrow> tables \<Rightarrow> string \<Rightarrow> string \<Rightarrow> person_store_error + person_record option" where
  "person_for_distinct_id ex t pr did =
     (case map_of (distinct_ids t) (pr, did) of
        None \<Rightarrow> Inr None
      | Some (i, _) \<Rightarrow>
          (case map_of (persons t) (pr, i) of
             None \<Rightarrow> Inr None
           | Some p \<Rightarrow>
               (case decode_properties ex (p_properties p) of
                  Inl _ \<Rightarrow> Inl (PersonCorrupt (p_properties p))
                | Inr props \<Rightarrow> Inr (Some
                    \<lparr>pe_project = pr, pe_id = i, pe_properties = props, pe_identified = p_identified p,
                     pe_created_at = p_created_at p, pe_first_seen_key = p_first_seen_key p\<rparr>))))"

section \<open>Subjects\<close>

record subject =
  su_distinct_id :: string
  su_properties :: object
  su_continuity_id :: string

record subject_hints =
  anon_distinct_id :: "string option"
  person_properties :: "object option"

definition bucketing_id :: "subject \<Rightarrow> 'r compiled_flag \<Rightarrow> string" where
  "bucketing_id s cf = (if flag_continuity (cf_flag cf) then su_continuity_id s else su_distinct_id s)"

definition evaluate_subject :: "'r flag_externals \<Rightarrow> instant \<Rightarrow> subject \<Rightarrow> 'r compiled_flag \<Rightarrow> evaluation" where
  "evaluate_subject fx now s cf = evaluate fx now cf (bucketing_id s cf) (su_properties s)"

definition some_nonempty :: "string option \<Rightarrow> string option" where
  "some_nonempty x = (case x of Some [] \<Rightarrow> None | y \<Rightarrow> y)"

definition resolve_subject ::
  "(string \<Rightarrow> person_store_error + person_record option) \<Rightarrow> string \<Rightarrow> subject_hints \<Rightarrow> bool \<Rightarrow> subject \<times> bool" where
  "resolve_subject lookup did hints needs =
     (let (failed0, props0, continuity0) =
            (if needs then
               (case lookup did of
                  Inr (Some p) \<Rightarrow> (False, pe_properties p, Some (pe_first_seen_key p))
                | Inr None \<Rightarrow> (False, [], None)
                | Inl _ \<Rightarrow> (True, [], None))
             else (False, [], None));
          (failed, continuity) =
            (if needs \<and> continuity0 = None \<and> \<not> failed0 then
               (case some_nonempty (anon_distinct_id hints) of
                  None \<Rightarrow> (failed0, continuity0)
                | Some anon \<Rightarrow>
                    (case lookup anon of
                       Inr (Some p) \<Rightarrow> (failed0, Some (pe_first_seen_key p))
                     | Inr None \<Rightarrow> (failed0, Some anon)
                     | Inl _ \<Rightarrow> (True, Some anon)))
             else (failed0, continuity0));
          props = (case person_properties hints of None \<Rightarrow> props0 | Some kvs \<Rightarrow> Projections.extend props0 kvs);
          continuity_id = (case continuity of
              Some c \<Rightarrow> c
            | None \<Rightarrow> (case some_nonempty (anon_distinct_id hints) of Some anon \<Rightarrow> anon | None \<Rightarrow> did)) in
      (\<lparr>su_distinct_id = did, su_properties = props, su_continuity_id = continuity_id\<rparr>, failed))"

definition needs_person :: "'r compiled_flag list \<Rightarrow> bool" where
  "needs_person = list_ex (\<lambda>cf. flag_active (cf_flag cf) \<and> (flag_continuity (cf_flag cf) \<or> reads_properties cf))"

section \<open>A flag whose person is not needed\<close>

lemma no_filters_match:
  assumes "\<not> reads_properties cf"
  shows "evaluate fx now cf bid props = evaluate fx now cf bid props'"
proof -
  have "\<forall>g \<in> set (ff_groups (flag_filters (cf_flag cf))). cg_properties g = []"
    using assms by (auto simp: reads_properties_def list_ex_iff)
  then have "eval_groups fx now cf bid props n c ci gs = eval_groups fx now cf bid props' n c ci gs"
    if "set gs \<subseteq> set (ff_groups (flag_filters (cf_flag cf)))" for n c ci gs
    using that by (induction gs arbitrary: n c ci) (simp_all add: match_group_def split: group_match.split option.split)
  then show ?thesis by (simp add: evaluate_def)
qed

section \<open>The first-seen key through a merge\<close>

definition first_seen :: "tables \<Rightarrow> string \<Rightarrow> string \<Rightarrow> string option" where
  "first_seen t pr i = map_option p_first_seen_key (map_of (persons t) (pr, i))"

lemma first_seen_update_person:
  "(\<And>p. p_first_seen_key (f p) = p_first_seen_key p) \<Longrightarrow> first_seen (update_person k f t) pr i = first_seen t pr i"
  by (auto simp: first_seen_def update_person_def alist_simps split: option.splits)

lemma first_seen_mark: "first_seen (mark_identified pr d t) q i = first_seen t q i"
  by (simp add: mark_identified_def first_seen_update_person split: option.split)

lemma first_seen_touch: "first_seen (touch_person ex pr j ev t) q i = first_seen t q i"
  unfolding touch_person_def Let_def by (rule first_seen_update_person) (simp split: option.split)

lemma ensure_person_known:
  "map_of (distinct_ids t) (pr, d) = Some (i, s) \<Longrightarrow> ensure_person ex pr d ev t = Inr (i, t)"
  by (simp add: ensure_person_def)

lemma apply_person_properties_first_seen:
  assumes row: "map_of (distinct_ids t) (pr, d) = Some (i, s)"
    and a: "apply_person_properties ex pr d ev t = Inr t'"
  shows "first_seen t' q j = first_seen t q j"
proof -
  have upd: "first_seen (update_person k (\<lambda>p. p\<lparr>p_properties := x\<rparr>) t) q j = first_seen t q j" for k x
    by (rule first_seen_update_person) simp
  show ?thesis
    using a unfolding apply_person_properties_def ensure_person_known [OF row] and_then.simps prod.case Let_def
    by (auto simp: and_then_Inr_iff upd split: if_splits option.splits)
qed

text \<open>An \<open>$identify\<close> of an unidentified known person by a new distinct id keeps the first-seen key,
  when that person was created at an earlier instant than the event's.\<close>

lemma identify_keeps_first_seen:
  assumes inv: "tables_inv ex t" and js: "json_ok ex"
    and ev: "event ev = ''$identify''" "get_str (properties ev) ''$anon_distinct_id'' = Some anon"
      "anon \<noteq> []" "anon \<noteq> distinct_id ev"
    and new: "map_of (distinct_ids t) (pr, distinct_id ev) = None"
    and old: "map_of (distinct_ids t) (pr, anon) = Some (i, s)" "map_of (persons t) (pr, i) = Some p"
    and anon: "\<not> p_identified p" "str_less (p_created_at p) (rfc3339 ex (timestamp ev))"
    and t': "apply_identity ex pr ev t = Inr t'"
  shows "map_option fst (map_of (distinct_ids t') (pr, distinct_id ev)) = Some (distinct_id ev)"
    and "first_seen t' pr (distinct_id ev) = Some (p_first_seen_key p)"
proof -
  let ?d = "distinct_id ev"
  have nop: "map_of (persons t) (pr, ?d) = None"
    using tables_invD(1) [OF inv, of pr ?d] new by (cases "map_of (persons t) (pr, ?d)") auto
  have ne: "i \<noteq> ?d" using old(2) nop by auto
  let ?pd = "\<lparr>p_created_at = rfc3339 ex (timestamp ev), p_identified = False, p_properties = ''{}'',
               p_first_seen_key = ?d, p_last_seen = None\<rparr>"
  let ?t1 = "t\<lparr>persons := AList.update (pr, ?d) ?pd (persons t),
            distinct_ids := AList.update (pr, ?d) (?d, 0) (distinct_ids t)\<rparr>"
  have e1: "ensure_person ex pr ?d ev t = Inr (?d, ?t1)" using new nop by (simp add: ensure_person_def)
  have inv1: "tables_inv ex ?t1" using ensure_person_ok [OF inv js, of pr ?d ev] e1 by fastforce
  obtain t2 where t2: "t2 = touch_person ex pr ?d ev ?t1" by simp
  have inv2: "tables_inv ex t2" unfolding t2 by (rule touch_person_inv [OF inv1])
  have rows2: "map_of (distinct_ids t2) (pr, ?d) = Some (?d, 0)" "map_of (distinct_ids t2) (pr, anon) = Some (i, s)"
    using ev(4) old(1) unfolding t2 by (simp_all add: alist_simps)
  obtain pd where pd: "map_of (persons t2) (pr, ?d) = Some pd" "p_created_at pd = rfc3339 ex (timestamp ev)"
    unfolding t2 by (simp add: touch_person_def Let_def update_person_def alist_simps)
  have pi: "map_of (persons t2) (pr, i) = Some p"
    using old(2) ne unfolding t2 by (simp add: touch_person_def Let_def update_person_def alist_simps)
  have oid: "other_id ev ''$anon_distinct_id'' = Some anon" using ev by (simp add: other_id_def)
  have m: "merge_if ex pr ev ''$anon_distinct_id'' RefuseIdentifiedSource t2 = merge_rows ex pr ?d i t2"
    using oid rows2 pi anon(1) ne
    by (simp add: merge_if_def merge_persons_def ensure_person_known)
  obtain t3 p3 where t3: "merge_rows ex pr ?d i t2 = Inr t3" "tables_inv ex t3" "repointed t2 t3 pr i ?d"
    "map_of (persons t3) = (map_of (persons t2))((pr, ?d) := Some p3, (pr, i) := None)"
    "(p_created_at p3, p_first_seen_key p3) =
      (if str_less (p_created_at p) (p_created_at pd) then (p_created_at p, p_first_seen_key p)
       else (p_created_at pd, p_first_seen_key pd))"
    using merge_rows_ok [OF inv2 js pd(1) pi ne [symmetric]] by metis
  have f3: "first_seen t3 pr ?d = Some (p_first_seen_key p)"
    using t3(4,5) anon(2) pd(2) ne by (simp add: first_seen_def)
  have row3: "map_of (distinct_ids t3) (pr, ?d) = Some (?d, 0)"
    using t3(3) rows2(1) ne unfolding repointed_def by auto
  obtain t4 where t4: "t4 = mark_identified pr ?d t3" by simp
  have row4: "map_of (distinct_ids t4) (pr, ?d) = Some (?d, 0)" using row3 unfolding t4 by simp
  have inv4: "tables_inv ex t4" unfolding t4 by (rule mark_identified_inv [OF t3(2)])
  have "apply_identity ex pr ev t = apply_person_properties ex pr ?d ev t4"
    using e1 ev(1) m t3(1) t2 t4 by (simp add: apply_identity_def apply_event_kind_def)
  then have last: "apply_person_properties ex pr ?d ev t4 = Inr t'" using t' by simp
  show "first_seen t' pr ?d = Some (p_first_seen_key p)"
    using apply_person_properties_first_seen [OF row4 last] f3 unfolding t4 by (simp add: first_seen_mark)
  have "distinct_ids t' = distinct_ids t4"
    using apply_person_properties_ok [OF inv4 js row4, of ev] last by fastforce
  then show "map_option fst (map_of (distinct_ids t') (pr, ?d)) = Some ?d" using row4 by simp
qed

end
