(* ===== verification/FlagProperties.thy ===== *)
theory FlagProperties
  imports FlagSubjects
begin

text \<open>
  What the feature flags guarantee, each theorem applied at a concrete flag.
\<close>

section \<open>A concrete flag\<close>

definition sample_flag_externals :: "string flag_externals" where
  "sample_flag_externals =
     \<lparr>sha1 = (\<lambda>_. replicate 20 0), compile_regex = Some, is_match = (\<lambda>r s. sublist r s),
      to_lowercase = ascii_lower, json_text = (\<lambda>_. ''''), f64_text = (\<lambda>_. ''''), parse_f64 = (\<lambda>_. None),
      parse_rfc3339 = (\<lambda>_. None), parse_datetime = (\<lambda>_ _. None), parse_naive = (\<lambda>_ _. None),
      parse_day = (\<lambda>_ _. None), add_hours = (\<lambda>t n. Some (t + n * 3600000000000)), sub_months = (\<lambda>_ _. None)\<rparr>"

lemma sample_hash: "flag_hash sample_flag_externals key bid salt = Fin 0"
proof -
  have "foldl (\<lambda>v b. 256 * v + unat b) 0 (replicate n (0 :: u8)) = 0" for n by (induction n) simp_all
  then show ?thesis
    by (simp add: flag_hash_def sample_flag_externals_def from_be_bytes_def long_scale_eq Let_def)
qed

definition sample_filter :: property_filter where
  "sample_filter = \<lparr>pf_key = ''plan'', pf_source = PersonSource, pf_operator = Regex, pf_value = String ''pro''\<rparr>"

definition sample_variants :: "flag_variant list" where
  "sample_variants =
     [\<lparr>fv_key = ''a'', fv_name = None, fv_rollout = Fin 50\<rparr>, \<lparr>fv_key = ''b'', fv_name = None, fv_rollout = Fin 50\<rparr>]"

definition sample_filters :: flag_filters where
  "sample_filters =
     \<lparr>ff_groups = [\<lparr>cg_properties = [sample_filter], cg_rollout = None, cg_variant = None\<rparr>,
                   \<lparr>cg_properties = [], cg_rollout = Some (Fin 0), cg_variant = None\<rparr>],
      ff_variants = None, ff_payloads = [(''true'', String ''x'')]\<rparr>"

definition sample_flag :: feature_flag where
  "sample_flag = \<lparr>flag_id = 1, flag_key = ''f'', flag_name = '''', flag_active = True, flag_filters = sample_filters,
     flag_continuity = True, flag_created_at = '''', flag_updated_at = ''''\<rparr>"

section \<open>Evaluation\<close>

text \<open>C26: The first condition group that matches decides an active flag, and nothing after it matters;
  when none matches, the flag is off and reports the first group whose filters match but whose
  rollout does not admit the id, or no match at all.\<close>

theorem flag_first_match_decides:
  assumes "flag_active (cf_flag cf)"
  shows "evaluate fx now cf bid props =
    (case first_index (\<lambda>g. match_group fx now cf bid props g = GroupMatch) (ff_groups (flag_filters (cf_flag cf))) of
       Some i \<Rightarrow> matched fx cf bid i (ff_groups (flag_filters (cf_flag cf)) ! i)
     | None \<Rightarrow> closest_miss fx now cf bid props (ff_groups (flag_filters (cf_flag cf))))"
  by (rule evaluate_decision [OF assms])

theorem flag_first_match_decides_witness:
  "ev_condition (evaluate sample_flag_externals 0 (compile_flag sample_flag_externals sample_flag 1) ''u'' []) = Some 1"
proof -
  let ?cf = "compile_flag sample_flag_externals sample_flag 1"
  have "flag_active (cf_flag ?cf)" by (simp add: compile_flag_def sample_flag_def)
  from flag_first_match_decides [OF this, of sample_flag_externals 0 "''u''" "[]"] show ?thesis
    by (simp add: compile_flag_def sample_flag_def sample_filters_def sample_filter_def match_group_def
        match_property_def sample_hash matched_def Let_def)
qed

text \<open>Rollouts are stable: an id that a group admits stays admitted when the percentage is raised,
  and a percentage of at least 100 admits every id, since the hash is a double from 0 to 1.\<close>

theorem flag_rollout_monotone:
  assumes "f64_le (Fin 0) p" and "f64_le p q"
  shows "(match_group fx now cf bid props (g\<lparr>cg_rollout := Some p\<rparr>) = GroupMatch \<longrightarrow>
      match_group fx now cf bid props (g\<lparr>cg_rollout := Some q\<rparr>) = GroupMatch)
    \<and> (f64_le (Fin 100) q \<longrightarrow> match_group fx now cf bid props (g\<lparr>cg_rollout := Some q\<rparr>) \<noteq> OutOfRollout)"
proof
  let ?h = "flag_hash fx (flag_key (cf_flag cf)) bid ''''"
  have mono: "f64_le (f64_div p (Fin 100)) (f64_div q (Fin 100))" by (rule div_100_mono [OF assms])
  have "f64_less (f64_div p (Fin 100)) ?h" if "f64_less (f64_div q (Fin 100)) ?h"
    by (rule f64_less_le [OF mono that])
  then show "match_group fx now cf bid props (g\<lparr>cg_rollout := Some p\<rparr>) = GroupMatch \<longrightarrow>
      match_group fx now cf bid props (g\<lparr>cg_rollout := Some q\<rparr>) = GroupMatch"
    by (auto simp: match_group_def split: if_splits)
  obtain r where r: "?h = Fin r" "r \<le> 1" using flag_hash_unit by blast
  have "f64_div (Fin 100) (Fin 100) = Fin 1" by (simp add: f64_round_one)
  then have "\<not> f64_less (f64_div q (Fin 100)) ?h" if "f64_le (Fin 100) q"
    using div_100_mono [OF _ that] r by (cases "f64_div q (Fin 100)") (auto simp: f64_le_def)
  then show "f64_le (Fin 100) q \<longrightarrow> match_group fx now cf bid props (g\<lparr>cg_rollout := Some q\<rparr>) \<noteq> OutOfRollout"
    by (auto simp: match_group_def)
qed

theorem flag_rollout_monotone_witness:
  "match_group sample_flag_externals 0 (compile_flag sample_flag_externals sample_flag 1) ''u'' []
     (\<lparr>cg_properties = [], cg_rollout = None, cg_variant = None\<rparr>\<lparr>cg_rollout := Some (Fin 100)\<rparr>) \<noteq> OutOfRollout"
  using flag_rollout_monotone [of "Fin 30" "Fin 100" sample_flag_externals 0
      "compile_flag sample_flag_externals sample_flag 1" "''u''" "[]"
      "\<lparr>cg_properties = [], cg_rollout = None, cg_variant = None\<rparr>"]
  by (simp add: f64_le_def)

text \<open>With valid percentages the variant ranges do not overlap, in spite of rounding: the chosen
  variant's range holds the hash and no other range does, and a variant at zero percent is never
  chosen.\<close>

theorem flag_variant_unique:
  assumes "\<forall>x \<in> set vs. percentage_ok (fv_rollout x)" and "variant_at v (Fin 0) vs = Some key"
  shows "\<exists>i < length vs. key = fv_key (vs ! i) \<and> fv_rollout (vs ! i) \<noteq> Fin 0
    \<and> (\<forall>j < length vs. in_range v (variant_ranges (Fin 0) vs ! j) \<longleftrightarrow> j = i)"
proof -
  have "bound_ok (Fin 0)" by (simp add: bound_ok_def)
  from variant_at_range [OF this assms] show ?thesis .
qed

theorem flag_variant_unique_witness:
  "\<not> in_range (Fin 0) (variant_ranges (Fin 0) sample_variants ! 1)"
proof -
  have ok: "\<forall>x \<in> set sample_variants. percentage_ok (fv_rollout x)"
    by (simp add: sample_variants_def percentage_ok_def)
  have "variant_at (Fin 0) (Fin 0) sample_variants = Some ''a''"
    by (simp add: sample_variants_def Let_def f64_round_half f64_le_def)
  from flag_variant_unique [OF ok this]
  obtain i where i: "i < length sample_variants \<and> ''a'' = fv_key (sample_variants ! i)
      \<and> fv_rollout (sample_variants ! i) \<noteq> Fin 0
      \<and> (\<forall>j < length sample_variants. in_range (Fin 0) (variant_ranges (Fin 0) sample_variants ! j) \<longleftrightarrow> j = i)"
    by (rule exE)
  have two: "length sample_variants = Suc (Suc 0)" by (simp add: sample_variants_def)
  have "fv_key (sample_variants ! Suc 0) = ''b''" by (simp add: sample_variants_def)
  then have "i \<noteq> Suc 0" using i [THEN conjunct2, THEN conjunct1] by auto
  then show ?thesis
    using i [THEN conjunct2, THEN conjunct2, THEN conjunct2, THEN spec, of 1] two by simp
qed

text \<open>Compiling a flag's regular expressions once does not change its value: the compiled flag
  evaluates as one whose patterns are compiled at each evaluation.\<close>

theorem flag_compiled_equivalent:
  "evaluate fx now (compile_flag fx flag version) bid props
    = evaluate fx now \<lparr>cf_flag = flag, cf_version = version, cf_regexes = []\<rparr> bid props"
proof (rule evaluate_regexes)
  show "regexes_ok fx (cf_regexes (compile_flag fx flag version))" by (rule compile_flag_regexes)
qed (simp_all add: regexes_ok_def compile_flag_def)

section \<open>Validation\<close>

text \<open>C27: \<open>validate_input\<close> accepts exactly the definitions within every limit: key and name, serialized
  size, number of groups, variants, filters and their keys and values, percentages from 0 to 100
  that sum to 100 over the variants, distinct variant keys, overrides and payloads that name a
  variant, patterns that compile and dates that parse.\<close>

theorem flag_validation_exact:
  "is_ok (validate_input fx now enc inp) \<longleftrightarrow>
     key_valid (in_key inp) \<and> length (in_name inp) \<le> max_name_bytes \<and> filters_valid fx now enc (in_filters inp)"
  by (rule validate_input_ok)

text \<open>C28: The value of a flag whose definition was accepted is reachable from its definition: a group's
  variant override always takes effect, every variant it can report is one of its variants, and it
  reports one only when the flag is on.\<close>

lemma variant_at_mem: "variant_at v lo vs = Some key \<Longrightarrow> key \<in> fv_key ` set vs"
  by (induction vs arbitrary: lo) (auto simp: Let_def split: if_splits)

lemma has_variant_keys: "has_variant cf key \<longleftrightarrow> key \<in> variant_keys (flag_filters (cf_flag cf))"
  by (auto simp: has_variant_def variant_keys_def list_ex_iff split: option.split)

theorem flag_accepted_value:
  assumes "is_ok (validate_filters fx now enc (flag_filters (cf_flag cf)))"
  shows "(\<forall>g \<in> set (ff_groups (flag_filters (cf_flag cf))). \<forall>key. cg_variant g = Some key \<longrightarrow>
        ev_variant (matched fx cf bid i g) = Some key)
    \<and> (\<forall>key. ev_variant (evaluate fx now' cf bid props) = Some key \<longrightarrow>
        key \<in> variant_keys (flag_filters (cf_flag cf)) \<and> ev_enabled (evaluate fx now' cf bid props))"
proof
  let ?ff = "flag_filters (cf_flag cf)"
  have valid: "\<forall>g \<in> set (ff_groups ?ff). \<forall>key. cg_variant g = Some key \<longrightarrow> key \<in> variant_keys ?ff"
    using assms by (auto simp: validate_filters_ok filters_valid_def group_valid_def)
  then show "\<forall>g \<in> set (ff_groups ?ff). \<forall>key. cg_variant g = Some key \<longrightarrow> ev_variant (matched fx cf bid i g) = Some key"
    by (auto simp: matched_def has_variant_keys Let_def)
  have mem: "ev_variant (matched fx cf bid j g) = Some key \<Longrightarrow> key \<in> variant_keys ?ff" for j g key
    using variant_at_mem
    by (auto simp: matched_def has_variant_keys Let_def matching_variant_def variant_keys_def split: option.splits if_splits)
  have on: "ev_enabled (matched fx cf bid j g)" for j g by (simp add: matched_def Let_def)
  show "\<forall>key. ev_variant (evaluate fx now' cf bid props) = Some key \<longrightarrow>
      key \<in> variant_keys ?ff \<and> ev_enabled (evaluate fx now' cf bid props)"
  proof (intro allI impI)
    fix key
    assume v: "ev_variant (evaluate fx now' cf bid props) = Some key"
    then have "flag_active (cf_flag cf)" by (auto simp: evaluate_def split: if_splits)
    from evaluate_decision [OF this, of fx now' bid props] v
    obtain j g where "evaluate fx now' cf bid props = matched fx cf bid j g"
      by (auto simp: closest_miss_def split: option.splits)
    then show "key \<in> variant_keys ?ff \<and> ev_enabled (evaluate fx now' cf bid props)" using v mem on by metis
  qed
qed

definition whole_variant :: flag_filters where
  "whole_variant =
     \<lparr>ff_groups = [\<lparr>cg_properties = [], cg_rollout = None, cg_variant = Some ''a''\<rparr>],
      ff_variants = Some [\<lparr>fv_key = ''a'', fv_name = None, fv_rollout = Fin 100\<rparr>], ff_payloads = []\<rparr>"

lemma whole_variant_valid: "is_ok (validate_filters sample_flag_externals 0 (\<lambda>_. Inr '''') whole_variant)"
proof -
  have hundred: "f64_round 100 = Fin 100" using f64_round_int [of 100] by simp
  have "0 \<le> (1 / 1000000 :: rat)" by simp
  from f64_round_cases [OF this] have eps: "\<not> f64_less variant_sum_epsilon (Fin 0)"
    unfolding variant_sum_epsilon_def by auto
  have "variant_sum (Fin 0) [\<lparr>fv_key = ''a'', fv_name = None, fv_rollout = Fin 100\<rparr>] = Fin 100"
    by (simp add: variant_sum_def hundred)
  moreover have "f64_abs (f64_sub (Fin 100) (Fin 100)) = Fin 0" by (simp add: f64_sub_def)
  moreover have "percentage_ok (Fin 100)" by (simp add: percentage_ok_def)
  ultimately show ?thesis using eps
    by (simp add: validate_filters_ok filters_valid_def whole_variant_def variants_valid_def group_valid_def
        max_filters_bytes_def max_groups_def max_properties_per_group_def variant_valid_def key_valid_def
        key_byte_def code_def is_digit_def max_key_bytes_def max_variants_def variant_keys_def)
qed

theorem flag_accepted_value_witness:
  "ev_variant (matched sample_flag_externals (compile_flag sample_flag_externals (sample_flag\<lparr>flag_filters := whole_variant\<rparr>) 1)
     ''u'' 0 \<lparr>cg_properties = [], cg_rollout = None, cg_variant = Some ''a''\<rparr>) = Some ''a''"
  using flag_accepted_value [of sample_flag_externals 0 "\<lambda>_. Inr ''''"
      "compile_flag sample_flag_externals (sample_flag\<lparr>flag_filters := whole_variant\<rparr>) 1" "''u''" 0 0 "[]"]
    whole_variant_valid
  by (simp add: compile_flag_def sample_flag_def whole_variant_def)

section \<open>The store\<close>

definition sample_env :: "string flag_env" where
  "sample_env = \<lparr>fe_externals = sample_flag_externals, fe_encode = (\<lambda>_. Inr ''{}''), fe_decode = (\<lambda>_. Inr sample_filters)\<rparr>"

definition sample_db :: flag_db where
  "sample_db = \<lparr>flag_rows = [], next_row = 1, db_projects = [''p'']\<rparr>"

text \<open>C29: Every write that commits keeps the table well-formed (ids distinct and below the next one,
  at most one live flag per project and key, at most \<open>max_flags_per_project\<close> live flags per project,
  valid keys, versions from 1) and leaves the definitions of all other projects as they were.\<close>

theorem flag_table_invariant:
  assumes "commits fe pr db db'" and "flag_db_inv db"
  shows "flag_db_inv db' \<and> (q \<noteq> pr \<longrightarrow> flag_definitions fe db' q = flag_definitions fe db q)"
  using commits_inv [OF assms] commits_other [OF assms(1)] by blast

definition sample_input :: flag_input where
  "sample_input = \<lparr>in_key = ''f'', in_name = '''', in_active = True, in_filters = sample_filters, in_continuity = False\<rparr>"

lemma sample_input_valid: "is_ok (validate_input sample_flag_externals 0 (\<lambda>_. Inr ''{}'') sample_input)"
proof -
  have "percentage_ok (Fin 0)" by (simp add: percentage_ok_def)
  then show ?thesis
    by (simp add: validate_input_ok filters_valid_def sample_filters_def variants_valid_def group_valid_def
        filter_valid_def sample_filter_def sample_flag_externals_def max_filters_bytes_def max_groups_def
        max_properties_per_group_def max_property_key_bytes_def max_filter_value_bytes_def max_payload_bytes_def
        sample_input_def key_valid_def max_key_bytes_def max_name_bytes_def key_byte_def code_def is_digit_def)
qed

theorem flag_table_invariant_witness:
  "\<exists>i db'. create_row sample_env 0 ''now'' ''p'' sample_input sample_db = Inr (i, db') \<and> flag_db_inv db'"
proof -
  obtain u where "validate_input sample_flag_externals 0 (\<lambda>_. Inr ''{}'') sample_input = Inr u"
    using sample_input_valid by (cases "validate_input sample_flag_externals 0 (\<lambda>_. Inr ''{}'') sample_input") simp_all
  then obtain i db' where c: "create_row sample_env 0 ''now'' ''p'' sample_input sample_db = Inr (i, db')"
    by (simp add: create_row_def sample_env_def checked_def encode_filters_def sample_db_def max_flags_per_project_def
        key_taken_def)
  then have "commits sample_env ''p'' sample_db db'" unfolding commits_def by blast
  moreover have "flag_db_inv sample_db" by (simp add: flag_db_inv_def sample_db_def)
  ultimately show ?thesis using flag_table_invariant c by blast
qed

text \<open>C12: However readers that fill the cache and writers that commit and invalidate interleave, a cached
  entry is what the table says now, unless a writer of that project has committed and not yet
  invalidated; and the cache never exceeds its bound. The generation may wrap around, as long as
  fewer than \<open>2 ^ 64\<close> writes have happened.\<close>

theorem flag_cache_coherent:
  assumes "(store_step fe)\<^sup>*\<^sup>* (store_start db) s" and "invalidations s < 2 ^ 64"
    and "map_of (cached (st_cache s)) pr = Some flags" and "pr \<notin> set (committed s)"
  shows "(\<exists>fs. flag_definitions fe (st_db s) pr = Inr fs \<and> flags = compile_all fe fs)
    \<and> length (cached (st_cache s)) \<le> max_cached_projects"
  using reachable_coherent [OF assms(1,2)] assms(3,4) cached_bounded [OF assms(1)]
  by (auto simp: coherent_def current_def)

theorem flag_cache_coherent_witness:
  "\<exists>s. (store_step sample_env)\<^sup>*\<^sup>* (store_start sample_db) s \<and> map_of (cached (st_cache s)) ''p'' = Some []
     \<and> length (cached (st_cache s)) \<le> max_cached_projects"
proof -
  let ?s0 = "store_start sample_db :: string store_state"
  let ?s1 = "?s0\<lparr>st_readers := [Missed ''p'' 0 0]\<rparr>"
  let ?s2 = "?s0\<lparr>st_readers := [Loaded ''p'' 0 0 []]\<rparr>"
  let ?s3 = "?s0\<lparr>st_cache := \<lparr>generation = 0, cached = [(''p'', [])]\<rparr>\<rparr>"
  have defs: "flag_definitions sample_env sample_db ''p'' = Inr []"
    by (simp add: flag_definitions_def load_live_def sample_db_def)
  have "store_step sample_env ?s0 ?s1"
    using store_step.missed [of ?s0 "''p''" sample_env] by (simp add: store_start_def cache_start_def)
  moreover have "store_step sample_env ?s1 ?s2"
    using store_step.loaded [of "''p''" 0 0 ?s1 sample_env "[]"] defs by (simp add: store_start_def compile_all_def)
  moreover have "store_step sample_env ?s2 ?s3"
    using store_step.inserted [of "''p''" 0 0 "[]" ?s2 sample_env]
    by (simp add: store_start_def cache_insert_def cache_start_def max_cached_projects_def)
  ultimately have run: "(store_step sample_env)\<^sup>*\<^sup>* ?s0 ?s3" by (meson converse_rtranclp_into_rtranclp rtranclp.rtrancl_refl)
  moreover have "map_of (cached (st_cache ?s3)) ''p'' = Some []" by simp
  moreover have "invalidations ?s3 < 2 ^ 64" "''p'' \<notin> set (committed ?s3)" by (simp_all add: store_start_def)
  ultimately show ?thesis using flag_cache_coherent by blast
qed

section \<open>Experience continuity\<close>


definition anon_tables :: tables where
  "anon_tables = sample_tables\<lparr>persons := [((''p'', ''u''), sample_person\<lparr>p_identified := False\<rparr>)]\<rparr>"


end
