(* ===== verification/Decompress.thy ===== *)
theory Decompress
  imports Utf8
begin

text \<open>
  The decoding of request bodies, \<open>src/capture/decompress.rs\<close>: form unwrapping, the speculative
  Base64 unwrap, gzip under a ceiling, the bounded LZ-string decoder and the raw route. Bytes are
  characters. The Base64 and gzip codecs are the record \<open>codecs\<close>: \<open>gzip_read p i\<close> is the \<open>i\<close>-th read of the
  decoder on payload \<open>p\<close> (\<open>None\<close> an error, the empty chunk the end).
\<close>

datatype decode_error = Undecodable | TooLarge

record codecs =
  base64_decode :: "string \<Rightarrow> string option"
  gzip_read :: "string \<Rightarrow> nat \<Rightarrow> string option"

definition max_decompressed_bytes :: nat where
  "max_decompressed_bytes = 64 * 1024 * 1024"

definition gzip_magic :: string where
  "gzip_magic = [CHR 0x1f, CHR 0x8b]"

section \<open>UTF-8\<close>

text \<open>\<open>String::from_utf8\<close>: the well-formed sequences of the Unicode standard, as scalar values.\<close>

definition cont_in :: "nat \<Rightarrow> nat \<Rightarrow> char \<Rightarrow> bool" where
  "cont_in lo hi c \<longleftrightarrow> lo \<le> code c \<and> code c \<le> hi"

definition scalar_at :: "string \<Rightarrow> (nat \<times> nat) option" where
  "scalar_at s =
     (case s of
        [] \<Rightarrow> None
      | a # r \<Rightarrow>
          (let v = code a in
           if v < 0x80 then Some (v, 1)
           else if 0xC2 \<le> v \<and> v \<le> 0xDF then
             (case r of
                b # _ \<Rightarrow> if cont_in 0x80 0xBF b then Some ((v - 0xC0) * 64 + (code b - 0x80), 2) else None
              | _ \<Rightarrow> None)
           else if 0xE0 \<le> v \<and> v \<le> 0xEF then
             (case r of
                b # c # _ \<Rightarrow>
                  if cont_in (if v = 0xE0 then 0xA0 else 0x80) (if v = 0xED then 0x9F else 0xBF) b \<and> cont_in 0x80 0xBF c
                  then Some ((v - 0xE0) * 4096 + (code b - 0x80) * 64 + (code c - 0x80), 3) else None
              | _ \<Rightarrow> None)
           else if 0xF0 \<le> v \<and> v \<le> 0xF4 then
             (case r of
                b # c # d # _ \<Rightarrow>
                  if cont_in (if v = 0xF0 then 0x90 else 0x80) (if v = 0xF4 then 0x8F else 0xBF) b
                    \<and> cont_in 0x80 0xBF c \<and> cont_in 0x80 0xBF d
                  then Some ((v - 0xF0) * 262144 + (code b - 0x80) * 4096 + (code c - 0x80) * 64 + (code d - 0x80), 4)
                  else None
              | _ \<Rightarrow> None)
           else None))"

lemma scalar_at_progress: "scalar_at s = Some (v, n) \<Longrightarrow> 0 < n \<and> s \<noteq> []"
  by (auto simp: scalar_at_def Let_def split: list.splits if_splits)

function utf8_scalars :: "string \<Rightarrow> nat list option" where
  "utf8_scalars s =
     (if s = [] then Some []
      else case scalar_at s of
        None \<Rightarrow> None
      | Some (v, n) \<Rightarrow> map_option (Cons v) (utf8_scalars (drop n s)))"
  by pat_completeness auto
termination
  by (relation "measure length") (auto dest!: scalar_at_progress)

declare utf8_scalars.simps [simp del]

definition from_utf8 :: "string \<Rightarrow> decode_error + string" where
  "from_utf8 s = (if utf8_scalars s = None then Inl Undecodable else Inr s)"

definition utf8_bytes :: "nat \<Rightarrow> string" where
  "utf8_bytes v =
     map char_of
       (if v < 0x80 then [v]
        else if v < 0x800 then [0xC0 + v div 64, 0x80 + v mod 64]
        else if v < 0x10000 then [0xE0 + v div 4096, 0x80 + v div 64 mod 64, 0x80 + v mod 64]
        else [0xF0 + v div 262144, 0x80 + v div 4096 mod 64, 0x80 + v div 64 mod 64, 0x80 + v mod 64])"

definition utf16_units :: "nat \<Rightarrow> nat list" where
  "utf16_units v = (if v < 0x10000 then [v] else [0xD800 + (v - 0x10000) div 1024, 0xDC00 + (v - 0x10000) mod 1024])"

section \<open>Base64 and forms\<close>

definition base64_byte :: "char \<Rightarrow> bool" where
  "base64_byte c \<longleftrightarrow> is_digit c \<or> 65 \<le> code c \<and> code c \<le> 90 \<or> 97 \<le> code c \<and> code c \<le> 122
     \<or> c = CHR ''+'' \<or> c = CHR ''/'' \<or> c = CHR ''=''"

definition looks_like_base64 :: "string \<Rightarrow> bool" where
  "looks_like_base64 p \<longleftrightarrow> p \<noteq> [] \<and> length p mod 4 = 0 \<and> list_all base64_byte p"

definition replace_char :: "char \<Rightarrow> char \<Rightarrow> string \<Rightarrow> string" where
  "replace_char a b = map (\<lambda>c. if c = a then b else c)"

definition hex_value :: "char \<Rightarrow> nat option" where
  "hex_value c =
     (if is_digit c then Some (code c - 48)
      else if 97 \<le> code c \<and> code c \<le> 102 then Some (code c - 87)
      else if 65 \<le> code c \<and> code c \<le> 70 then Some (code c - 55)
      else None)"

text \<open>\<open>u8::from_str_radix(_, 16)\<close> on two bytes: a plus sign and one digit would do as well.\<close>

definition hex_pair :: "char \<Rightarrow> char \<Rightarrow> nat option" where
  "hex_pair a b =
     (if a = CHR ''+'' then hex_value b
      else case (hex_value a, hex_value b) of (Some x, Some y) \<Rightarrow> Some (16 * x + y) | _ \<Rightarrow> None)"

fun percent_decode :: "string \<Rightarrow> decode_error + string" where
  "percent_decode (p # a # b # r) =
     (if p = CHR ''%'' then
        (case hex_pair a b of
           None \<Rightarrow> Inl Undecodable
         | Some v \<Rightarrow> and_then (percent_decode r) (\<lambda>out. Inr (char_of v # out)))
      else and_then (percent_decode (a # b # r)) (\<lambda>out. Inr (p # out)))"
| "percent_decode (p # r) = and_then (percent_decode r) (\<lambda>out. Inr (p # out))"
| "percent_decode [] = Inr []"

definition urlencoding_decode :: "string \<Rightarrow> decode_error + string" where
  "urlencoding_decode v = and_then (percent_decode (replace_char (CHR ''+'') (CHR '' '') v)) from_utf8"

definition split_once :: "char \<Rightarrow> string \<Rightarrow> string \<times> string" where
  "split_once c s = (takeWhile (\<lambda>x. x \<noteq> c) s, drop 1 (dropWhile (\<lambda>x. x \<noteq> c) s))"

fun form_pairs :: "string list \<Rightarrow> string option \<times> string option \<Rightarrow> decode_error + string option \<times> string option" where
  "form_pairs [] acc = Inr acc"
| "form_pairs (pair # ps) (data, hint) =
     (let (key, v) = split_once (CHR ''='') pair in
      if key = ''data'' then and_then (urlencoding_decode v) (\<lambda>d. form_pairs ps (Some d, hint))
      else if key = ''compression'' then form_pairs ps (data, Some v)
      else form_pairs ps (data, hint))"

definition parse_form :: "string \<Rightarrow> decode_error + string \<times> string option" where
  "parse_form body =
     and_then (from_utf8 body) (\<lambda>text.
     and_then (form_pairs (split_on (CHR ''&'') text) (None, None)) (\<lambda>(data, hint).
       case data of
         None \<Rightarrow> Inl Undecodable
       | Some d \<Rightarrow>
           (let restored = replace_char (CHR '' '') (CHR ''+'') d in
            Inr (if CHR '' '' \<in> set d \<and> looks_like_base64 restored then restored else d, hint))))"

section \<open>Gzip\<close>

text \<open>Every chunk that is not the end adds a byte, so the ceiling ends the loop.\<close>

function gunzip_loop :: "(nat \<Rightarrow> string option) \<Rightarrow> nat \<Rightarrow> nat \<Rightarrow> string \<Rightarrow> decode_error + string" where
  "gunzip_loop rd i max_bytes out =
     (case rd i of
        None \<Rightarrow> Inl Undecodable
      | Some chunk \<Rightarrow>
          if chunk = [] then Inr out
          else if max_bytes < length out + length chunk then Inl TooLarge
          else gunzip_loop rd (i + 1) max_bytes (out @ chunk))"
  by pat_completeness auto
termination
  by (relation "measure (\<lambda>(rd, i, max_bytes, out). max_bytes - length out)") (auto simp: not_less length_greater_0_conv [symmetric] simp del: length_greater_0_conv)

declare gunzip_loop.simps [simp del]

definition gunzip_bounded :: "codecs \<Rightarrow> string \<Rightarrow> nat \<Rightarrow> decode_error + string" where
  "gunzip_bounded cd payload max_bytes = gunzip_loop (gzip_read cd payload) 0 max_bytes []"

section \<open>LZ-string\<close>

definition base64_key :: string where
  "base64_key = ''ABCDEFGHIJKLMNOPQRSTUVWXYZabcdefghijklmnopqrstuvwxyz0123456789+/=''"

fun index_in :: "'a \<Rightarrow> 'a list \<Rightarrow> nat option" where
  "index_in x [] = None"
| "index_in x (y # ys) = (if x = y then Some 0 else map_option Suc (index_in x ys))"

text \<open>\<open>bit_at\<close> is the exponent of the code's \<open>position\<close>.\<close>

record bits =
  bit_value :: nat
  bit_input :: "nat list"
  bit_at :: nat

definition bits_new :: "nat list \<Rightarrow> bits option" where
  "bits_new units = (case units of [] \<Rightarrow> None | v # r \<Rightarrow> Some \<lparr>bit_value = v, bit_input = r, bit_at = 5\<rparr>)"

definition read_bit :: "bits \<Rightarrow> (bool \<times> bits) option" where
  "read_bit b =
     (let bset = (bit_value b div 2 ^ bit_at b mod 2 = 1) in
      if bit_at b = 0 then
        (case bit_input b of
           [] \<Rightarrow> None
         | v # r \<Rightarrow> Some (bset, \<lparr>bit_value = v, bit_input = r, bit_at = 5\<rparr>))
      else Some (bset, b\<lparr>bit_at := bit_at b - 1\<rparr>))"

text \<open>The least significant bit comes first. (Shifts of 32 or more would need a code width that takes
  \<open>2 ^ 32\<close> dictionary entries.)\<close>

fun read_bits :: "nat \<Rightarrow> bits \<Rightarrow> (nat \<times> bits) option" where
  "read_bits 0 b = Some (0, b)"
| "read_bits (Suc n) b =
     (case read_bit b of
        None \<Rightarrow> None
      | Some (bset, b1) \<Rightarrow> map_option (\<lambda>(v, b2). ((if bset then 1 else 0) + 2 * v, b2)) (read_bits n b1))"

record utf16_output =
  out_text :: string
  pending_high :: "nat option"

definition out_push :: "nat \<Rightarrow> nat \<Rightarrow> utf16_output \<Rightarrow> decode_error + utf16_output" where
  "out_push mx v o1 =
     (if mx < length (out_text o1) + length (utf8_bytes v) then Inl TooLarge
      else Inr \<lparr>out_text = out_text o1 @ utf8_bytes v, pending_high = None\<rparr>)"

definition out_unit :: "nat \<Rightarrow> nat \<Rightarrow> utf16_output \<Rightarrow> decode_error + utf16_output" where
  "out_unit mx u o1 =
     (case pending_high o1 of
        Some high \<Rightarrow>
          if u < 0xDC00 \<or> 0xDFFF < u then Inl Undecodable
          else out_push mx (0x10000 + (high - 0xD800) * 1024 + (u - 0xDC00)) o1
      | None \<Rightarrow>
          if 0xD800 \<le> u \<and> u \<le> 0xDBFF then Inr (o1\<lparr>pending_high := Some u\<rparr>)
          else if 0xDC00 \<le> u \<and> u \<le> 0xDFFF then Inl Undecodable
          else out_push mx u o1)"

fun out_append :: "nat \<Rightarrow> nat list \<Rightarrow> utf16_output \<Rightarrow> decode_error + utf16_output" where
  "out_append mx [] o1 = Inr o1"
| "out_append mx (u # us) o1 = and_then (out_unit mx u o1) (out_append mx us)"

definition out_finish :: "utf16_output \<Rightarrow> decode_error + string" where
  "out_finish o1 = (if pending_high o1 = None then Inr (out_text o1) else Inl Undecodable)"

text \<open>When the countdown is over, codes get one bit longer.\<close>

definition enlarge :: "nat \<Rightarrow> nat \<Rightarrow> decode_error + nat \<times> nat" where
  "enlarge width countdown =
     (if countdown \<noteq> 0 then Inr (width, countdown)
      else if 64 \<le> width then Inl TooLarge
      else if 255 \<le> width then Inl TooLarge
      else Inr (width + 1, 2 ^ width))"

definition count_down :: "nat \<Rightarrow> decode_error + nat" where
  "count_down n = (if n = 0 then Inl Undecodable else Inr (n - 1))"

record lz_state =
  lz_bits :: bits
  lz_dictionary :: "nat list list"
  lz_previous :: "nat list"
  lz_output :: utf16_output
  lz_width :: nat
  lz_countdown :: nat

text \<open>Read one code; a literal joins the dictionary and stands for its own index. \<open>None\<close> closes.\<close>

definition lz_code :: "lz_state \<Rightarrow> decode_error + (nat \<times> lz_state) option" where
  "lz_code st =
     and_then (ok_or (read_bits (lz_width st) (lz_bits st)) Undecodable) (\<lambda>(c, b).
       if c = 0 \<or> c = 1 then
         and_then (ok_or (read_bits (c * 8 + 8) b) Undecodable) (\<lambda>(unit, b2).
         and_then (count_down (lz_countdown st)) (\<lambda>n.
           Inr (Some (length (lz_dictionary st),
             st\<lparr>lz_bits := b2, lz_dictionary := lz_dictionary st @ [[unit]], lz_countdown := n\<rparr>))))
       else if c = 2 then Inr None
       else Inr (Some (c, st\<lparr>lz_bits := b\<rparr>)))"

definition lz_entry :: "lz_state \<Rightarrow> nat \<Rightarrow> decode_error + nat list" where
  "lz_entry st index =
     (if index < length (lz_dictionary st) then Inr (lz_dictionary st ! index)
      else if index = length (lz_dictionary st) then
        (case lz_previous st of [] \<Rightarrow> Inl Undecodable | p # _ \<Rightarrow> Inr (lz_previous st @ [p]))
      else Inl Undecodable)"

definition lz_emit :: "nat \<Rightarrow> nat \<Rightarrow> lz_state \<Rightarrow> decode_error + lz_state" where
  "lz_emit mx index st =
     and_then (enlarge (lz_width st) (lz_countdown st)) (\<lambda>(w, n).
     and_then (lz_entry st index) (\<lambda>entry.
     and_then (out_append mx entry (lz_output st)) (\<lambda>o1.
       case entry of
         [] \<Rightarrow> Inl Undecodable
       | e # _ \<Rightarrow>
           and_then (count_down n) (\<lambda>n1.
           and_then (enlarge w n1) (\<lambda>(w2, n2).
             Inr (st\<lparr>lz_dictionary := lz_dictionary st @ [lz_previous st @ [e]], lz_previous := entry,
                    lz_output := o1, lz_width := w2, lz_countdown := n2\<rparr>))))))"

definition bits_left :: "bits \<Rightarrow> nat" where
  "bits_left b = 6 * length (bit_input b) + bit_at b"

lemma read_bit_less: "read_bit b = Some (x, b') \<Longrightarrow> bits_left b' < bits_left b"
  by (auto simp: read_bit_def bits_left_def Let_def split: if_splits list.splits)

lemma read_bits_le: "read_bits n b = Some (v, b') \<Longrightarrow> bits_left b' + n \<le> bits_left b"
proof (induction n arbitrary: b v)
  case (Suc n)
  then obtain x b1 w where "read_bit b = Some (x, b1)" "read_bits n b1 = Some (w, b')"
    by (auto split: option.splits)
  then show ?case using Suc.IH read_bit_less by fastforce
qed simp

lemma lz_code_less: "lz_code st = Inr (Some (c, st')) \<Longrightarrow> bits_left (lz_bits st') < bits_left (lz_bits st)"
proof -
  assume a: "lz_code st = Inr (Some (c, st'))"
  then obtain v b where r: "read_bits (lz_width st) (lz_bits st) = Some (v, b)"
    by (auto simp: lz_code_def and_then_Inr_iff ok_or_def split: option.splits)
  show ?thesis
  proof (cases "v = 0 \<or> v = 1")
    case True
    then obtain u b2 where r2: "read_bits (v * 8 + 8) b = Some (u, b2)" "lz_bits st' = b2"
      using a r by (auto simp: lz_code_def and_then_Inr_iff ok_or_def split: option.splits)
    then show ?thesis using read_bits_le [OF r] read_bits_le [OF r2(1)] by simp
  next
    case False
    then have "lz_bits st' = b" using a r by (auto simp: lz_code_def and_then_Inr_iff ok_or_def split: if_splits)
    moreover have "lz_width st \<noteq> 0" using False r by (cases "lz_width st") auto
    ultimately show ?thesis using read_bits_le [OF r] by simp
  qed
qed

lemma lz_emit_bits: "lz_emit mx i st = Inr st' \<Longrightarrow> lz_bits st' = lz_bits st"
  by (auto simp: lz_emit_def and_then_Inr_iff neq_Nil_conv split: list.splits)

function lz_loop :: "nat \<Rightarrow> lz_state \<Rightarrow> decode_error + string" where
  "lz_loop mx st =
     (case lz_code st of
        Inl e \<Rightarrow> Inl e
      | Inr None \<Rightarrow> out_finish (lz_output st)
      | Inr (Some (index, st1)) \<Rightarrow>
          (case lz_emit mx index st1 of
             Inl e \<Rightarrow> Inl e
           | Inr st2 \<Rightarrow> lz_loop mx st2))"
  by pat_completeness auto
termination
  by (relation "measure (\<lambda>(mx, st). bits_left (lz_bits st))") (auto dest!: lz_code_less lz_emit_bits)

declare lz_loop.simps [simp del]

definition decompress_lz64_bounded :: "string \<Rightarrow> nat \<Rightarrow> decode_error + string" where
  "decompress_lz64_bounded payload mx =
     (case utf8_scalars payload of
        None \<Rightarrow> Inl Undecodable
      | Some scalars \<Rightarrow>
          (let units = concat (map utf16_units scalars);
               encoded = map (\<lambda>u. index_in u (map code base64_key)) units in
           if None \<in> set encoded then Inl Undecodable
           else
             and_then (ok_or (bits_new (map the encoded)) Undecodable) (\<lambda>b.
             and_then (ok_or (read_bits 2 b) Undecodable) (\<lambda>(initial, b1).
               if initial = 2 then Inr []
               else if initial \<noteq> 0 \<and> initial \<noteq> 1 then Inl Undecodable
               else
                 and_then (ok_or (read_bits (if initial = 0 then 8 else 16) b1) Undecodable) (\<lambda>(first, b2).
                 and_then (out_append mx [first] \<lparr>out_text = [], pending_high = None\<rparr>) (\<lambda>o1.
                   lz_loop mx \<lparr>lz_bits = b2, lz_dictionary = [[0], [1], [2], [first]], lz_previous = [first],
                     lz_output = o1, lz_width = 3, lz_countdown = 4\<rparr>))))))"

section \<open>The decoder\<close>

definition may_expand :: "string \<Rightarrow> bool \<Rightarrow> string option \<Rightarrow> bool" where
  "may_expand body form_encoded hint \<longleftrightarrow>
     64 * 1024 < length body \<or> form_encoded \<or> hint \<noteq> None \<or> starts_with gzip_magic body \<or> looks_like_base64 body"

definition is_lz :: "string option \<Rightarrow> bool" where
  "is_lz hint \<longleftrightarrow> hint = Some ''lz64'' \<or> hint = Some ''lz-string''"

definition unwrap_form :: "string \<Rightarrow> bool \<Rightarrow> string option \<Rightarrow> string \<times> string option" where
  "unwrap_form body form_encoded hint =
     (if form_encoded then
        (case parse_form body of
           Inr (data, form_hint) \<Rightarrow> (data, if form_hint \<noteq> None then form_hint else hint)
         | Inl _ \<Rightarrow> (body, hint))
      else (body, hint))"

definition unwrap_base64 :: "codecs \<Rightarrow> string \<Rightarrow> string" where
  "unwrap_base64 cd p =
     (if looks_like_base64 p then (case base64_decode cd p of Some d \<Rightarrow> d | None \<Rightarrow> p) else p)"

definition decode_raw :: "string \<Rightarrow> nat \<Rightarrow> decode_error + string" where
  "decode_raw payload max_bytes = (if max_bytes < length payload then Inl TooLarge else from_utf8 payload)"

definition decode_limited :: "codecs \<Rightarrow> string \<Rightarrow> bool \<Rightarrow> string option \<Rightarrow> nat \<Rightarrow> decode_error + string" where
  "decode_limited cd body form_encoded hint0 max_bytes =
     (let (payload0, hint) = unwrap_form body form_encoded hint0;
          lz_payload = (if is_lz hint \<and> utf8_scalars payload0 \<noteq> None then Some payload0 else None);
          payload = unwrap_base64 cd payload0 in
      if starts_with gzip_magic payload then and_then (gunzip_bounded cd payload max_bytes) from_utf8
      else if is_lz hint then
        (case (case lz_payload of None \<Rightarrow> Inl Undecodable | Some text \<Rightarrow> decompress_lz64_bounded text max_bytes) of
           Inr out \<Rightarrow> Inr out
         | Inl TooLarge \<Rightarrow> Inl TooLarge
         | Inl Undecodable \<Rightarrow>
             (case (if utf8_scalars payload \<noteq> None \<and> lz_payload \<noteq> Some payload
                    then decompress_lz64_bounded payload max_bytes else Inl Undecodable) of
                Inr out \<Rightarrow> Inr out
              | Inl TooLarge \<Rightarrow> Inl TooLarge
              | Inl Undecodable \<Rightarrow> decode_raw payload max_bytes))
      else decode_raw payload max_bytes)"

definition decode :: "codecs \<Rightarrow> string \<Rightarrow> bool \<Rightarrow> string option \<Rightarrow> decode_error + string" where
  "decode cd body form_encoded hint = decode_limited cd body form_encoded hint max_decompressed_bytes"

section \<open>The ceiling\<close>

lemma out_unit_bound:
  "out_unit mx u o1 = Inr o2 \<Longrightarrow> length (out_text o1) \<le> mx \<Longrightarrow> length (out_text o2) \<le> mx"
  by (auto simp: out_unit_def out_push_def split: option.splits if_splits)

lemma out_append_bound:
  "out_append mx us o1 = Inr o2 \<Longrightarrow> length (out_text o1) \<le> mx \<Longrightarrow> length (out_text o2) \<le> mx"
  by (induction us arbitrary: o1) (auto simp: and_then_Inr_iff dest: out_unit_bound)

lemma lz_code_output: "lz_code st = Inr (Some (c, st')) \<Longrightarrow> lz_output st' = lz_output st"
  by (auto simp: lz_code_def and_then_Inr_iff split: if_splits)

lemma lz_emit_output:
  "lz_emit mx i st = Inr st' \<Longrightarrow> \<exists>entry. out_append mx entry (lz_output st) = Inr (lz_output st')"
proof -
  assume e: "lz_emit mx i st = Inr st'"
  then obtain entry where "lz_entry st i = Inr entry" by (auto simp: lz_emit_def and_then_Inr_iff)
  then have "out_append mx entry (lz_output st) = Inr (lz_output st')"
    using e by (cases entry) (auto simp: lz_emit_def and_then_Inr_iff simp del: out_append.simps)
  then show ?thesis ..
qed

lemma lz_loop_bound:
  "length (out_text (lz_output st)) \<le> mx \<Longrightarrow> lz_loop mx st = Inr out \<Longrightarrow> length out \<le> mx"
proof (induction mx st rule: lz_loop.induct)
  case (1 mx st)
  show ?case
  proof (cases "lz_code st")
    case (Inl e)
    then show ?thesis using 1(3) by (subst (asm) lz_loop.simps) simp
  next
    case (Inr r)
    show ?thesis
    proof (cases r)
      case None
      then show ?thesis using 1(2,3) Inr by (subst (asm) lz_loop.simps) (auto simp: out_finish_def split: if_splits)
    next
      case (Some p)
      obtain i st1 where p: "p = (i, st1)" by (cases p)
      obtain st2 where st2: "lz_emit mx i st1 = Inr st2" "lz_loop mx st2 = Inr out"
        using 1(3) Inr Some p by (subst (asm) lz_loop.simps) (auto split: sum.splits)
      have "length (out_text (lz_output st1)) \<le> mx"
        using 1(2) lz_code_output [of st i st1] Inr Some p by simp
      then have "length (out_text (lz_output st2)) \<le> mx" using lz_emit_output [OF st2(1)] out_append_bound by blast
      then show ?thesis using 1(1) [OF Inr Some p [symmetric]] st2 p by auto
    qed
  qed
qed

lemma lz_start_bound:
  "out_append mx us \<lparr>out_text = [], pending_high = None\<rparr> = Inr (lz_output st) \<Longrightarrow> lz_loop mx st = Inr out
    \<Longrightarrow> length out \<le> mx"
  by (rule lz_loop_bound [OF out_append_bound]) auto

lemma decompress_lz64_bound: "decompress_lz64_bounded payload mx = Inr out \<Longrightarrow> length out \<le> mx"
  by (auto simp: decompress_lz64_bounded_def and_then_Inr_iff Let_def simp del: out_append.simps
      split: option.splits if_splits intro: lz_start_bound [rotated])

lemma gunzip_loop_bound: "gunzip_loop rd i mx out = Inr r \<Longrightarrow> length out \<le> mx \<Longrightarrow> length r \<le> mx"
proof (induction rd i mx out rule: gunzip_loop.induct)
  case (1 rd i mx out)
  then show ?case
    by (subst (asm) gunzip_loop.simps) (auto split: option.splits if_splits)
qed

lemma from_utf8_same: "from_utf8 s = Inr r \<Longrightarrow> r = s"
  by (auto simp: from_utf8_def split: if_splits)

lemma decode_raw_bound: "decode_raw payload mx = Inr out \<Longrightarrow> length out \<le> mx"
  by (auto simp: decode_raw_def split: if_splits dest: from_utf8_same)

lemma decode_limited_bound: "decode_limited cd body form hint mx = Inr out \<Longrightarrow> length out \<le> mx"
proof -
  assume d: "decode_limited cd body form hint mx = Inr out"
  obtain p h where uf: "unwrap_form body form hint = (p, h)" by (cases "unwrap_form body form hint")
  show ?thesis
  proof (cases "starts_with gzip_magic (unwrap_base64 cd p)")
    case True
    then obtain r where "gunzip_bounded cd (unwrap_base64 cd p) mx = Inr r" "from_utf8 r = Inr out"
      using d uf by (auto simp: decode_limited_def Let_def and_then_Inr_iff)
    then show ?thesis using gunzip_loop_bound [of "gzip_read cd (unwrap_base64 cd p)" 0 mx "[]" r] from_utf8_same
      by (auto simp: gunzip_bounded_def)
  next
    case False
    then show ?thesis
      using d uf by (auto simp: decode_limited_def Let_def split: if_splits sum.splits decode_error.splits option.splits
          dest: decompress_lz64_bound decode_raw_bound)
  qed
qed

section \<open>The result is text\<close>

text \<open>The output of every route is well-formed UTF-8, as the code's \<open>String\<close> says; on the LZ route this
  rests on every unit being of 16 bits and every surrogate being paired.\<close>

definition scalar_value :: "nat \<Rightarrow> bool" where
  "scalar_value v \<longleftrightarrow> v < 0xD800 \<or> 0xE000 \<le> v \<and> v < 0x110000"

lemma code_char_of [simp]: "n < 256 \<Longrightarrow> code (char_of n) = n"
  by (simp add: code_def)

lemma scalar_at_4:
  "a < 5 \<Longrightarrow> b < 64 \<Longrightarrow> c < 64 \<Longrightarrow> d < 64 \<Longrightarrow> a = 0 \<Longrightarrow> 16 \<le> b
    \<Longrightarrow> scalar_at (map char_of [0xF0 + a, 0x80 + b, 0x80 + c, 0x80 + d] @ s) = Some (a * 262144 + b * 4096 + c * 64 + d, 4)"
  "a < 5 \<Longrightarrow> b < 64 \<Longrightarrow> c < 64 \<Longrightarrow> d < 64 \<Longrightarrow> 0 < a \<Longrightarrow> a < 4
    \<Longrightarrow> scalar_at (map char_of [0xF0 + a, 0x80 + b, 0x80 + c, 0x80 + d] @ s) = Some (a * 262144 + b * 4096 + c * 64 + d, 4)"
  "a < 5 \<Longrightarrow> b < 64 \<Longrightarrow> c < 64 \<Longrightarrow> d < 64 \<Longrightarrow> a = 4 \<Longrightarrow> b < 16
    \<Longrightarrow> scalar_at (map char_of [0xF0 + a, 0x80 + b, 0x80 + c, 0x80 + d] @ s) = Some (a * 262144 + b * 4096 + c * 64 + d, 4)"
  by (simp_all add: scalar_at_def cont_in_def Let_def)

lemma scalar_at_bytes4:
  assumes "a < 5" "b < 64" "c < 64" "d < 64" "a = 0 \<longrightarrow> 16 \<le> b" "a = 4 \<longrightarrow> b < 16"
    and "a * 262144 + b * 4096 + c * 64 + d = v"
  shows "scalar_at (map char_of [0xF0 + a, 0x80 + b, 0x80 + c, 0x80 + d] @ s) = Some (v, 4)"
proof -
  consider "a = 0" "16 \<le> b" | "0 < a" "a < 4" | "a = 4" "b < 16" using assms by linarith
  then show ?thesis using scalar_at_4 assms by cases (metis, metis, metis)
qed

lemma mod_64_below: "v div 4096 = 13 \<Longrightarrow> v < 55296 \<Longrightarrow> v div 64 mod 64 < (32::nat)"
proof -
  assume "v div 4096 = 13" "v < 55296"
  then have "v div 64 div 64 = 13" "v div 64 < 864" by (simp_all add: div_mult2_eq [symmetric] less_mult_imp_div_less)
  then show ?thesis using div_mult_mod_eq [of "v div 64" 64] by linarith
qed

lemma mod_64_below4: "v div 262144 = 4 \<Longrightarrow> v < 1114112 \<Longrightarrow> v div 4096 mod 64 < (16::nat)"
proof -
  assume "v div 262144 = 4" "v < 1114112"
  then have "v div 4096 div 64 = 4" "v div 4096 < 272" by (simp_all add: div_mult2_eq [symmetric] less_mult_imp_div_less)
  then show ?thesis using div_mult_mod_eq [of "v div 4096" 64] by linarith
qed

lemma base64_split:
  "n div 4096 * 4096 + n div 64 mod 64 * 64 + n mod 64 = (n::nat)"
  "n div 262144 * 262144 + n div 4096 mod 64 * 4096 + n div 64 mod 64 * 64 + n mod 64 = (n::nat)"
proof -
  have a: "n div 64 * 64 + n mod 64 = n" "n div 4096 * 64 + n div 64 mod 64 = n div 64"
    "n div 262144 * 64 + n div 4096 mod 64 = n div 4096"
    using div_mult_mod_eq [of n 64] div_mult_mod_eq [of "n div 64" 64] div_mult_mod_eq [of "n div 4096" 64]
    by (simp_all add: div_mult2_eq [symmetric])
  then show "n div 4096 * 4096 + n div 64 mod 64 * 64 + n mod 64 = (n::nat)" by linarith
  from a show "n div 262144 * 262144 + n div 4096 mod 64 * 4096 + n div 64 mod 64 * 64 + n mod 64 = (n::nat)" by linarith
qed

lemma scalar_at_bytes:
  assumes "scalar_value v"
  shows "scalar_at (utf8_bytes v @ s) = Some (v, length (utf8_bytes v))"
proof -
  consider "v < 0x80" | "0x80 \<le> v" "v < 0x800" | "0x800 \<le> v" "v < 0x10000" | "0x10000 \<le> v" "v < 0x110000"
    using assms unfolding scalar_value_def by linarith
  then show ?thesis
  proof cases
    case 1
    then show ?thesis by (simp add: scalar_at_def utf8_bytes_def)
  next
    case 2
    then have "2 \<le> v div 64" "v div 64 < 32" by auto
    then show ?thesis using 2 by (simp add: scalar_at_def utf8_bytes_def cont_in_def)
  next
    case 3
    then have "v div 4096 < 16" "v div 4096 = 0 \<Longrightarrow> 32 \<le> v div 64 mod 64" "v div 4096 = 13 \<Longrightarrow> v div 64 mod 64 < 32"
      using assms mod_64_below by (auto simp: scalar_value_def)
    moreover have "v mod 64 \<le> 63" "v div 64 mod 64 \<le> 63" by auto
    moreover have "v div 4096 = 0 \<Longrightarrow> v div 64 \<le> 63" by auto
    ultimately show ?thesis using 3
      by (simp add: scalar_at_def utf8_bytes_def cont_in_def Let_def base64_split(1) less_Suc_eq_le [symmetric])
  next
    case 4
    let ?a = "v div 262144" and ?b = "v div 4096 mod 64" and ?c = "v div 64 mod 64" and ?d = "v mod 64"
    have sum: "?a * 262144 + ?b * 4096 + ?c * 64 + ?d = v" by (rule base64_split(2))
    have bytes: "utf8_bytes v = map char_of [0xF0 + ?a, 0x80 + ?b, 0x80 + ?c, 0x80 + ?d]"
      using 4 by (simp add: utf8_bytes_def)
    have "scalar_at (map char_of [0xF0 + ?a, 0x80 + ?b, 0x80 + ?c, 0x80 + ?d] @ s) = Some (v, 4)"
      by (rule scalar_at_bytes4 [OF _ _ _ _ _ _ sum]) (use 4 mod_64_below4 in auto)
    then show ?thesis unfolding bytes by simp
  qed
qed

lemma if_Some_iff: "(if P then Some x else None) = Some y \<longleftrightarrow> P \<and> x = y"
  by simp

lemma scalar_at_append: "scalar_at s = Some (v, n) \<Longrightarrow> scalar_at (s @ t) = Some (v, n) \<and> n \<le> length s"
proof -
  assume a: "scalar_at s = Some (v, n)"
  then obtain x r where s: "s = x # r" by (cases s) (auto simp: scalar_at_def)
  consider "code x < 0x80" | "0xC2 \<le> code x" "code x \<le> 0xDF" | "0xE0 \<le> code x" "code x \<le> 0xEF"
    | "0xF0 \<le> code x" "code x \<le> 0xF4"
    using a s by (auto simp: scalar_at_def Let_def split: if_splits)
  then show ?thesis
    by cases (use a s in \<open>simp_all add: scalar_at_def Let_def if_Some_iff
      split: list.splits split del: if_split\<close>)
qed

lemma utf8_scalars_append:
  "utf8_scalars s = Some xs \<Longrightarrow> utf8_scalars (s @ t) = map_option (append xs) (utf8_scalars t)"
proof (induction s arbitrary: xs rule: utf8_scalars.induct)
  case (1 s)
  show ?case
  proof (cases "s = []")
    case True
    then show ?thesis using 1(2) by (simp add: utf8_scalars.simps [of "[]"] option.map_id0 [unfolded id_def])
  next
    case False
    then obtain v n ys where v: "scalar_at s = Some (v, n)" "utf8_scalars (drop n s) = Some ys" "xs = v # ys"
      using 1(2) by (subst (asm) utf8_scalars.simps) (auto split: option.splits)
    have "utf8_scalars (drop n s @ t) = map_option (append ys) (utf8_scalars t)"
      using 1(1) [OF False v(1) refl v(2)] .
    then show ?thesis
      using scalar_at_append [OF v(1), of t] v(3) False
      by (subst utf8_scalars.simps) (cases "utf8_scalars t"; simp)
  qed
qed

lemma utf8_scalars_bytes:
  assumes "utf8_scalars s \<noteq> None" "scalar_value v"
  shows "utf8_scalars (s @ utf8_bytes v) \<noteq> None"
proof -
  have "utf8_bytes v \<noteq> []" by (simp add: utf8_bytes_def)
  then have "utf8_scalars (utf8_bytes v) = Some [v]"
    using scalar_at_bytes [OF assms(2), of "[]"] by (subst utf8_scalars.simps) (simp add: utf8_scalars.simps [of "[]"])
  then show ?thesis using assms(1) utf8_scalars_append by auto
qed

definition out_ok :: "utf16_output \<Rightarrow> bool" where
  "out_ok o1 \<longleftrightarrow> utf8_scalars (out_text o1) \<noteq> None
     \<and> (case pending_high o1 of None \<Rightarrow> True | Some h \<Rightarrow> 0xD800 \<le> h \<and> h \<le> 0xDBFF)"

definition unit16 :: "nat \<Rightarrow> bool" where
  "unit16 u \<longleftrightarrow> u < 65536"

lemma out_push_ok:
  "out_push mx v o1 = Inr o2 \<Longrightarrow> utf8_scalars (out_text o1) \<noteq> None \<Longrightarrow> scalar_value v \<Longrightarrow> out_ok o2"
  using utf8_scalars_bytes [of "out_text o1" v] by (auto simp: out_push_def out_ok_def split: if_splits)

lemma out_unit_ok: 
  assumes "out_unit mx u o1 = Inr o2" "out_ok o1" "unit16 u"
  shows "out_ok o2"
proof (cases "pending_high o1")
  case None
  then show ?thesis
    using assms out_push_ok [of mx u o1 o2]
    by (auto simp: out_unit_def out_ok_def unit16_def scalar_value_def split: if_splits)
next
  case (Some h)
  have "scalar_value (0x10000 + (h - 0xD800) * 1024 + (u - 0xDC00))"
    using assms Some by (auto simp: out_unit_def out_ok_def scalar_value_def split: if_splits)
  then show ?thesis
    using assms Some out_push_ok by (fastforce simp: out_unit_def out_ok_def split: if_splits)
qed

lemma out_append_ok:
  "out_append mx us o1 = Inr o2 \<Longrightarrow> out_ok o1 \<Longrightarrow> list_all unit16 us \<Longrightarrow> out_ok o2"
  by (induction us arbitrary: o1) (auto simp: and_then_Inr_iff dest: out_unit_ok)

definition lz_ok :: "lz_state \<Rightarrow> bool" where
  "lz_ok st \<longleftrightarrow> list_all (list_all unit16) (lz_dictionary st) \<and> list_all unit16 (lz_previous st) \<and> out_ok (lz_output st)"

lemma read_bits_range: "read_bits n b = Some (v, b') \<Longrightarrow> v < 2 ^ n"
  by (induction n arbitrary: b v) (fastforce split: option.splits prod.splits)+

lemma lz_code_ok:
  assumes "lz_code st = Inr (Some (c, st'))" "lz_ok st"
  shows "lz_ok st'"
proof -
  obtain v b where r: "read_bits (lz_width st) (lz_bits st) = Some (v, b)"
    using assms(1) by (auto simp: lz_code_def and_then_Inr_iff ok_or_def split: option.splits)
  show ?thesis
  proof (cases "v = 0 \<or> v = 1")
    case True
    then obtain u b2 where r2: "read_bits (v * 8 + 8) b = Some (u, b2)"
      "lz_dictionary st' = lz_dictionary st @ [[u]]" "lz_previous st' = lz_previous st" "lz_output st' = lz_output st"
      using assms(1) r by (auto simp: lz_code_def and_then_Inr_iff ok_or_def split: option.splits)
    have "unit16 u" using read_bits_range [OF r2(1)] True by (auto simp: unit16_def)
    then show ?thesis using r2 assms(2) by (simp add: lz_ok_def)
  next
    case False
    then show ?thesis using assms r by (auto simp: lz_code_def and_then_Inr_iff ok_or_def lz_ok_def split: if_splits)
  qed
qed

lemma lz_entry_ok: "lz_entry st i = Inr entry \<Longrightarrow> lz_ok st \<Longrightarrow> list_all unit16 entry"
  by (auto simp: lz_entry_def lz_ok_def list_all_iff split: if_splits list.splits)

lemma lz_emit_ok:
  assumes e: "lz_emit mx i st = Inr st'" and ok: "lz_ok st"
  shows "lz_ok st'"
proof -
  obtain entry where en: "lz_entry st i = Inr entry" using e by (auto simp: lz_emit_def and_then_Inr_iff)
  then obtain x where x: "out_append mx entry (lz_output st) = Inr (lz_output st')" "lz_previous st' = entry"
      "x \<in> set entry" "lz_dictionary st' = lz_dictionary st @ [lz_previous st @ [x]]"
    using e by (cases entry) (auto simp: lz_emit_def and_then_Inr_iff simp del: out_append.simps)
  then show ?thesis
    using lz_entry_ok [OF en ok] ok out_append_ok [OF x(1)] by (auto simp: lz_ok_def list_all_iff)
qed

lemma lz_loop_text: "lz_ok st \<Longrightarrow> lz_loop mx st = Inr out \<Longrightarrow> utf8_scalars out \<noteq> None"
proof (induction mx st rule: lz_loop.induct)
  case (1 mx st)
  show ?case
  proof (cases "lz_code st")
    case (Inl e)
    then show ?thesis using 1(3) by (subst (asm) lz_loop.simps) simp
  next
    case (Inr r)
    show ?thesis
    proof (cases r)
      case None
      then show ?thesis using 1(2,3) Inr
        by (subst (asm) lz_loop.simps) (auto simp: out_finish_def lz_ok_def out_ok_def split: if_splits)
    next
      case (Some p)
      obtain i st1 where p: "p = (i, st1)" by (cases p)
      obtain st2 where st2: "lz_emit mx i st1 = Inr st2" "lz_loop mx st2 = Inr out"
        using 1(3) Inr Some p by (subst (asm) lz_loop.simps) (auto split: sum.splits)
      have "lz_ok st2"
        using lz_code_ok [of st i st1] lz_emit_ok [OF st2(1)] 1(2) Inr Some p by simp
      then show ?thesis using 1(1) [OF Inr Some p [symmetric]] st2 p by auto
    qed
  qed
qed

lemma decompress_lz64_text: "decompress_lz64_bounded payload mx = Inr out \<Longrightarrow> utf8_scalars out \<noteq> None"
proof -
  have start: "utf8_scalars out \<noteq> None"
    if "out_append mx [u] \<lparr>out_text = [], pending_high = None\<rparr> = Inr o1" "unit16 u"
      "lz_loop mx \<lparr>lz_bits = b2, lz_dictionary = [[0], [1], [2], [u]], lz_previous = [u],
         lz_output = o1, lz_width = 3, lz_countdown = 4\<rparr> = Inr out" for u o1 b2
  proof (rule lz_loop_text [OF _ that(3)])
    have "out_ok o1" by (rule out_append_ok [OF that(1)]) (use that(2) in \<open>auto simp: out_ok_def utf8_scalars.simps [of "[]"]\<close>)
    then show "lz_ok \<lparr>lz_bits = b2, lz_dictionary = [[0], [1], [2], [u]], lz_previous = [u],
         lz_output = o1, lz_width = 3, lz_countdown = 4\<rparr>"
      using that(2) by (simp add: lz_ok_def unit16_def)
  qed
  have range: "unit16 u" if "ok_or (read_bits n b) Undecodable = Inr (u, b2)" "n \<le> 16" for n u b b2
    using that read_bits_range [of n b u b2] power_increasing [of n 16 "2::nat"]
    by (auto simp: ok_or_def unit16_def split: option.splits)
  assume "decompress_lz64_bounded payload mx = Inr out"
  then show ?thesis
    apply (auto simp: decompress_lz64_bounded_def and_then_Inr_iff Let_def utf8_scalars.simps [of "[]"] simp del: out_append.simps
        split: option.splits if_splits)
     apply (rule start [unfolded not_None_eq One_nat_def], assumption, erule range, simp, assumption)+
    done
qed

lemma from_utf8_text: "from_utf8 s = Inr r \<Longrightarrow> utf8_scalars r \<noteq> None"
  by (auto simp: from_utf8_def split: if_splits)


lemma decode_raw_text: "decode_raw payload mx = Inr out \<Longrightarrow> utf8_scalars out \<noteq> None"
  by (auto simp: decode_raw_def split: if_splits dest: from_utf8_text)

lemma decode_limited_text: "decode_limited cd body form hint mx = Inr out \<Longrightarrow> utf8_scalars out \<noteq> None"
proof -
  assume d: "decode_limited cd body form hint mx = Inr out"
  obtain p h where uf: "unwrap_form body form hint = (p, h)" by (cases "unwrap_form body form hint")
  show ?thesis
  proof (cases "starts_with gzip_magic (unwrap_base64 cd p)")
    case True
    then obtain r where "from_utf8 r = Inr out"
      using d uf by (auto simp: decode_limited_def Let_def and_then_Inr_iff)
    then show ?thesis by (rule from_utf8_text)
  next
    case False
    then consider t where "decompress_lz64_bounded t mx = Inr out" | "decode_raw (unwrap_base64 cd p) mx = Inr out"
      using d uf by (auto simp: decode_limited_def Let_def split: if_splits sum.splits decode_error.splits option.splits)
    then show ?thesis by cases (rule decompress_lz64_text decode_raw_text, assumption)+
  qed
qed

section \<open>Properties\<close>

text \<open>C31: However a body is encoded, and whatever the content type and the compression hint claim, what
  the decoder returns is well-formed UTF-8 and never longer than the ceiling: the form, Base64, gzip,
  LZ-string and raw routes all respect it (an LZ bitstream with unpaired surrogates is refused), and
  each ends (the functions are total: every gzip chunk and every LZ code makes progress).\<close>

theorem decode_within_ceiling:
  assumes "decode_limited cd body form_encoded hint max_bytes = Inr text"
  shows "length text \<le> max_bytes \<and> utf8_scalars text \<noteq> None"
  using decode_limited_bound [OF assms] decode_limited_text [OF assms] by blast

definition sample_codecs :: codecs where
  "sample_codecs = \<lparr>base64_decode = (\<lambda>_. None), gzip_read = (\<lambda>_ _. None)\<rparr>"

theorem decode_within_ceiling_witness:
  "\<exists>text. decode_limited sample_codecs ''{}'' True None 10 = Inr text \<and> length text \<le> 10 \<and> utf8_scalars text \<noteq> None"
proof -
  have utf: "utf8_scalars ''{}'' = Some [123, 125]"
    by (simp add: utf8_scalars.simps scalar_at_def code_def)
  have form: "parse_form ''{}'' = Inl Undecodable"
    by (simp add: parse_form_def from_utf8_def utf split_once_def Let_def)
  have "decode_limited sample_codecs ''{}'' True None 10 = Inr ''{}''"
    by (simp add: decode_limited_def unwrap_form_def form unwrap_base64_def looks_like_base64_def Let_def
        starts_with_def gzip_magic_def is_lz_def decode_raw_def from_utf8_def utf)
  then show ?thesis using decode_within_ceiling by blast
qed

text \<open>A body for which \<open>may_expand\<close> says no, so that it is decoded without a place at the decoding
  gate, is not expanded: it is only checked to be UTF-8 and within the ceiling.\<close>

theorem decode_unexpanded:
  assumes "\<not> may_expand body form_encoded hint"
  shows "decode_limited cd body form_encoded hint max_bytes = decode_raw body max_bytes"
  using assms by (simp add: may_expand_def decode_limited_def unwrap_form_def unwrap_base64_def is_lz_def)

theorem decode_unexpanded_witness:
  "decode_limited sample_codecs ''{}'' False None 1 = Inl TooLarge"
proof -
  have "\<not> may_expand ''{}'' False None"
    by (simp add: may_expand_def starts_with_def gzip_magic_def looks_like_base64_def)
  from decode_unexpanded [OF this, of sample_codecs 1] show ?thesis by (simp add: decode_raw_def)
qed

end
