(* ===== verification/Lake.thy ===== *)
theory Lake
  imports Catalog WalReader "HOL-Library.List_Lexorder" "HOL-Library.Char_ord" "HOL-Library.Product_Lexorder"
begin

text \<open>
  The event lake, \<open>src/lake/mod.rs\<close>: immutable files, each of one project and day, catalogued in
  \<open>projections.db\<close>; the snapshot readers lease files from; the graveyard of retired files. A file's content
  is the list of its events (the Parquet encoding is not modelled), its path is relative to the root. The
  database part of a lake (\<open>lake_db\<close>: generation, checkpoint, file rows, projection tables) survives a
  restart, the snapshot and the graveyard do not. Days are numbers; \<open>chrono\<close>'s calendar is the record
  \<open>calendar\<close>. Ids, sizes and generations are unbounded here.
\<close>

record lake_file =
  lf_id :: nat
  lf_project :: string
  lf_day :: int
  lf_path :: string
  lf_rows :: nat
  lf_bytes :: nat
  lf_level :: nat
  lf_created_at :: int

record file_row =
  fr_file :: lake_file
  fr_created :: nat
  fr_retired :: "nat option"

record project_files =
  fs_version :: nat
  fs_days :: "(int \<times> lake_file list) list"

record snapshot =
  sn_generation :: nat
  sn_projects :: "(string \<times> project_files) list"

record lease =
  ls_files :: "lake_file list"
  ls_version :: nat

type_synonym disk = "string \<rightharpoonup> captured_event list"

record lake_db =
  db_generation :: nat
  db_checkpoint :: wal_cursor
  db_rows :: "file_row list"
  db_tables :: tables

record lake =
  lk_db :: lake_db
  lk_disk :: disk
  lk_current :: snapshot
  lk_graveyard :: "lake_file list"

datatype lake_error = LakeDatabase | LakeIo | LakeCorrupt | LakeUnavailable

text \<open>\<open>chrono\<close>: the format \<open>%Y-%m-%d\<close>, the day of an instant, \<open>NaiveDate::MIN\<close> and \<open>MAX\<close>.\<close>

record calendar =
  day_text :: "int \<Rightarrow> string"
  date_naive :: "instant \<Rightarrow> int"
  day_min :: int
  day_max :: int

section \<open>Ordered maps of lists\<close>

text \<open>\<open>entry(k).or_default().push(v)\<close> on a \<open>BTreeMap\<close>, an association list in the order of its keys.\<close>

fun push_at :: "'k :: linorder \<Rightarrow> 'v \<Rightarrow> ('k \<times> 'v list) list \<Rightarrow> ('k \<times> 'v list) list" where
  "push_at k v [] = [(k, [v])]"
| "push_at k v ((k', vs) # m) =
     (if k = k' then (k', vs @ [v]) # m else if k < k' then (k, [v]) # (k', vs) # m else (k', vs) # push_at k v m)"

definition listed :: "('k \<times> 'v list) list \<Rightarrow> 'k \<Rightarrow> 'v list" where
  "listed m k = (case map_of m k of None \<Rightarrow> [] | Some vs \<Rightarrow> vs)"

section \<open>Reading\<close>

definition empty_files :: project_files where
  "empty_files = \<lparr>fs_version = 0, fs_days = []\<rparr>"

definition files_of :: "snapshot \<Rightarrow> string \<Rightarrow> project_files" where
  "files_of sn pid = (case map_of (sn_projects sn) pid of None \<Rightarrow> empty_files | Some p \<Rightarrow> p)"

definition all_files :: "project_files \<Rightarrow> lake_file list" where
  "all_files p = concat (map snd (fs_days p))"

text \<open>\<open>days.range(from..to_exclusive)\<close>, in the order of the days.\<close>

definition lake_lease :: "lake \<Rightarrow> string \<Rightarrow> int \<Rightarrow> int \<Rightarrow> lease" where
  "lake_lease lk pid from_day to_day =
     (let p = files_of (lk_current lk) pid in
      \<lparr>ls_files = concat (map snd (filter (\<lambda>(d, _). from_day \<le> d \<and> d < to_day) (fs_days p))),
       ls_version = fs_version p\<rparr>)"

definition lake_lease_all :: "calendar \<Rightarrow> lake \<Rightarrow> string \<Rightarrow> lease" where
  "lake_lease_all cal lk pid = lake_lease lk pid (day_min cal) (day_max cal)"

definition lease_rows :: "lease \<Rightarrow> nat" where
  "lease_rows ls = sum_list (map lf_rows (ls_files ls))"

record lake_status =
  st_files :: nat
  st_rows :: nat
  st_bytes :: nat
  st_first_day :: "int option"
  st_last_day :: "int option"

definition lake_status_of :: "lake \<Rightarrow> string \<Rightarrow> lake_status" where
  "lake_status_of lk pid =
     (let p = files_of (lk_current lk) pid; days = map fst (fs_days p); fs = all_files p in
      \<lparr>st_files = length fs, st_rows = sum_list (map lf_rows fs), st_bytes = sum_list (map lf_bytes fs),
       st_first_day = (if days = [] then None else Some (hd days)),
       st_last_day = (if days = [] then None else Some (last days))\<rparr>)"

record partition =
  pt_project :: string
  pt_day :: int
  pt_files :: "lake_file list"

definition partitions :: "lake \<Rightarrow> partition list" where
  "partitions lk =
     sort_key (\<lambda>p. (pt_project p, pt_day p))
       (concat (map (\<lambda>(pid, p). map (\<lambda>(d, fs). \<lparr>pt_project = pid, pt_day = d, pt_files = fs\<rparr>) (fs_days p))
          (sn_projects (lk_current lk))))"

section \<open>Names\<close>

definition hex_digit :: "nat \<Rightarrow> char" where
  "hex_digit d = char_of (if d < 10 then 48 + d else 87 + d)"

definition plain_id_char :: "char \<Rightarrow> bool" where
  "plain_id_char c \<longleftrightarrow> is_digit c \<or> 65 \<le> code c \<and> code c \<le> 90 \<or> 97 \<le> code c \<and> code c \<le> 122
     \<or> c = CHR ''-'' \<or> c = CHR ''_''"

definition project_dir_name :: "string \<Rightarrow> string" where
  "project_dir_name pid =
     (if pid \<noteq> [] \<and> list_all plain_id_char pid then pid
      else CHR ''x'' # concat (map (\<lambda>c. [hex_digit (code c div 16), hex_digit (code c mod 16)]) pid))"

text \<open>The formats \<open>{n:012}\<close> and \<open>{n:04}\<close>.\<close>

definition pad :: "nat \<Rightarrow> nat \<Rightarrow> string" where
  "pad k n = replicate (k - length (decimal n)) (CHR ''0'') @ decimal n"

definition file_path :: "calendar \<Rightarrow> string \<Rightarrow> int \<Rightarrow> string \<Rightarrow> string" where
  "file_path cal pid day name = project_dir_name pid @ ''/'' @ day_text cal day @ ''/'' @ name"

definition published_name :: "nat \<Rightarrow> nat \<Rightarrow> string" where
  "published_name gen index = ''g'' @ pad 12 gen @ ''-'' @ pad 4 index @ ''.parquet''"

definition compacted_name :: "nat \<Rightarrow> string" where
  "compacted_name gen = ''c'' @ pad 12 gen @ ''.parquet''"

definition erased_name :: "nat \<Rightarrow> string" where
  "erased_name gen = ''e'' @ pad 12 gen @ ''.parquet''"

text \<open>\<open>path.with_extension("parquet.tmp")\<close> of a path that ends in \<open>.parquet\<close>.\<close>

definition temporary :: "string \<Rightarrow> string" where
  "temporary path = path @ ''.tmp''"

section \<open>Writing a file\<close>

text \<open>
  What the world decides in an operation: whether stage \<open>st\<close> fails at file \<open>i\<close>, what a failed write leaves in
  the temporary file, the size of an encoded file, and the clock.
\<close>

datatype stage = Begin | Flush | Dir | Matching | Query | WriteTmp | Rename | DirSync | Insert | Retire | Advance | Commit | Unlink

record lake_env =
  le_fails :: "stage \<Rightarrow> nat \<Rightarrow> bool"
  le_leftover :: "nat \<Rightarrow> captured_event list option"
  le_size :: "captured_event list \<Rightarrow> nat"
  le_now :: int

text \<open>The directory of the partition, the temporary file, the rename, the sync of the directory.\<close>

definition write_parquet ::
    "lake_env \<Rightarrow> nat \<Rightarrow> string \<Rightarrow> captured_event list \<Rightarrow> disk \<Rightarrow> (lake_error + unit) \<times> disk" where
  "write_parquet env i path rows d =
     (if le_fails env Dir i then (Inl LakeIo, d)
      else if le_fails env WriteTmp i then (Inl LakeIo, d(temporary path := le_leftover env i))
      else if le_fails env Rename i then (Inl LakeIo, d(temporary path := Some rows))
      else if le_fails env DirSync i then (Inl LakeIo, d(temporary path := None, path := Some rows))
      else (Inr (), d(temporary path := None, path := Some rows)))"

section \<open>The catalogue\<close>

text \<open>SQLite gives a new row the largest id plus one.\<close>

definition next_id :: "file_row list \<Rightarrow> nat" where
  "next_id frs = foldr (\<lambda>r n. max (lf_id (fr_file r) + 1) n) frs 1"

text \<open>The constraints of the table: a project id, ten characters of day, a path of its own.\<close>

definition insert_file ::
    "calendar \<Rightarrow> lake_env \<Rightarrow> nat \<Rightarrow> nat \<Rightarrow> string \<Rightarrow> int \<Rightarrow> string \<Rightarrow> nat \<Rightarrow> nat \<Rightarrow> nat \<Rightarrow> file_row list
     \<Rightarrow> lake_error + lake_file \<times> file_row list" where
  "insert_file cal env i gen pid day path rows bytes level frs =
     (if le_fails env Insert i \<or> pid = [] \<or> length (day_text cal day) \<noteq> 10
          \<or> list_ex (\<lambda>r. lf_path (fr_file r) = path) frs
      then Inl LakeDatabase
      else
        (let f = \<lparr>lf_id = next_id frs, lf_project = pid, lf_day = day, lf_path = path, lf_rows = rows,
                  lf_bytes = bytes, lf_level = level, lf_created_at = le_now env\<rparr>
         in Inr (f, frs @ [\<lparr>fr_file = f, fr_created = gen, fr_retired = None\<rparr>])))"

text \<open>\<open>retire\<close>: every id must name exactly one row that is not retired yet.\<close>

fun retire :: "nat list \<Rightarrow> nat \<Rightarrow> file_row list \<Rightarrow> lake_error + file_row list" where
  "retire [] gen frs = Inr frs"
| "retire (i # is) gen frs =
     (if length (filter (\<lambda>r. lf_id (fr_file r) = i \<and> fr_retired r = None) frs) \<noteq> 1 then Inl LakeCorrupt
      else retire is gen
        (map (\<lambda>r. if lf_id (fr_file r) = i \<and> fr_retired r = None then r\<lparr>fr_retired := Some gen\<rparr> else r) frs))"

text \<open>The generation moves on inside a transaction, unless another writer moved it.\<close>

definition advance_state :: "nat \<Rightarrow> wal_cursor option \<Rightarrow> lake_db \<Rightarrow> lake_error + lake_db" where
  "advance_state expected cursor db =
     (if db_generation db \<noteq> expected then Inl LakeCorrupt
      else Inr (db\<lparr>db_generation := expected + 1,
              db_checkpoint := (case cursor of None \<Rightarrow> db_checkpoint db | Some c \<Rightarrow> c)\<rparr>))"

section \<open>Snapshots\<close>

definition add_files :: "lake_file list \<Rightarrow> (int \<times> lake_file list) list \<Rightarrow> (int \<times> lake_file list) list" where
  "add_files fs days = foldl (\<lambda>m f. push_at (lf_day f) f m) days fs"

definition kept_days :: "nat list \<Rightarrow> (int \<times> lake_file list) list \<Rightarrow> (int \<times> lake_file list) list" where
  "kept_days retired days =
     filter (\<lambda>(_, fs). fs \<noteq> []) (map (\<lambda>(d, fs). (d, filter (\<lambda>f. lf_id f \<notin> List.set retired) fs)) days)"

definition touched_projects :: "lake_file list \<Rightarrow> nat list \<Rightarrow> snapshot \<Rightarrow> string list" where
  "touched_projects added retired sn =
     remdups (map lf_project added
       @ map fst (filter (\<lambda>(_, p). list_ex (\<lambda>f. lf_id f \<in> List.set retired) (all_files p)) (sn_projects sn)))"

definition rebuilt :: "nat \<Rightarrow> lake_file list \<Rightarrow> nat list \<Rightarrow> project_files \<Rightarrow> string \<Rightarrow> project_files" where
  "rebuilt gen added retired old pid =
     \<lparr>fs_version = gen,
      fs_days = add_files (filter (\<lambda>f. lf_project f = pid) added) (kept_days retired (fs_days old))\<rparr>"

definition activate :: "nat \<Rightarrow> lake_file list \<Rightarrow> nat list \<Rightarrow> lake \<Rightarrow> lake" where
  "activate gen added retired lk =
     (let sn = lk_current lk; touched = touched_projects added retired sn in
      lk\<lparr>lk_current :=
          \<lparr>sn_generation = gen,
           sn_projects = filter (\<lambda>(_, p). fs_days p \<noteq> [])
             (map (\<lambda>pid. (pid, if pid \<in> List.set touched then rebuilt gen added retired (files_of sn pid) pid
                              else files_of sn pid))
               (remdups (map fst (sn_projects sn) @ touched)))\<rparr>,
         lk_graveyard := lk_graveyard lk
           @ concat (map (\<lambda>pid. filter (\<lambda>f. lf_id f \<in> List.set retired) (all_files (files_of sn pid))) touched)\<rparr>)"

section \<open>Sweeping\<close>

text \<open>A file stays buried while a lease or an old snapshot names it (\<open>held\<close>) or when its removal fails. The
  rows of the removed files go if the database answers.\<close>

definition sweep_graveyard :: "(lake_file \<Rightarrow> bool) \<Rightarrow> (string \<Rightarrow> bool) \<Rightarrow> (nat \<Rightarrow> bool) \<Rightarrow> lake \<Rightarrow> nat \<times> lake" where
  "sweep_graveyard held unlinked deleted lk =
     (let removable = (\<lambda>f. \<not> held f \<and> unlinked (lf_path f)); gone = filter removable (lk_graveyard lk) in
      (length gone,
       lk\<lparr>lk_graveyard := filter (\<lambda>f. \<not> removable f) (lk_graveyard lk),
          lk_disk := (\<lambda>p. if p \<in> List.set (map lf_path gone) then None else lk_disk lk p),
          lk_db := (lk_db lk)\<lparr>db_rows := filter (\<lambda>r. \<not> (lf_id (fr_file r) \<in> List.set (map lf_id gone)
            \<and> deleted (lf_id (fr_file r)))) (db_rows (lk_db lk))\<rparr>\<rparr>))"

section \<open>Opening\<close>

definition grouped_rows :: "file_row list \<Rightarrow> (string \<times> project_files) list" where
  "grouped_rows frs =
     map (\<lambda>pid. let mine = filter (\<lambda>r. lf_project (fr_file r) = pid) frs in
          (pid, \<lparr>fs_version = foldl max 0 (map fr_created mine), fs_days = add_files (map fr_file mine) []\<rparr>))
       (remdups (map (lf_project \<circ> fr_file) frs))"

text \<open>Retired files and rows go, the snapshot is built from the rows by id, every catalogued file must be
  there, and what no row names is removed (every file has one of the suffixes \<open>.parquet\<close> and \<open>.tmp\<close>).
  \<open>unlinked\<close> says which removals of retired files work, \<open>orphans_gone\<close> whether those of the others do.\<close>

definition lake_open :: "(string \<Rightarrow> bool) \<Rightarrow> bool \<Rightarrow> lake_db \<Rightarrow> disk \<Rightarrow> lake_error + lake" where
  "lake_open unlinked orphans_gone db d =
     (let retired = map (lf_path \<circ> fr_file) (filter (\<lambda>r. fr_retired r \<noteq> None) (db_rows db));
          live = sort_key (lf_id \<circ> fr_file) (filter (\<lambda>r. fr_retired r = None) (db_rows db));
          paths = map (lf_path \<circ> fr_file) live in
      if \<not> list_all unlinked retired then Inl LakeIo
      else if list_ex (\<lambda>p. d p = None \<or> p \<in> List.set retired) paths then Inl LakeCorrupt
      else if \<not> orphans_gone then Inl LakeIo
      else Inr \<lparr>lk_db = db\<lparr>db_rows := filter (\<lambda>r. fr_retired r = None) (db_rows db)\<rparr>,
            lk_disk = d |` List.set paths,
            lk_current = \<lparr>sn_generation = db_generation db, sn_projects = grouped_rows live\<rparr>,
            lk_graveyard = []\<rparr>)"

definition empty_lake_db :: lake_db where
  "empty_lake_db = \<lparr>db_generation = 0, db_checkpoint = cursor_new 1 0, db_rows = [],
     db_tables = \<lparr>persons = [], distinct_ids = [], identity_seq = 0, identity_epoch = 0, pending = [], groups = [],
       event_names = [], property_keys = [], property_values = []\<rparr>\<rparr>"

end
