(* ===== verification/Publisher.thy ===== *)
theory Publisher
  imports Lake
begin

text \<open>
  Publication, \<open>src/lake/publisher.rs\<close>: one bounded window of sealed records becomes one transaction on
  \<open>projections.db\<close>, with one new file for each project and day the window touches. \<open>publish_records\<close> is the
  part of \<open>publish_window\<close> after the window has been read; the reading and the reclamation of segments are
  those of \<open>WalReader\<close>.
\<close>

definition max_publication_wal_bytes :: nat where
  "max_publication_wal_bytes = 32 * 1024 * 1024"

datatype publish_error =
    PublishLake lake_error
  | PublishWal wal_error
  | PublishProjection projection_error
  | MissingProjectBinding "128 word"

record published =
  pb_generation :: nat
  pb_checkpoint :: wal_cursor
  pb_events :: nat
  pb_files :: nat
  pb_oldest_event_ms :: "int option"

section \<open>The events of a window\<close>

type_synonym day_partitions = "((string \<times> int) \<times> captured_event list) list"

record window_state =
  ws_tables :: tables
  ws_catalog :: catalog_batch
  ws_partitions :: day_partitions
  ws_seen :: "(string \<times> 128 word) list"
  ws_events :: nat
  ws_oldest :: "int option"

definition window_start :: "tables \<Rightarrow> window_state" where
  "window_start t =
     \<lparr>ws_tables = t, ws_catalog = catalog_batch_default, ws_partitions = [], ws_seen = [], ws_events = 0,
      ws_oldest = None\<rparr>"

text \<open>A project's second event with a uuid is skipped.\<close>

definition window_event ::
    "calendar \<Rightarrow> externals \<Rightarrow> string \<times> captured_event \<Rightarrow> window_state \<Rightarrow> publish_error + window_state" where
  "window_event cal ex pe ws =
     (let (pid, ev) = pe in
      if (pid, uuid ev) \<in> List.set (ws_seen ws) then Inr ws
      else case apply_identity_effects ex pid ev (ws_tables ws) of
        Inl e \<Rightarrow> Inl (PublishProjection e)
      | Inr t \<Rightarrow> Inr (ws\<lparr>ws_tables := t, ws_catalog := batch_add ex pid ev (ws_catalog ws),
            ws_partitions := push_at (pid, date_naive cal (timestamp ev)) ev (ws_partitions ws),
            ws_seen := (pid, uuid ev) # ws_seen ws, ws_events := ws_events ws + 1\<rparr>))"

fun window_events ::
    "calendar \<Rightarrow> externals \<Rightarrow> (string \<times> captured_event) list \<Rightarrow> window_state \<Rightarrow> publish_error + window_state" where
  "window_events cal ex [] ws = Inr ws"
| "window_events cal ex (pe # pes) ws = and_then (window_event cal ex pe ws) (window_events cal ex pes)"

definition note_oldest :: "int \<Rightarrow> int option \<Rightarrow> int option" where
  "note_oldest received oldest =
     (if 0 < received then Some (case oldest of None \<Rightarrow> received | Some v \<Rightarrow> min v received) else oldest)"

fun window_batches ::
    "calendar \<Rightarrow> externals \<Rightarrow> captured_batch list \<Rightarrow> window_state \<Rightarrow> publish_error + window_state" where
  "window_batches cal ex [] ws = Inr ws"
| "window_batches cal ex (b # bs) ws =
     (case project_ids b of
        None \<Rightarrow> Inl (MissingProjectBinding (uuid (hd (events b))))
      | Some pids \<Rightarrow>
          and_then
            (window_events cal ex (zip pids (events b)) (ws\<lparr>ws_oldest := note_oldest (received_at_ms b) (ws_oldest ws)\<rparr>))
            (window_batches cal ex bs))"

section \<open>The files\<close>

definition by_event_and_time :: "captured_event list \<Rightarrow> captured_event list" where
  "by_event_and_time = sort_key (\<lambda>e. (event e, timestamp e))"

text \<open>The result, the paths of the files that were in place before the insertion of their row, and the disk.\<close>

fun write_partitions ::
    "calendar \<Rightarrow> lake_env \<Rightarrow> nat \<Rightarrow> nat \<Rightarrow> day_partitions \<Rightarrow> file_row list \<Rightarrow> disk
     \<Rightarrow> (lake_error + lake_file list \<times> file_row list) \<times> string list \<times> disk" where
  "write_partitions cal env gen i [] frs d = (Inr ([], frs), [], d)"
| "write_partitions cal env gen i (((pid, day), evs) # ps) frs d =
     (let content = by_event_and_time evs; path = file_path cal pid day (published_name gen i) in
      case write_parquet env i path content d of
        (Inl e, d1) \<Rightarrow> (Inl e, [], d1)
      | (Inr _, d1) \<Rightarrow>
          (case insert_file cal env i gen pid day path (length content) (le_size env content) 0 frs of
             Inl e \<Rightarrow> (Inl e, [path], d1)
           | Inr (f, frs1) \<Rightarrow>
               (case write_partitions cal env gen (i + 1) ps frs1 d1 of
                  (Inl e, written, d2) \<Rightarrow> (Inl e, path # written, d2)
                | (Inr (fs, frs2), written, d2) \<Rightarrow> (Inr (f # fs, frs2), path # written, d2))))"

text \<open>\<open>let _ = remove_file(path)\<close> for each path.\<close>

definition remove_files :: "lake_env \<Rightarrow> string list \<Rightarrow> disk \<Rightarrow> disk" where
  "remove_files env paths d =
     fold (\<lambda>(i, p) d. if le_fails env Unlink i then d else d(p := None)) (enumerate 0 paths) d"

section \<open>One publication\<close>

definition commit_publication ::
    "calendar \<Rightarrow> lake_env \<Rightarrow> window_state \<Rightarrow> wal_cursor \<Rightarrow> lake \<Rightarrow> (publish_error + published) \<times> lake" where
  "commit_publication cal env ws next_cursor lk =
     (let gen = db_generation (lk_db lk) + 1 in
      case write_partitions cal env gen 0 (ws_partitions ws) (db_rows (lk_db lk)) (lk_disk lk) of
        (Inl e, written, d1) \<Rightarrow> (Inl (PublishLake e), lk\<lparr>lk_disk := remove_files env written d1\<rparr>)
      | (Inr (added, frs), written, d1) \<Rightarrow>
          (if le_fails env Advance 0 then (Inl (PublishLake LakeDatabase), lk\<lparr>lk_disk := d1\<rparr>)
           else case advance_state (db_generation (lk_db lk)) (Some next_cursor)
               ((lk_db lk)\<lparr>db_rows := frs, db_tables := batch_flush (ws_catalog ws) (ws_tables ws)\<rparr>) of
             Inl e \<Rightarrow> (Inl (PublishLake e), lk\<lparr>lk_disk := d1\<rparr>)
           | Inr db \<Rightarrow>
               (if le_fails env Commit 0 then (Inl (PublishLake LakeDatabase), lk\<lparr>lk_disk := d1\<rparr>)
                else (Inr \<lparr>pb_generation = gen, pb_checkpoint = next_cursor, pb_events = ws_events ws,
                        pb_files = length added, pb_oldest_event_ms = ws_oldest ws\<rparr>,
                      activate gen added [] (lk\<lparr>lk_db := db, lk_disk := d1\<rparr>)))))"

definition publish_records ::
    "calendar \<Rightarrow> externals \<Rightarrow> lake_env \<Rightarrow> captured_batch list \<Rightarrow> wal_cursor \<Rightarrow> lake
     \<Rightarrow> (publish_error + published) \<times> lake" where
  "publish_records cal ex env bs next_cursor lk =
     (if le_fails env Begin 0 then (Inl (PublishLake LakeDatabase), lk)
      else case window_batches cal ex bs (window_start (db_tables (lk_db lk))) of
        Inl e \<Rightarrow> (Inl e, lk)
      | Inr ws \<Rightarrow>
          (if le_fails env Flush 0 then (Inl (PublishProjection Database), lk)
           else commit_publication cal env ws next_cursor lk))"

section \<open>Windows\<close>

text \<open>
  What the log's reader meets: the codec and configuration, the directory at each opening of the window and at
  each record, whether removals and the directory's sync work, and fuel for the records of one window.
\<close>

record wal_env =
  we_codec :: wal_codec
  we_config :: wal_config
  we_opens :: "nat \<Rightarrow> directory"
  we_reads :: "nat \<Rightarrow> directory"
  we_unlinks :: "string \<Rightarrow> bool"
  we_dirsync :: bool
  we_fuel :: nat

definition collect_publication ::
    "wal_env \<Rightarrow> wal_cursor \<Rightarrow> (wal_error + wal_record list \<times> publication_window) option" where
  "collect_publication we c =
     (case read_window (we_codec we) (we_opens we) (we_config we) c max_publication_wal_bytes of
        Inl e \<Rightarrow> Some (Inl e)
      | Inr w \<Rightarrow> window_collect (we_fuel we) (we_codec we) (we_reads we) w)"

text \<open>\<open>publish_window\<close> on the lake and the directory \<open>dir\<close> at the time of the reclamation; no result only
  without fuel.\<close>

definition publish_window ::
    "calendar \<Rightarrow> externals \<Rightarrow> lake_env \<Rightarrow> wal_env \<Rightarrow> lake \<Rightarrow> directory
     \<Rightarrow> ((publish_error + published option) \<times> lake \<times> directory) option" where
  "publish_window cal ex env we lk dir =
     (let c = db_checkpoint (lk_db lk);
          reclaim = (\<lambda>c. reclaim_through (we_unlinks we) (we_dirsync we) (we_codec we) dir (we_config we) c) in
      case collect_publication we c of
        None \<Rightarrow> None
      | Some (Inl e) \<Rightarrow> Some (Inl (PublishWal e), lk, dir)
      | Some (Inr (rs, w)) \<Rightarrow>
          Some (if rs = [] then
             (if checkpoint w = c then (Inr None, lk, dir)
              else case reclaim c of
                (Inl e, dir1) \<Rightarrow> (Inl (PublishWal e), lk, dir1)
              | (Inr _, dir1) \<Rightarrow> (Inr None, lk, dir1))
           else case publish_records cal ex env (map batch rs) (checkpoint w) lk of
             (Inl e, lk1) \<Rightarrow> (Inl e, lk1, dir)
           | (Inr p, lk1) \<Rightarrow>
               (case reclaim (checkpoint w) of
                  (Inl e, dir1) \<Rightarrow> (Inl (PublishWal e), lk1, dir1)
                | (Inr _, dir1) \<Rightarrow> (Inr (Some p), lk1, dir1))))"

section \<open>Several windows\<close>

text \<open>
  Call number \<open>i\<close> meets \<open>envs i\<close>, the log as \<open>wes i\<close> shows it and the directory \<open>dirs i\<close>. The fuel bounds the
  number of windows. An error drops the list of what was published before, as in the code.
\<close>

fun publish_all ::
    "nat \<Rightarrow> calendar \<Rightarrow> externals \<Rightarrow> (nat \<Rightarrow> lake_env) \<Rightarrow> (nat \<Rightarrow> wal_env) \<Rightarrow> (nat \<Rightarrow> directory) \<Rightarrow> lake
     \<Rightarrow> ((publish_error + published list) \<times> lake) option" where
  "publish_all 0 cal ex envs wes dirs lk = None"
| "publish_all (Suc n) cal ex envs wes dirs lk =
     (case publish_window cal ex (envs 0) (wes 0) lk (dirs 0) of
        None \<Rightarrow> None
      | Some (Inl e, lk1, _) \<Rightarrow> Some (Inl e, lk1)
      | Some (Inr None, lk1, _) \<Rightarrow> Some (Inr [], lk1)
      | Some (Inr (Some p), lk1, _) \<Rightarrow>
          (case publish_all n cal ex (\<lambda>i. envs (Suc i)) (\<lambda>i. wes (Suc i)) (\<lambda>i. dirs (Suc i)) lk1 of
             Some (Inr ps, lk2) \<Rightarrow> Some (Inr (p # ps), lk2)
           | other \<Rightarrow> other))"

text \<open>\<open>spent i\<close>: the budget is spent after window \<open>i\<close>.\<close>

fun publish_for ::
    "nat \<Rightarrow> (nat \<Rightarrow> bool) \<Rightarrow> calendar \<Rightarrow> externals \<Rightarrow> (nat \<Rightarrow> lake_env) \<Rightarrow> (nat \<Rightarrow> wal_env) \<Rightarrow> (nat \<Rightarrow> directory) \<Rightarrow> lake
     \<Rightarrow> ((publish_error + published list \<times> bool) \<times> lake) option" where
  "publish_for 0 spent cal ex envs wes dirs lk = None"
| "publish_for (Suc n) spent cal ex envs wes dirs lk =
     (case publish_window cal ex (envs 0) (wes 0) lk (dirs 0) of
        None \<Rightarrow> None
      | Some (Inl e, lk1, _) \<Rightarrow> Some (Inl e, lk1)
      | Some (Inr None, lk1, _) \<Rightarrow> Some (Inr ([], False), lk1)
      | Some (Inr (Some p), lk1, _) \<Rightarrow>
          (if spent 0 then Some (Inr ([p], True), lk1)
           else case publish_for n (\<lambda>i. spent (Suc i)) cal ex (\<lambda>i. envs (Suc i)) (\<lambda>i. wes (Suc i))
               (\<lambda>i. dirs (Suc i)) lk1 of
             Some (Inr (ps, more_waiting), lk2) \<Rightarrow> Some (Inr (p # ps, more_waiting), lk2)
           | other \<Rightarrow> other))"

fun publish_through ::
    "nat \<Rightarrow> nat \<Rightarrow> calendar \<Rightarrow> externals \<Rightarrow> (nat \<Rightarrow> lake_env) \<Rightarrow> (nat \<Rightarrow> wal_env) \<Rightarrow> (nat \<Rightarrow> directory) \<Rightarrow> lake
     \<Rightarrow> ((publish_error + published list) \<times> lake) option" where
  "publish_through 0 s cal ex envs wes dirs lk = None"
| "publish_through (Suc n) s cal ex envs wes dirs lk =
     (if s < segment (db_checkpoint (lk_db lk)) then Some (Inr [], lk)
      else case publish_window cal ex (envs 0) (wes 0) lk (dirs 0) of
        None \<Rightarrow> None
      | Some (Inl e, lk1, _) \<Rightarrow> Some (Inl e, lk1)
      | Some (Inr None, lk1, _) \<Rightarrow> Some (Inr [], lk1)
      | Some (Inr (Some p), lk1, _) \<Rightarrow>
          (case publish_through n s cal ex (\<lambda>i. envs (Suc i)) (\<lambda>i. wes (Suc i)) (\<lambda>i. dirs (Suc i)) lk1 of
             Some (Inr ps, lk2) \<Rightarrow> Some (Inr (p # ps), lk2)
           | other \<Rightarrow> other))"

end
