(* ===== verification/Compactor.thy ===== *)
theory Compactor
  imports Publisher
begin

text \<open>
  The compactor, \<open>src/lake/compactor.rs\<close>: merging the small files of a partition into one without retry
  duplicates, retention, and the rewriting of files for an erasure. DuckDB is the parameter \<open>duck\<close>: what
  \<open>QUALIFY row_number() OVER (PARTITION BY uuid ORDER BY timestamp) = 1 ORDER BY event, timestamp\<close> returns for
  rows, of which \<open>keeps_first_copies\<close> states what the code relies on. It runs on the publisher's thread, so its
  steps do not interleave with publications.
\<close>

definition active_partition_merge_threshold :: nat where
  "active_partition_merge_threshold = 12"

definition small_file_bytes :: nat where
  "small_file_bytes = 64 * 1024 * 1024"

definition max_merge_files :: nat where
  "max_merge_files = 64"

definition max_merge_bytes :: nat where
  "max_merge_bytes = 1024 * 1024 * 1024"

type_synonym duck = "captured_event list \<Rightarrow> captured_event list"

definition keeps_first_copies :: "duck \<Rightarrow> bool" where
  "keeps_first_copies duck \<longleftrightarrow>
     (\<forall>rows. distinct (map uuid (duck rows)) \<and> set (duck rows) \<subseteq> set rows \<and> uuid ` set (duck rows) = uuid ` set rows
       \<and> (\<forall>e \<in> set (duck rows). \<forall>e' \<in> set rows. uuid e' = uuid e \<longrightarrow> timestamp e \<le> timestamp e'))"

section \<open>Choosing the work\<close>

fun within_bytes :: "nat \<Rightarrow> lake_file list \<Rightarrow> lake_file list" where
  "within_bytes bytes [] = []"
| "within_bytes bytes (f # fs) =
     (let b = sat_add u64_max bytes (lf_bytes f) in
      if b \<le> max_merge_bytes then f # within_bytes b fs else [])"

definition merge_inputs :: "partition \<Rightarrow> int \<Rightarrow> lake_file list" where
  "merge_inputs p today =
     (let small = filter (\<lambda>f. lf_bytes f < small_file_bytes) (pt_files p);
          fresh = length (filter (\<lambda>f. lf_level f = 0) small);
          due = (if today \<le> pt_day p then active_partition_merge_threshold \<le> fresh
                 else 1 \<le> fresh \<and> 2 \<le> length small) in
      if due then take max_merge_files (within_bytes 0 (sort_key lf_id small)) else [])"

text \<open>\<open>max_by_key\<close>: the last of the greatest.\<close>

fun last_max_by :: "('a \<Rightarrow> nat) \<Rightarrow> 'a list \<Rightarrow> 'a option" where
  "last_max_by f [] = None"
| "last_max_by f (x # xs) =
     (case last_max_by f xs of None \<Rightarrow> Some x | Some y \<Rightarrow> Some (if f x \<le> f y then y else x))"

definition next_merge :: "lake \<Rightarrow> int \<Rightarrow> (partition \<times> lake_file list) option" where
  "next_merge lk today =
     last_max_by (\<lambda>(_, inputs). length inputs)
       (filter (\<lambda>(_, inputs). 2 \<le> length inputs) (map (\<lambda>p. (p, merge_inputs p today)) (partitions lk)))"

section \<open>Rewriting files\<close>

definition read_sources :: "disk \<Rightarrow> lake_file list \<Rightarrow> captured_event list option" where
  "read_sources d fs = map_option concat (those (map (\<lambda>f. d (lf_path f)) fs))"

text \<open>The directory, \<open>COPY\<close> of the selected rows into the temporary file, its sync, the rename.\<close>

definition copy_rows ::
    "lake_env \<Rightarrow> nat \<Rightarrow> string \<Rightarrow> captured_event list option \<Rightarrow> disk \<Rightarrow> (lake_error + captured_event list) \<times> disk" where
  "copy_rows env i path selected d =
     (if le_fails env Dir i then (Inl LakeIo, d)
      else case selected of
        None \<Rightarrow> (Inl LakeCorrupt, d)
      | Some rows \<Rightarrow>
          (if le_fails env Query i then (Inl LakeCorrupt, d(temporary path := le_leftover env i))
           else case write_parquet env i path rows d of
             (Inl e, d1) \<Rightarrow> (Inl e, d1)
           | (Inr _, d1) \<Rightarrow> (Inr rows, d1)))"

text \<open>The transaction that replaces the files \<open>ids\<close> by at most one new file.\<close>

definition commit_swap ::
    "calendar \<Rightarrow> lake_env \<Rightarrow> nat \<Rightarrow> nat \<Rightarrow> string \<Rightarrow> int \<Rightarrow> string \<Rightarrow> captured_event list option \<Rightarrow> nat list \<Rightarrow> lake_db
     \<Rightarrow> lake_error + lake_file list \<times> lake_db" where
  "commit_swap cal env i gen pid day path content ids db =
     (if le_fails env Begin i then Inl LakeDatabase
      else if db_generation db + 1 \<noteq> gen then Inl LakeCorrupt
      else
        and_then
          (case content of
             None \<Rightarrow> Inr ([], db_rows db)
           | Some rows \<Rightarrow>
               and_then (insert_file cal env i gen pid day path (length rows) (le_size env rows) 1 (db_rows db))
                 (\<lambda>(f, frs). Inr ([f], frs)))
          (\<lambda>(added, frs).
        and_then (if le_fails env Retire i then Inl LakeDatabase else retire ids gen frs) (\<lambda>frs1.
        if le_fails env Advance i then Inl LakeDatabase
        else and_then (advance_state (db_generation db) None (db\<lparr>db_rows := frs1\<rparr>)) (\<lambda>db1.
          if le_fails env Commit i then Inl LakeDatabase else Inr (added, db1)))))"

record compacted =
  co_project :: string
  co_day :: int
  co_input_files :: nat
  co_input_rows :: nat
  co_output_rows :: nat

definition unlink_file :: "lake_env \<Rightarrow> nat \<Rightarrow> string \<Rightarrow> disk \<Rightarrow> disk" where
  "unlink_file env i path d = (if le_fails env Unlink i then d else d(path := None))"

definition merge_files ::
    "calendar \<Rightarrow> lake_env \<Rightarrow> duck \<Rightarrow> partition \<Rightarrow> lake_file list \<Rightarrow> lake \<Rightarrow> (lake_error + compacted) \<times> lake" where
  "merge_files cal env duck p inputs lk =
     (let gen = sn_generation (lk_current lk) + 1;
          path = file_path cal (pt_project p) (pt_day p) (compacted_name gen);
          ids = remdups (map lf_id inputs) in
      case copy_rows env 0 path (map_option duck (read_sources (lk_disk lk) inputs)) (lk_disk lk) of
        (Inl e, d1) \<Rightarrow> (Inl e, lk\<lparr>lk_disk := d1\<rparr>)
      | (Inr rows, d1) \<Rightarrow>
          (case commit_swap cal env 0 gen (pt_project p) (pt_day p) path (Some rows) ids (lk_db lk) of
             Inl e \<Rightarrow> (Inl e, lk\<lparr>lk_disk := unlink_file env 0 path d1\<rparr>)
           | Inr (added, db) \<Rightarrow>
               (Inr \<lparr>co_project = pt_project p, co_day = pt_day p, co_input_files = length inputs,
                   co_input_rows = sum_list (map lf_rows inputs), co_output_rows = length rows\<rparr>,
                activate gen added ids (lk\<lparr>lk_db := db, lk_disk := d1\<rparr>))))"

section \<open>Retention\<close>

definition enforce_retention :: "calendar \<Rightarrow> lake_env \<Rightarrow> nat \<Rightarrow> int \<Rightarrow> lake \<Rightarrow> (lake_error + nat) \<times> lake" where
  "enforce_retention cal env days today lk =
     (let cutoff = today - int days;
          retired = remdups (map lf_id (concat (map pt_files (filter (\<lambda>p. pt_day p < cutoff) (partitions lk)))));
          gen = db_generation (lk_db lk) + 1 in
      if retired = [] then (Inr 0, lk)
      else case commit_swap cal env 0 gen [] 0 [] None retired (lk_db lk) of
        Inl e \<Rightarrow> (Inl e, lk)
      | Inr (added, db) \<Rightarrow> (Inr (length retired), activate gen added retired (lk\<lparr>lk_db := db\<rparr>)))"

text \<open>One unit of work: retention first, else the widest merge. \<open>env'\<close> is what the merge meets.\<close>

definition compactor_step ::
    "calendar \<Rightarrow> lake_env \<Rightarrow> lake_env \<Rightarrow> duck \<Rightarrow> nat option \<Rightarrow> int \<Rightarrow> lake \<Rightarrow> (lake_error + compacted option) \<times> lake" where
  "compactor_step cal env env' duck retention_days today lk =
     (case (case retention_days of None \<Rightarrow> (Inr 0, lk) | Some days \<Rightarrow> enforce_retention cal env days today lk) of
        (Inl e, lk1) \<Rightarrow> (Inl e, lk1)
      | (Inr n, lk1) \<Rightarrow>
          (if 0 < n then (Inr None, lk1)
           else case next_merge lk1 today of
             None \<Rightarrow> (Inr None, lk1)
           | Some (p, inputs) \<Rightarrow>
               (case merge_files cal env' duck p inputs lk1 of
                  (Inl e, lk2) \<Rightarrow> (Inl e, lk2)
                | (Inr c, lk2) \<Rightarrow> (Inr (Some c), lk2))))"

section \<open>Erasure\<close>

definition of_ids :: "string list \<Rightarrow> captured_event \<Rightarrow> bool" where
  "of_ids ids e \<longleftrightarrow> distinct_id e \<in> set ids"

definition erase_partition ::
    "calendar \<Rightarrow> lake_env \<Rightarrow> duck \<Rightarrow> string \<Rightarrow> string list \<Rightarrow> nat \<Rightarrow> partition \<Rightarrow> lake \<Rightarrow> (lake_error + nat) \<times> lake" where
  "erase_partition cal env duck pid ids i p lk =
     (case (if le_fails env Matching i then None else read_sources (lk_disk lk) (pt_files p)) of
        None \<Rightarrow> (Inl LakeCorrupt, lk)
      | Some rows \<Rightarrow>
          (let matching = length (filter (of_ids ids) rows);
               gen = sn_generation (lk_current lk) + 1;
               path = file_path cal pid (pt_day p) (erased_name gen);
               retired = remdups (map lf_id (pt_files p)) in
           if matching = 0 then (Inr 0, lk)
           else case copy_rows env i path (Some (duck (filter (\<lambda>e. \<not> of_ids ids e) rows))) (lk_disk lk) of
             (Inl e, d1) \<Rightarrow> (Inl e, lk\<lparr>lk_disk := d1\<rparr>)
           | (Inr kept, d1) \<Rightarrow>
               (case commit_swap cal env i gen pid (pt_day p) path (if kept = [] then None else Some kept) retired
                   (lk_db lk) of
                  Inl e \<Rightarrow> (Inl e, lk\<lparr>lk_disk := d1\<rparr>)
                | Inr (added, db) \<Rightarrow>
                    (Inr matching,
                     activate gen added retired
                       (lk\<lparr>lk_db := db, lk_disk := (if added = [] then unlink_file env i path d1 else d1)\<rparr>)))))"

fun erase_partitions ::
    "calendar \<Rightarrow> lake_env \<Rightarrow> duck \<Rightarrow> string \<Rightarrow> string list \<Rightarrow> nat \<Rightarrow> partition list \<Rightarrow> lake \<Rightarrow> (lake_error + nat) \<times> lake" where
  "erase_partitions cal env duck pid ids i [] lk = (Inr 0, lk)"
| "erase_partitions cal env duck pid ids i (p # ps) lk =
     (case erase_partition cal env duck pid ids i p lk of
        (Inl e, lk1) \<Rightarrow> (Inl e, lk1)
      | (Inr n, lk1) \<Rightarrow>
          (case erase_partitions cal env duck pid ids (i + 1) ps lk1 of
             (Inl e, lk2) \<Rightarrow> (Inl e, lk2)
           | (Inr m, lk2) \<Rightarrow> (Inr (n + m), lk2)))"

definition erase_events ::
    "calendar \<Rightarrow> lake_env \<Rightarrow> duck \<Rightarrow> string \<Rightarrow> string list \<Rightarrow> lake \<Rightarrow> (lake_error + nat) \<times> lake" where
  "erase_events cal env duck pid ids lk =
     (if ids = [] then (Inr 0, lk)
      else erase_partitions cal env duck pid ids 0 (filter (\<lambda>p. pt_project p = pid) (partitions lk)) lk)"

end
