(* ===== verification/LakeCorrect.thy ===== *)
theory LakeCorrect
  imports Lake
begin

text \<open>
  The invariant of the lake (\<open>lake_inv\<close>): snapshot, catalogue and disk agree, file names carry the
  generation that wrote them, retired files wait in the graveyard. \<open>part_files\<close> and \<open>part_events\<close> are what a
  query sees of one project and day. Each operation of \<open>Lake\<close> keeps the invariant, and its effect is stated
  on \<open>part_files\<close>.
\<close>

section \<open>Ordered maps of lists\<close>

definition ordered_keys :: "('k :: linorder \<times> 'v) list \<Rightarrow> bool" where
  "ordered_keys m \<longleftrightarrow> sorted_wrt (<) (map fst m)"

lemma ordered_keys_simps [simp]:
  "ordered_keys []" "ordered_keys (e # m) \<longleftrightarrow> (\<forall>k \<in> fst ` set m. fst e < k) \<and> ordered_keys m"
  by (auto simp: ordered_keys_def)

lemma listed_simps [simp]:
  "listed [] k = []" "listed ((k', vs) # m) k = (if k = k' then vs else listed m k)"
  by (simp_all add: listed_def)

lemma listed_absent: "k \<notin> fst ` set m \<Longrightarrow> listed m k = []"
  by (simp add: listed_def map_of_eq_None_iff [THEN iffD2])

lemma listed_below: "\<forall>e \<in> set m. k' < fst e \<Longrightarrow> k \<le> k' \<Longrightarrow> listed m k = []" for k :: "'k :: linorder"
  by (rule listed_absent) force

lemma push_at_keys: "fst ` set (push_at k v m) = insert k (fst ` set m)"
  by (induction m rule: push_at.induct [of _ _ v for v]) auto

lemma push_at_ordered: "ordered_keys m \<Longrightarrow> ordered_keys (push_at k v m)"
  by (induction k v m rule: push_at.induct) (auto simp: push_at_keys)

lemma listed_push_at:
  "ordered_keys m \<Longrightarrow> listed (push_at k v m) k' = listed m k' @ (if k' = k then [v] else [])"
  by (induction k v m rule: push_at.induct) (auto simp: listed_below)

lemma add_files_ordered: "ordered_keys days \<Longrightarrow> ordered_keys (add_files fs days)"
  by (induction fs arbitrary: days) (simp_all add: add_files_def push_at_ordered)

lemma listed_add_files:
  "ordered_keys days \<Longrightarrow> listed (add_files fs days) d = listed days d @ filter (\<lambda>f. lf_day f = d) fs"
proof (induction fs arbitrary: days)
  case (Cons f fs)
  have "add_files (f # fs) days = add_files fs (push_at (lf_day f) f days)" by (simp add: add_files_def)
  then show ?case using Cons by (auto simp: push_at_ordered listed_push_at)
qed (simp add: add_files_def)

lemma kept_days_keys: "fst ` set (kept_days R days) \<subseteq> fst ` set days"
  by (force simp: kept_days_def)

lemma kept_days_Cons:
  "kept_days R ((d, fs) # days) =
     (let ks = filter (\<lambda>f. lf_id f \<notin> set R) fs in if ks = [] then kept_days R days else (d, ks) # kept_days R days)"
  by (simp add: kept_days_def Let_def)

lemma kept_days_ordered: "ordered_keys days \<Longrightarrow> ordered_keys (kept_days R days)"
proof (induction days)
  case (Cons e days)
  obtain d fs where e: "e = (d, fs)" by fastforce
  have "\<forall>k \<in> fst ` set (kept_days R days). d < k" 
  proof -
    have "\<forall>k \<in> fst ` set days. d < k" using Cons.prems by (simp add: e)
    then show ?thesis using kept_days_keys [of R days] by blast
  qed
  then show ?case using Cons by (simp add: e kept_days_Cons Let_def)
qed (simp add: kept_days_def)

lemma listed_kept_days:
  "ordered_keys days \<Longrightarrow> listed (kept_days R days) d = filter (\<lambda>f. lf_id f \<notin> set R) (listed days d)"
proof (induction days)
  case (Cons e days)
  obtain d' fs where e: "e = (d', fs)" by fastforce
  have "d' \<notin> fst ` set days" using Cons.prems e by auto
  then have "d' \<notin> fst ` set (kept_days R days)" using kept_days_keys by blast
  then show ?case using Cons e by (auto simp: kept_days_Cons Let_def listed_absent)
qed (simp add: kept_days_def)

lemma in_all_days:
  assumes "ordered_keys m"
  shows "x \<in> set (concat (map snd m)) \<longleftrightarrow> (\<exists>k. x \<in> set (listed m k))"
  using assms
proof (induction m)
  case (Cons e m)
  obtain k vs where e: "e = (k, vs)" by fastforce
  have "k \<notin> fst ` set m" using Cons.prems e by auto
  then have "listed m k = []" by (rule listed_absent)
  then show ?case using Cons by (auto simp: e) (metis empty_iff empty_set)+
qed simp

lemma listed_of_member:
  assumes "ordered_keys m" and "(k, vs) \<in> set m"
  shows "listed m k = vs"
proof -
  have "distinct (map fst m)"
    using assms(1) strict_sorted_iff by (auto simp: ordered_keys_def)
  then show ?thesis using assms(2) by (simp add: listed_def)
qed

section \<open>What a query sees\<close>

definition snapshot_ok :: "snapshot \<Rightarrow> bool" where
  "snapshot_ok sn \<longleftrightarrow> distinct (map fst (sn_projects sn)) \<and> (\<forall>p \<in> snd ` set (sn_projects sn). ordered_keys (fs_days p))"

definition part_files :: "lake \<Rightarrow> string \<Rightarrow> int \<Rightarrow> lake_file list" where
  "part_files lk pid d = listed (fs_days (files_of (lk_current lk) pid)) d"

text \<open>The content of a file, nothing when it is not there.\<close>

definition file_events :: "disk \<Rightarrow> lake_file \<Rightarrow> captured_event list" where
  "file_events dk f = (case dk (lf_path f) of None \<Rightarrow> [] | Some evs \<Rightarrow> evs)"

definition part_events :: "lake \<Rightarrow> string \<Rightarrow> int \<Rightarrow> captured_event list" where
  "part_events lk pid d = concat (map (file_events (lk_disk lk)) (part_files lk pid d))"

lemma files_of_ordered: "snapshot_ok sn \<Longrightarrow> ordered_keys (fs_days (files_of sn pid))"
  by (auto simp: snapshot_ok_def files_of_def empty_files_def split: option.splits dest!: map_of_SomeD)

lemma in_all_files: "snapshot_ok (lk_current lk)
    \<Longrightarrow> f \<in> set (all_files (files_of (lk_current lk) pid)) \<longleftrightarrow> (\<exists>d. f \<in> set (part_files lk pid d))"
  unfolding all_files_def part_files_def by (rule in_all_days [OF files_of_ordered])

lemma lease_one_day: "snapshot_ok (lk_current lk) \<Longrightarrow> ls_files (lake_lease lk pid d (d + 1)) = part_files lk pid d"
proof -
  have "ordered_keys m \<Longrightarrow> concat (map snd (filter (\<lambda>(k, _). d \<le> k \<and> k < d + 1) m)) = listed m d"
    for m :: "(int \<times> lake_file list) list"
  proof (induction m)
    case (Cons e m)
    obtain k fs where e: "e = (k, fs)" by fastforce
    have rest: "concat (map snd (filter (\<lambda>(k, _). d \<le> k \<and> k < d + 1) m)) = listed m d"
      using Cons by simp
    show ?case
    proof (cases "k = d")
      case True
      then have "listed m d = []" using Cons.prems listed_below [of m k d] by (simp add: e)
      with rest True show ?thesis by (simp add: e)
    next
      case False
      then have "\<not> (d \<le> k \<and> k \<le> d)" by linarith
      with rest False show ?thesis by (auto simp: e)
    qed
  qed simp
  then show "snapshot_ok (lk_current lk) \<Longrightarrow> ls_files (lake_lease lk pid d (d + 1)) = part_files lk pid d"
    by (simp add: lake_lease_def part_files_def Let_def files_of_ordered)
qed

lemma lease_in_parts:
  assumes "snapshot_ok (lk_current lk)" and "f \<in> set (ls_files (lake_lease lk pid a b))"
  shows "\<exists>d. f \<in> set (part_files lk pid d)"
proof -
  have "f \<in> set (all_files (files_of (lk_current lk) pid))"
    using assms(2) unfolding lake_lease_def Let_def all_files_def lease.simps set_concat set_map set_filter by blast
  then show ?thesis by (simp add: in_all_files [OF assms(1)])
qed

section \<open>Installing a generation\<close>

lemma map_of_kept: "map_of (filter (\<lambda>(_, p). P p) (map (\<lambda>x. (x, g x)) xs)) k
    = (if k \<in> set xs \<and> P (g k) then Some (g k) else None)"
  by (induction xs) auto

lemma activate_days:
  "fs_days (files_of (lk_current (activate gen added R lk)) pid) =
     (if pid \<in> set (touched_projects added R (lk_current lk))
      then add_files (filter (\<lambda>f. lf_project f = pid) added) (kept_days R (fs_days (files_of (lk_current lk) pid)))
      else fs_days (files_of (lk_current lk) pid))"
proof -
  let ?sn = "lk_current lk"
  let ?g = "\<lambda>pid. if pid \<in> set (touched_projects added R ?sn) then rebuilt gen added R (files_of ?sn pid) pid
    else files_of ?sn pid"
  let ?L = "remdups (map fst (sn_projects ?sn) @ touched_projects added R ?sn)"
  have "fs_days (files_of (lk_current (activate gen added R lk)) pid) = (if pid \<in> set ?L then fs_days (?g pid) else [])"
    by (simp add: activate_def Let_def files_of_def [of "\<lparr>sn_generation = _, sn_projects = _\<rparr>"] map_of_kept
        empty_files_def del: set_remdups remdups.simps)
  moreover have "pid \<notin> set (map fst (sn_projects ?sn)) \<Longrightarrow> fs_days (files_of ?sn pid) = []"
    by (simp add: files_of_def empty_files_def map_of_eq_None_iff [THEN iffD2])
  ultimately show ?thesis by (auto simp: rebuilt_def)
qed

lemma untouched:
  assumes "snapshot_ok (lk_current lk)" and "pid \<notin> set (touched_projects added R (lk_current lk))"
  shows "filter (\<lambda>f. lf_project f = pid \<and> Q f) added = []" and "f \<in> set (part_files lk pid d) \<Longrightarrow> lf_id f \<notin> set R"
proof -
  show "filter (\<lambda>f. lf_project f = pid \<and> Q f) added = []"
    using assms(2) by (auto simp: touched_projects_def filter_empty_conv)
  assume f: "f \<in> set (part_files lk pid d)"
  then obtain p where p: "map_of (sn_projects (lk_current lk)) pid = Some p"
    by (auto simp: part_files_def files_of_def empty_files_def split: option.splits)
  have "f \<in> set (all_files p)"
    using in_all_files [OF assms(1), of f pid] f p by (auto simp: files_of_def)
  then show "lf_id f \<notin> set R"
    using assms(2) map_of_SomeD [OF p] by (auto simp: touched_projects_def list_ex_iff image_iff)
qed

lemma activate_parts:
  assumes "snapshot_ok (lk_current lk)"
  shows "part_files (activate gen added R lk) pid d =
    filter (\<lambda>f. lf_id f \<notin> set R) (part_files lk pid d) @ filter (\<lambda>f. lf_project f = pid \<and> lf_day f = d) added"
proof (cases "pid \<in> set (touched_projects added R (lk_current lk))")
  case True
  then show ?thesis
    using files_of_ordered [OF assms, of pid]
    by (simp add: part_files_def activate_days listed_add_files kept_days_ordered listed_kept_days conj_commute)
next
  case False
  then have "filter (\<lambda>f. lf_id f \<notin> set R) (part_files lk pid d) = part_files lk pid d"
    using untouched(2) [OF assms False] by (auto intro!: filter_True)
  then show ?thesis
    using False untouched(1) [OF assms False] by (simp add: part_files_def activate_days)
qed

lemma activate_snapshot_ok:
  assumes "snapshot_ok (lk_current lk)"
  shows "snapshot_ok (lk_current (activate gen added R lk))"
proof -
  let ?sn = "lk_current (activate gen added R lk)"
  have distinct: "distinct (map fst (sn_projects ?sn))"
    by (simp add: activate_def Let_def distinct_map_filter comp_def)
  have "ordered_keys (fs_days p)" if p: "(pid, p) \<in> set (sn_projects ?sn)" for pid p
  proof -
    have "files_of ?sn pid = p" using distinct p by (simp add: files_of_def)
    then show ?thesis
      using activate_days [of gen added R lk pid] files_of_ordered [OF assms, of pid]
      by (auto simp: add_files_ordered kept_days_ordered split: if_splits)
  qed
  with distinct show ?thesis by (auto simp: snapshot_ok_def)
qed

lemma activate_graveyard:
  assumes "snapshot_ok (lk_current lk)"
  shows "set (lk_graveyard (activate gen added R lk)) =
    set (lk_graveyard lk) \<union> {f. lf_id f \<in> set R \<and> (\<exists>pid d. f \<in> set (part_files lk pid d))}"
proof -
  have "lf_id f \<in> set R \<Longrightarrow> f \<in> set (part_files lk pid d) \<Longrightarrow> pid \<in> set (touched_projects added R (lk_current lk))" for f pid d
    using untouched(2) [OF assms] by blast
  then have "{f. lf_id f \<in> set R \<and> (\<exists>pid d. f \<in> set (part_files lk pid d))} =
      {f. lf_id f \<in> set R \<and> (\<exists>pid \<in> set (touched_projects added R (lk_current lk)). \<exists>d. f \<in> set (part_files lk pid d))}"
    by blast
  then show ?thesis
    using in_all_files [OF assms] by (auto simp: activate_def Let_def)
qed

lemma activate_simps [simp]:
  "lk_db (activate gen added R lk) = lk_db lk" "lk_disk (activate gen added R lk) = lk_disk lk"
  "sn_generation (lk_current (activate gen added R lk)) = gen"
  by (simp_all add: activate_def Let_def)

section \<open>Names\<close>

text \<open>The last component of a path, and the numbers in it.\<close>

definition path_name :: "string \<Rightarrow> string" where
  "path_name p = rev (takeWhile (\<lambda>c. c \<noteq> CHR ''/'') (rev p))"

definition path_generation :: "string \<Rightarrow> nat" where
  "path_generation p = digits_value (takeWhile is_digit (tl (path_name p)))"

definition path_index :: "string \<Rightarrow> nat" where
  "path_index p = digits_value (takeWhile is_digit (tl (dropWhile is_digit (tl (path_name p)))))"

lemma is_digit_consts [simp]:
  "\<not> is_digit (CHR ''.'')" "\<not> is_digit (CHR ''-'')" "\<not> is_digit (CHR ''/'')" "is_digit (CHR ''0'')"
  by (simp_all add: is_digit_def code_def)

lemma pad_digits: "list_all is_digit (pad k n)"
  by (simp add: pad_def decimal_digits list_all_iff [of _ "replicate _ _"])

lemma pad_value: "digits_value (pad k n) = n"
  by (simp add: pad_def digits_value_zeros)

lemma digits_then:
  assumes "list_all is_digit ds" and "\<not> is_digit c"
  shows "takeWhile is_digit (ds @ c # rest) = ds" "dropWhile is_digit (ds @ c # rest) = c # rest"
  using assms by (induction ds) auto

lemma pad_no_slash: "CHR ''/'' \<notin> set (pad k n)"
  using pad_digits [of k n] by (auto simp: list_all_iff)

lemma path_name_file:
  assumes "CHR ''/'' \<notin> set name"
  shows "path_name (file_path cal pid day name) = name"
proof -
  have "takeWhile (\<lambda>c. c \<noteq> CHR ''/'') (rev name @ CHR ''/'' # rest) = rev name" for rest
    using assms by (subst takeWhile_append2) auto
  then show ?thesis by (simp add: path_name_def file_path_def)
qed

lemma published_path:
  "path_generation (file_path cal pid day (published_name gen i)) = gen"
  "path_index (file_path cal pid day (published_name gen i)) = i"
  "last (file_path cal pid day (published_name gen i)) = CHR ''t''"
proof -
  have name: "path_name (file_path cal pid day (published_name gen i)) = published_name gen i"
    by (rule path_name_file) (simp add: published_name_def pad_no_slash)
  note split = digits_then [OF pad_digits, of "CHR ''-''" 12 gen] digits_then [OF pad_digits, of "CHR ''.''" 4 i]
  show "path_generation (file_path cal pid day (published_name gen i)) = gen"
    by (simp add: path_generation_def name) (simp add: published_name_def split pad_value)
  show "path_index (file_path cal pid day (published_name gen i)) = i"
    by (simp add: path_index_def name) (simp add: published_name_def split pad_value)
  show "last (file_path cal pid day (published_name gen i)) = CHR ''t''"
    by (simp add: file_path_def published_name_def)
qed

lemma merged_path:
  assumes "name = compacted_name gen \<or> name = erased_name gen"
  shows "path_generation (file_path cal pid day name) = gen" "last (file_path cal pid day name) = CHR ''t''"
proof -
  have "CHR ''/'' \<notin> set name" using assms by (auto simp: compacted_name_def erased_name_def pad_no_slash)
  then have name: "path_name (file_path cal pid day name) = name" by (rule path_name_file)
  show "path_generation (file_path cal pid day name) = gen"
    unfolding path_generation_def name
    using assms digits_then [OF pad_digits, of "CHR ''.''" 12 gen]
    by (auto simp: compacted_name_def erased_name_def pad_value)
  show "last (file_path cal pid day name) = CHR ''t''"
    using assms by (auto simp: file_path_def compacted_name_def erased_name_def)
qed

lemma last_temporary: "last (temporary path) = CHR ''p''"
  by (simp add: temporary_def)

section \<open>Rows\<close>

text \<open>\<open>rows_ok n\<close>: ids and paths are distinct, names carry the generation, none above \<open>n\<close>.\<close>

definition rows_ok :: "nat \<Rightarrow> file_row list \<Rightarrow> bool" where
  "rows_ok n frs \<longleftrightarrow> distinct (map (lf_id \<circ> fr_file) frs) \<and> distinct (map (lf_path \<circ> fr_file) frs)
     \<and> (\<forall>r \<in> set frs. path_generation (lf_path (fr_file r)) \<le> n \<and> last (lf_path (fr_file r)) = CHR ''t'')"

definition live_files :: "file_row list \<Rightarrow> lake_file list" where
  "live_files frs = map fr_file (filter (\<lambda>r. fr_retired r = None) frs)"

definition retired_files :: "file_row list \<Rightarrow> lake_file list" where
  "retired_files frs = map fr_file (filter (\<lambda>r. fr_retired r \<noteq> None) frs)"

lemma next_id_fresh: "r \<in> set frs \<Longrightarrow> lf_id (fr_file r) < next_id frs"
  unfolding next_id_def by (induction frs) (auto simp: less_max_iff_disj less_Suc_eq_le)

lemma insert_file_ok:
  assumes "insert_file cal env i gen pid day path rows bytes level frs = Inr (f, frs1)"
  shows "f = \<lparr>lf_id = next_id frs, lf_project = pid, lf_day = day, lf_path = path, lf_rows = rows,
      lf_bytes = bytes, lf_level = level, lf_created_at = le_now env\<rparr>"
    and "frs1 = frs @ [\<lparr>fr_file = f, fr_created = gen, fr_retired = None\<rparr>]"
    and "path \<notin> set (map (lf_path \<circ> fr_file) frs)"
  using assms by (auto simp: insert_file_def Let_def list_ex_iff split: if_splits)

lemma insert_file_rows_ok:
  assumes "insert_file cal env i gen pid day path rows bytes level frs = Inr (f, frs1)" and "rows_ok n frs"
    and "path_generation path \<le> m" and "n \<le> m" and "last path = CHR ''t''"
  shows "rows_ok m frs1"
proof -
  note r = insert_file_ok [OF assms(1)]
  have "next_id frs \<notin> set (map (lf_id \<circ> fr_file) frs)" using next_id_fresh by fastforce
  then show ?thesis
    using assms(2-5) r(3) unfolding r(2) rows_ok_def by (auto simp: r(1))
qed

lemma rows_ok_mono: "rows_ok n frs \<Longrightarrow> n \<le> m \<Longrightarrow> rows_ok m frs"
  by (fastforce simp: rows_ok_def)

lemma rows_ok_filter: "rows_ok n frs \<Longrightarrow> rows_ok n (filter P frs)"
  by (simp add: rows_ok_def distinct_map_filter)

lemma live_files_append [simp]: "live_files (frs @ gs) = live_files frs @ live_files gs"
  by (simp add: live_files_def)

lemma retired_files_append [simp]: "retired_files (frs @ gs) = retired_files frs @ retired_files gs"
  by (simp add: retired_files_def)

definition retired_by :: "nat \<Rightarrow> nat list \<Rightarrow> file_row \<Rightarrow> file_row" where
  "retired_by gen ids r =
     (if lf_id (fr_file r) \<in> set ids \<and> fr_retired r = None then r\<lparr>fr_retired := Some gen\<rparr> else r)"

lemma retired_by_simps [simp]:
  "fr_file (retired_by gen ids r) = fr_file r" "fr_created (retired_by gen ids r) = fr_created r"
  by (simp_all add: retired_by_def)

lemma retire_ok: "retire ids gen frs = Inr frs1 \<Longrightarrow> frs1 = map (retired_by gen ids) frs"
proof (induction ids gen frs rule: retire.induct)
  case (1 gen frs)
  then show ?case by (simp add: retired_by_def map_idI)
next
  case (2 i ids gen frs)
  then have "frs1 = map (retired_by gen ids) (map (\<lambda>r. if lf_id (fr_file r) = i \<and> fr_retired r = None
      then r\<lparr>fr_retired := Some gen\<rparr> else r) frs)"
    by (simp split: if_splits)
  then show ?case by (auto simp: retired_by_def)
qed

lemma retired_by_live:
  "fr_retired (retired_by gen ids r) = None \<longleftrightarrow> fr_retired r = None \<and> lf_id (fr_file r) \<notin> set ids"
  by (auto simp: retired_by_def)

lemma live_files_retired: "live_files (map (retired_by gen ids) frs) = filter (\<lambda>f. lf_id f \<notin> set ids) (live_files frs)"
  by (induction frs) (auto simp: live_files_def retired_by_live)

lemma retired_files_retired:
  "set (retired_files (map (retired_by gen ids) frs)) =
     set (retired_files frs) \<union> {f \<in> set (live_files frs). lf_id f \<in> set ids}"
  by (induction frs) (auto simp: retired_files_def live_files_def retired_by_live retired_by_def)

lemma rows_ok_retired: "rows_ok n frs \<Longrightarrow> rows_ok n (map (retired_by gen ids) frs)"
  by (simp add: rows_ok_def comp_def)

section \<open>The invariant\<close>

definition lake_inv :: "lake \<Rightarrow> bool" where
  "lake_inv lk \<longleftrightarrow>
     (let frs = db_rows (lk_db lk) in
      snapshot_ok (lk_current lk) \<and> sn_generation (lk_current lk) = db_generation (lk_db lk)
      \<and> rows_ok (db_generation (lk_db lk)) frs
      \<and> (\<forall>pid d. distinct (part_files lk pid d)
           \<and> set (part_files lk pid d) = {f \<in> set (live_files frs). lf_project f = pid \<and> lf_day f = d})
      \<and> set (lk_graveyard lk) \<subseteq> set (retired_files frs)
      \<and> (\<forall>f \<in> set (live_files frs) \<union> set (lk_graveyard lk). lk_disk lk (lf_path f) \<noteq> None))"

lemma lake_invD:
  assumes "lake_inv lk"
  shows "snapshot_ok (lk_current lk)" "sn_generation (lk_current lk) = db_generation (lk_db lk)"
    "rows_ok (db_generation (lk_db lk)) (db_rows (lk_db lk))"
    "distinct (part_files lk pid d)"
    "set (part_files lk pid d) = {f \<in> set (live_files (db_rows (lk_db lk))). lf_project f = pid \<and> lf_day f = d}"
    "set (lk_graveyard lk) \<subseteq> set (retired_files (db_rows (lk_db lk)))"
    "f \<in> set (live_files (db_rows (lk_db lk))) \<Longrightarrow> lk_disk lk (lf_path f) \<noteq> None"
    "f \<in> set (lk_graveyard lk) \<Longrightarrow> lk_disk lk (lf_path f) \<noteq> None"
  using assms unfolding lake_inv_def Let_def by blast+

text \<open>The disk keeps every file that a row names.\<close>

definition same_files :: "lake \<Rightarrow> disk \<Rightarrow> bool" where
  "same_files lk d \<longleftrightarrow> (\<forall>r \<in> set (db_rows (lk_db lk)). d (lf_path (fr_file r)) = lk_disk lk (lf_path (fr_file r)))"

lemma same_files_refl [simp]: "same_files lk (lk_disk lk)"
  by (simp add: same_files_def)

lemma same_files_live: "same_files lk d \<Longrightarrow> f \<in> set (live_files (db_rows (lk_db lk))) \<Longrightarrow> d (lf_path f) = lk_disk lk (lf_path f)"
  by (auto simp: same_files_def live_files_def)

lemma same_files_retired: "same_files lk d \<Longrightarrow> f \<in> set (retired_files (db_rows (lk_db lk))) \<Longrightarrow> d (lf_path f) = lk_disk lk (lf_path f)"
  by (auto simp: same_files_def retired_files_def)

text \<open>
  What leases rely on: no file of the snapshot or the graveyard leaves both, and its content stays.
  \<open>safe_step\<close> is what every operation but the sweep guarantees.
\<close>

definition reachable_files :: "lake \<Rightarrow> lake_file set" where
  "reachable_files lk = set (live_files (db_rows (lk_db lk))) \<union> set (lk_graveyard lk)"

definition safe_step :: "lake \<Rightarrow> lake \<Rightarrow> bool" where
  "safe_step lk lk' \<longleftrightarrow> lake_inv lk' \<and>
     (\<forall>f \<in> reachable_files lk. f \<in> reachable_files lk' \<and> lk_disk lk' (lf_path f) = lk_disk lk (lf_path f))"

lemma safe_step_inv: "safe_step lk lk' \<Longrightarrow> lake_inv lk'"
  by (simp add: safe_step_def)

lemma safe_step_refl [simp]: "lake_inv lk \<Longrightarrow> safe_step lk lk"
  by (simp add: safe_step_def)

lemma safe_step_trans: "safe_step lk lk1 \<Longrightarrow> safe_step lk1 lk2 \<Longrightarrow> safe_step lk lk2"
  by (auto simp: safe_step_def)

lemma same_files_reachable:
  assumes "lake_inv lk" and "same_files lk d" and "f \<in> reachable_files lk"
  shows "d (lf_path f) = lk_disk lk (lf_path f)"
  using assms(3) lake_invD(6) [OF assms(1)] same_files_live [OF assms(2)] same_files_retired [OF assms(2)]
  unfolding reachable_files_def by blast

lemma disk_frame:
  assumes "lake_inv lk" and "same_files lk d"
  shows "safe_step lk (lk\<lparr>lk_disk := d\<rparr>)" and "part_files (lk\<lparr>lk_disk := d\<rparr>) pid day = part_files lk pid day"
    and "part_events (lk\<lparr>lk_disk := d\<rparr>) pid day = part_events lk pid day"
proof -
  note inv = lake_invD [OF assms(1)]
  have parts: "part_files (lk\<lparr>lk_disk := d\<rparr>) pid day = part_files lk pid day" for pid day
    by (simp add: part_files_def)
  then show "part_files (lk\<lparr>lk_disk := d\<rparr>) pid day = part_files lk pid day" .
  have "d (lf_path f) = lk_disk lk (lf_path f)" if "f \<in> set (lk_graveyard lk)" for f
    using that inv(6) same_files_retired [OF assms(2)] by blast
  then have "lake_inv (lk\<lparr>lk_disk := d\<rparr>)"
    using assms(1) same_files_live [OF assms(2)] unfolding lake_inv_def Let_def by (auto simp: parts)
  then show "safe_step lk (lk\<lparr>lk_disk := d\<rparr>)"
    using same_files_reachable [OF assms] by (simp add: safe_step_def reachable_files_def)
  have "file_events d f = file_events (lk_disk lk) f" if "f \<in> set (part_files lk pid day)" for f
    using that inv(5) [of pid day] same_files_live [OF assms(2)] by (simp add: file_events_def)
  then have "map (file_events d) (part_files lk pid day) = map (file_events (lk_disk lk)) (part_files lk pid day)"
    by (rule map_cong [OF refl])
  then show "part_events (lk\<lparr>lk_disk := d\<rparr>) pid day = part_events lk pid day"
    by (simp add: part_events_def parts del: map_eq_conv)
qed

text \<open>A committed transaction that adds some files and retires others.\<close>

definition commits :: "lake \<Rightarrow> lake_file list \<Rightarrow> nat list \<Rightarrow> lake_db \<Rightarrow> disk \<Rightarrow> bool" where
  "commits lk added R db d \<longleftrightarrow>
     db_generation db = db_generation (lk_db lk) + 1 \<and> rows_ok (db_generation db) (db_rows db)
     \<and> live_files (db_rows db) = filter (\<lambda>f. lf_id f \<notin> set R) (live_files (db_rows (lk_db lk))) @ added
     \<and> set (retired_files (db_rows db)) =
         set (retired_files (db_rows (lk_db lk))) \<union> {f \<in> set (live_files (db_rows (lk_db lk))). lf_id f \<in> set R}
     \<and> same_files lk d \<and> (\<forall>f \<in> set added. d (lf_path f) \<noteq> None)"

lemma rows_distinct_live: "rows_ok n frs \<Longrightarrow> distinct (live_files frs)"
proof -
  assume "rows_ok n frs"
  then have "distinct (map lf_id (live_files frs))" by (auto simp: rows_ok_def live_files_def distinct_map_filter)
  then show ?thesis by (simp add: distinct_map)
qed

lemma commit_parts:
  assumes inv: "lake_inv lk" and c: "commits lk added R db d"
  shows "safe_step lk (activate (db_generation db) added R (lk\<lparr>lk_db := db, lk_disk := d\<rparr>))"
    and "part_files (activate (db_generation db) added R (lk\<lparr>lk_db := db, lk_disk := d\<rparr>)) pid day =
      filter (\<lambda>f. lf_id f \<notin> set R) (part_files lk pid day) @ filter (\<lambda>f. lf_project f = pid \<and> lf_day f = day) added"
proof -
  let ?lk = "lk\<lparr>lk_db := db, lk_disk := d\<rparr>"
  let ?lk' = "activate (db_generation db) added R ?lk"
  let ?live = "set (live_files (db_rows (lk_db lk)))"
  note inv' = lake_invD [OF inv]
  note c' = c [unfolded commits_def]
  have ok: "snapshot_ok (lk_current ?lk)" using inv'(1) by simp
  have old: "part_files ?lk pid day = part_files lk pid day" for pid day by (simp add: part_files_def)
  have parts: "part_files ?lk' pid day = filter (\<lambda>f. lf_id f \<notin> set R) (part_files lk pid day)
      @ filter (\<lambda>f. lf_project f = pid \<and> lf_day f = day) added" for pid day
    using activate_parts [OF ok, of "db_generation db" added R pid day] by (simp only: old)
  then show "part_files ?lk' pid day = filter (\<lambda>f. lf_id f \<notin> set R) (part_files lk pid day)
      @ filter (\<lambda>f. lf_project f = pid \<and> lf_day f = day) added" .
  have "distinct (live_files (db_rows db))" using c' rows_distinct_live by blast
  then have added: "distinct added" "set added \<inter> (?live - {f. lf_id f \<in> set R}) = {}" using c' by auto
  have "distinct (part_files ?lk' pid day)" for pid day
    unfolding parts using added inv'(4,5) [of pid day] by auto
  moreover have "set (part_files ?lk' pid day) =
      {f \<in> set (live_files (db_rows db)). lf_project f = pid \<and> lf_day f = day}" for pid day
    unfolding parts using c' inv'(5) [of pid day] by auto
  moreover have grave: "set (lk_graveyard ?lk') = set (lk_graveyard lk) \<union> {f \<in> ?live. lf_id f \<in> set R}"
  proof -
    have "{f. lf_id f \<in> set R \<and> (\<exists>pid d. f \<in> set (part_files lk pid d))} = {f \<in> ?live. lf_id f \<in> set R}"
      using inv'(5) by auto
    then show ?thesis using activate_graveyard [OF ok, of "db_generation db" added R] by (simp only: old) simp
  qed
  moreover have "d (lf_path f) \<noteq> None" if "f \<in> set (live_files (db_rows db)) \<union> set (lk_graveyard ?lk')" for f
  proof -
    have "f \<in> ?live \<or> f \<in> set added \<or> f \<in> set (lk_graveyard lk)" using that c' grave by auto
    then show ?thesis
      using c' same_files_live [of lk d f] same_files_retired [of lk d f] inv'(6) inv'(7,8) [of f] by auto
  qed
  ultimately have "lake_inv ?lk'"
    using c' inv'(6) activate_snapshot_ok [OF ok, of "db_generation db" added R]
    unfolding lake_inv_def Let_def activate_simps by auto
  moreover have "f \<in> reachable_files ?lk' \<and> lk_disk ?lk' (lf_path f) = lk_disk lk (lf_path f)"
    if "f \<in> reachable_files lk" for f
  proof -
    have "f \<in> reachable_files ?lk'" using that c' grave by (auto simp: reachable_files_def)
    moreover have "d (lf_path f) = lk_disk lk (lf_path f)" using same_files_reachable [OF inv _ that] c' by blast
    ultimately show ?thesis by simp
  qed
  ultimately show "safe_step lk ?lk'" by (simp add: safe_step_def)
qed

section \<open>Writing\<close>

lemma write_parquet_other:
  assumes "write_parquet env i path rows d = (res, d1)" and "p \<noteq> path" and "last p = CHR ''t''"
  shows "d1 p = d p"
  using assms last_temporary [of path] by (auto simp: write_parquet_def split: if_splits)

lemma write_parquet_done: "write_parquet env i path rows d = (Inr u, d1) \<Longrightarrow> d1 path = Some rows"
  by (auto simp: write_parquet_def split: if_splits)

lemma new_path:
  assumes "rows_ok n frs" and "n < path_generation path" and "r \<in> set frs"
  shows "lf_path (fr_file r) \<noteq> path"
  using assms by (auto simp: rows_ok_def)

lemma write_parquet_same:
  assumes "write_parquet env i path rows (lk_disk lk) = (res, d1)" and "lake_inv lk"
    and "path_generation path = db_generation (lk_db lk) + 1"
  shows "same_files lk d1"
proof -
  note rows = lake_invD(3) [OF assms(2)]
  show ?thesis
    unfolding same_files_def
    using write_parquet_other [OF assms(1)] new_path [OF rows, of path] rows assms(3) by (auto simp: rows_ok_def)
qed

end
