(* ===== verification/PublisherCorrect.thy ===== *)
theory PublisherCorrect
  imports Publisher LakeCorrect
begin

text \<open>
  What one publication does. The reference for the window is a list: the window's events with their projects,
  the first one of each project and uuid (\<open>first_by\<close>), applied to the tables one after the other. The files
  of the new generation hold exactly those events, each in the file of its project and day.
\<close>

section \<open>The reference\<close>

fun first_by :: "('a \<Rightarrow> 'k) \<Rightarrow> 'a list \<Rightarrow> 'a list" where
  "first_by key [] = []"
| "first_by key (x # xs) = x # filter (\<lambda>y. key y \<noteq> key x) (first_by key xs)"

definition event_key :: "string \<times> captured_event \<Rightarrow> string \<times> 128 word" where
  "event_key pe = (fst pe, uuid (snd pe))"

fun bound_events :: "captured_batch list \<Rightarrow> (string \<times> captured_event) list option" where
  "bound_events [] = Some []"
| "bound_events (b # bs) =
     (case project_ids b of None \<Rightarrow> None
      | Some pids \<Rightarrow> map_option (\<lambda>rest. zip pids (events b) @ rest) (bound_events bs))"

definition event_day :: "calendar \<Rightarrow> string \<times> captured_event \<Rightarrow> string \<times> int" where
  "event_day cal pe = (fst pe, date_naive cal (timestamp (snd pe)))"

lemma first_by_unseen:
  "filter (\<lambda>y. key y \<notin> S) (first_by key (x # xs)) =
     (if key x \<in> S then filter (\<lambda>y. key y \<notin> S) (first_by key xs)
      else x # filter (\<lambda>y. key y \<notin> insert (key x) S) (first_by key xs))"
  by (auto simp: filter_filter conj_commute intro!: filter_cong)

lemma first_by_distinct: "distinct (map key (first_by key xs))"
proof (induction xs)
  case (Cons x xs)
  then show ?case by (auto simp: distinct_map_filter)
qed simp

lemma first_by_keys: "key ` set (first_by key xs) = key ` set xs"
proof (induction xs)
  case (Cons x xs)
  have "key ` set (first_by key (x # xs)) = insert (key x) (key ` set (first_by key xs))" by auto
  then show ?case using Cons by simp
qed simp

section \<open>The window\<close>

definition take_in :: "calendar \<Rightarrow> string \<times> captured_event \<Rightarrow> day_partitions \<Rightarrow> day_partitions" where
  "take_in cal pe m = push_at (event_day cal pe) (snd pe) m"

lemma window_events_reference:
  assumes "window_events cal ex pes ws = Inr ws'"
  shows "let new = filter (\<lambda>pe. event_key pe \<notin> set (ws_seen ws)) (first_by event_key pes) in
    apply_events ex new (ws_tables ws) = Inr (ws_tables ws')
    \<and> ws_catalog ws' = fold (\<lambda>(p, e). batch_add ex p e) new (ws_catalog ws)
    \<and> ws_partitions ws' = fold (take_in cal) new (ws_partitions ws)
    \<and> set (ws_seen ws') = set (ws_seen ws) \<union> event_key ` set pes
    \<and> ws_events ws' = ws_events ws + length new \<and> ws_oldest ws' = ws_oldest ws"
  using assms
proof (induction pes arbitrary: ws)
  case (Cons pe pes)
  obtain p e where pe: "pe = (p, e)" by fastforce
  show ?case
  proof (cases "event_key pe \<in> set (ws_seen ws)")
    case True
    then have "window_event cal ex pe ws = Inr ws" by (simp add: window_event_def pe event_key_def)
    then have "window_events cal ex pes ws = Inr ws'" using Cons.prems by simp
    then show ?thesis using Cons.IH [of ws] True by (auto simp: first_by_unseen Let_def simp del: first_by.simps)
  next
    case False
    then obtain t where t: "apply_identity_effects ex p e (ws_tables ws) = Inr t"
      using Cons.prems by (auto simp: window_event_def pe event_key_def split: sum.splits)
    let ?ws = "ws\<lparr>ws_tables := t, ws_catalog := batch_add ex p e (ws_catalog ws),
      ws_partitions := take_in cal pe (ws_partitions ws), ws_seen := event_key pe # ws_seen ws,
      ws_events := ws_events ws + 1\<rparr>"
    have "window_event cal ex pe ws = Inr ?ws"
      using False t by (simp add: window_event_def pe event_key_def take_in_def event_day_def)
    then have "window_events cal ex pes ?ws = Inr ws'" using Cons.prems by simp
    from Cons.IH [OF this] False t show ?thesis
      by (simp add: first_by_unseen Let_def pe insert_commute del: first_by.simps)
  qed
qed simp

lemma filter_first_by_append:
  "first_by key (xs @ ys) = first_by key xs @ filter (\<lambda>y. key y \<notin> key ` set xs) (first_by key ys)"
  by (induction xs) (auto simp: conj_commute intro!: filter_cong)

lemma apply_events_append:
  "apply_events ex (xs @ ys) t = and_then (apply_events ex xs t) (apply_events ex ys)"
proof (induction ex xs t rule: apply_events.induct)
  case (2 ex pr ev evs t)
  then show ?case by (cases "apply_identity_effects ex pr ev t") simp_all
qed simp

lemma window_batches_reference:
  assumes "window_batches cal ex bs ws = Inr ws'"
  shows "\<exists>pes. bound_events bs = Some pes \<and>
    (let new = filter (\<lambda>pe. event_key pe \<notin> set (ws_seen ws)) (first_by event_key pes) in
     apply_events ex new (ws_tables ws) = Inr (ws_tables ws')
     \<and> ws_catalog ws' = fold (\<lambda>(p, e). batch_add ex p e) new (ws_catalog ws)
     \<and> ws_partitions ws' = fold (take_in cal) new (ws_partitions ws)
     \<and> ws_events ws' = ws_events ws + length new)"
  using assms
proof (induction bs arbitrary: ws)
  case (Cons b bs)
  obtain pids where pids: "project_ids b = Some pids" using Cons.prems by (auto split: option.splits)
  let ?ws = "ws\<lparr>ws_oldest := note_oldest (received_at_ms b) (ws_oldest ws)\<rparr>"
  let ?xs = "zip pids (events b)"
  obtain ws1 where ws1: "window_events cal ex ?xs ?ws = Inr ws1" "window_batches cal ex bs ws1 = Inr ws'"
    using Cons.prems by (auto simp: pids result_simps)
  obtain pes where pes: "bound_events bs = Some pes"
    and rest: "let new = filter (\<lambda>pe. event_key pe \<notin> set (ws_seen ws1)) (first_by event_key pes) in
     apply_events ex new (ws_tables ws1) = Inr (ws_tables ws')
     \<and> ws_catalog ws' = fold (\<lambda>(p, e). batch_add ex p e) new (ws_catalog ws1)
     \<and> ws_partitions ws' = fold (take_in cal) new (ws_partitions ws1)
     \<and> ws_events ws' = ws_events ws1 + length new"
    using Cons.IH [OF ws1(2)] by blast
  let ?new1 = "filter (\<lambda>pe. event_key pe \<notin> set (ws_seen ws)) (first_by event_key ?xs)"
  let ?new2 = "filter (\<lambda>pe. event_key pe \<notin> set (ws_seen ws1)) (first_by event_key pes)"
  note one = window_events_reference [OF ws1(1), unfolded Let_def, simplified]
  have "filter (\<lambda>pe. event_key pe \<notin> set (ws_seen ws)) (first_by event_key (?xs @ pes)) = ?new1 @ ?new2"
    using one by (auto simp: filter_first_by_append intro!: filter_cong)
  moreover have "bound_events (b # bs) = Some (?xs @ pes)" by (simp add: pids pes)
  ultimately show ?case
    using one rest by (simp add: Let_def apply_events_append)
qed simp

lemma window_batches_start:
  assumes "window_batches cal ex bs (window_start t) = Inr ws"
  shows "\<exists>pes. bound_events bs = Some pes \<and>
    (let evs = first_by event_key pes in
     apply_events ex evs t = Inr (ws_tables ws) \<and> ws_catalog ws = batch_add_all ex evs
     \<and> ws_partitions ws = fold (take_in cal) evs [] \<and> ws_events ws = length evs)"
  using window_batches_reference [OF assms] by (simp add: window_start_def batch_add_all_def)

lemma take_in_partitions:
  "ordered_keys m \<Longrightarrow> ordered_keys (fold (take_in cal) evs m)
    \<and> listed (fold (take_in cal) evs m) k = listed m k @ map snd (filter (\<lambda>pe. event_day cal pe = k) evs)"
proof (induction evs arbitrary: m)
  case (Cons pe evs)
  have "ordered_keys (take_in cal pe m)" using Cons.prems by (simp add: take_in_def push_at_ordered)
  from Cons.IH [OF this] show ?case by (auto simp: take_in_def listed_push_at [OF Cons.prems])
qed simp

section \<open>The files\<close>

definition file_for :: "disk \<Rightarrow> lake_file \<Rightarrow> (string \<times> int) \<times> captured_event list \<Rightarrow> bool" where
  "file_for d f part \<longleftrightarrow> (lf_project f, lf_day f) = fst part \<and> d (lf_path f) = Some (by_event_and_time (snd part))
     \<and> lf_rows f = length (snd part) \<and> lf_level f = 0"

lemma write_partitions_fresh:
  assumes "write_partitions cal env gen i ps frs d = (res, written, d1)" and "rows_ok gen frs"
    and "\<And>r. r \<in> set frs \<Longrightarrow> path_generation (lf_path (fr_file r)) = gen \<Longrightarrow> path_index (lf_path (fr_file r)) < i"
  shows "(\<forall>r \<in> set frs. d1 (lf_path (fr_file r)) = d (lf_path (fr_file r)))
    \<and> (\<forall>p \<in> set written. path_generation p = gen)
    \<and> (\<forall>fs frs1. res = Inr (fs, frs1) \<longrightarrow> rows_ok gen frs1 \<and> list_all2 (file_for d1) fs ps
         \<and> frs1 = frs @ map (\<lambda>f. \<lparr>fr_file = f, fr_created = gen, fr_retired = None\<rparr>) fs)"
  using assms
proof (induction cal env gen i ps frs d arbitrary: res written d1 rule: write_partitions.induct)
  case (1 cal env gen i frs d)
  then show ?case by auto
next
  case (2 cal env gen i pid day evs ps frs d)
  let ?content = "by_event_and_time evs"
  let ?path = "file_path cal pid day (published_name gen i)"
  obtain r1 dw where w: "write_parquet env i ?path ?content d = (r1, dw)" by fastforce
  have path: "lf_path (fr_file r) \<noteq> ?path" "last (lf_path (fr_file r)) = CHR ''t''" if "r \<in> set frs" for r
  proof -
    show "last (lf_path (fr_file r)) = CHR ''t''" using that 2(3) by (simp add: rows_ok_def)
    show "lf_path (fr_file r) \<noteq> ?path" using 2(4) [OF that] published_path(1,2) [of cal pid day gen i] by auto
  qed
  then have kept: "dw (lf_path (fr_file r)) = d (lf_path (fr_file r))" if "r \<in> set frs" for r
    using write_parquet_other [OF w] that by blast
  show ?case
  proof (cases r1)
    case (Inl e)
    then show ?thesis using 2(2) w kept by (auto simp: Let_def)
  next
    case (Inr u)
    note wrote = write_parquet_done [OF w [unfolded Inr]]
    show ?thesis
    proof (cases "insert_file cal env i gen pid day ?path (length ?content) (le_size env ?content) 0 frs")
      case (Inl e)
      then show ?thesis using 2(2) w Inr kept by (auto simp: Let_def published_path)
    next
      case ins: (Inr ff)
      obtain f frs1 where ff: "ff = (f, frs1)" by fastforce
      note f = insert_file_ok [OF ins [unfolded ff]]
      obtain r2 written2 d2 where rest: "write_partitions cal env gen (i + 1) ps frs1 dw = (r2, written2, d2)"
        by (metis prod_cases3)
      have ok: "rows_ok gen frs1"
        by (rule insert_file_rows_ok [OF ins [unfolded ff] 2(3)]) (simp_all add: published_path)
      have index: "path_index (lf_path (fr_file r)) < i + 1"
        if "r \<in> set frs1" "path_generation (lf_path (fr_file r)) = gen" for r
      proof (cases "r \<in> set frs")
        case True
        then show ?thesis using 2(4) that(2) by fastforce
      next
        case False
        then have "lf_path (fr_file r) = ?path" using that(1) by (simp add: f(1,2))
        then show ?thesis by (simp only: published_path(2))
      qed
      note IH = 2(1) [OF refl refl w [symmetric, unfolded Inr] refl ins [unfolded ff] refl rest ok index, unfolded f(2)]
      have d2: "d2 (lf_path f) = Some ?content" using IH wrote by (simp add: f(1))
      show ?thesis
      proof (cases r2)
        case (Inl e)
        then show ?thesis using 2(2) w Inr ins ff rest IH kept by (auto simp: Let_def published_path)
      next
        case r2: (Inr fsf)
        obtain fs frs2 where fsf: "fsf = (fs, frs2)" by fastforce
        have res: "res = Inr (f # fs, frs2)" "written = ?path # written2" "d1 = d2"
          using 2(2) w Inr ins ff rest r2 fsf by (auto simp: Let_def)
        have "file_for d2 f ((pid, day), evs)"
          using d2 by (simp add: file_for_def f(1) by_event_and_time_def)
        then show ?thesis using IH kept res r2 fsf by (auto simp: published_path)
      qed
    qed
  qed
qed

lemma remove_files_other: "p \<notin> set paths \<Longrightarrow> remove_files env paths d p = d p"
proof -
  have "p \<notin> snd ` set ips \<Longrightarrow> fold (\<lambda>(i, p) d. if le_fails env Unlink i then d else d(p := None)) ips d p = d p" for ips
    by (induction ips arbitrary: d) auto
  from this [of "enumerate 0 paths"] show "p \<notin> set paths \<Longrightarrow> remove_files env paths d p = d p"
    by (simp add: remove_files_def flip: set_map)
qed

lemma files_of_partition:
  assumes "list_all2 (file_for d) fs ps" and "ordered_keys ps"
  shows "concat (map (file_events d) (filter (\<lambda>f. lf_project f = pid \<and> lf_day f = day) fs)) =
    by_event_and_time (listed ps (pid, day))"
  using assms
proof (induction rule: list_all2_induct)
  case Nil
  then show ?case by (simp add: by_event_and_time_def)
next
  case (Cons f fs part ps)
  obtain k evs where part: "part = (k, evs)" by fastforce
  have IH: "concat (map (file_events d) (filter (\<lambda>f. lf_project f = pid \<and> lf_day f = day) fs)) =
      by_event_and_time (listed ps (pid, day))"
    using Cons by simp
  show ?case
  proof (cases "k = (pid, day)")
    case True
    then have "listed ps (pid, day) = []" using Cons.prems by (intro listed_below [of _ k]) (auto simp: part)
    then show ?thesis
      using IH True Cons.hyps(1) by (auto simp: part file_for_def file_events_def by_event_and_time_def)
  next
    case False
    then have "\<not> (lf_project f = pid \<and> lf_day f = day)" using Cons.hyps(1) by (auto simp: part file_for_def)
    then show ?thesis using IH False by (auto simp: part)
  qed
qed

section \<open>The transaction\<close>

lemma live_files_new: "live_files (map (\<lambda>f. \<lparr>fr_file = f, fr_created = gen, fr_retired = None\<rparr>) fs) = fs"
  by (induction fs) (simp_all add: live_files_def)

lemma retired_files_new: "retired_files (map (\<lambda>f. \<lparr>fr_file = f, fr_created = gen, fr_retired = None\<rparr>) fs) = []"
  by (induction fs) (simp_all add: retired_files_def)

lemma list_all2_first: "list_all2 P xs ys \<Longrightarrow> x \<in> set xs \<Longrightarrow> \<exists>y \<in> set ys. P x y"
  by (metis in_set_conv_nth list_all2_conv_all_nth nth_mem)

text \<open>What a failed publication leaves behind is not in the catalogue.\<close>

lemma commit_publication_outcome:
  assumes inv: "lake_inv lk" and step: "commit_publication cal env ws c lk = (res, lk')"
    and parts: "ordered_keys (ws_partitions ws)"
  shows "safe_step lk lk' \<and>
    (case res of
       Inl e \<Rightarrow> lk' = lk\<lparr>lk_disk := lk_disk lk'\<rparr> \<and> same_files lk (lk_disk lk')
     | Inr p \<Rightarrow>
         lk_db lk' = (lk_db lk)\<lparr>db_rows := db_rows (lk_db lk'),
           db_tables := batch_flush (ws_catalog ws) (ws_tables ws),
           db_generation := db_generation (lk_db lk) + 1, db_checkpoint := c\<rparr>
         \<and> pb_generation p = db_generation (lk_db lk) + 1 \<and> pb_checkpoint p = c \<and> pb_events p = ws_events ws
         \<and> (\<forall>pid day. part_events lk' pid day = part_events lk pid day
              @ by_event_and_time (listed (ws_partitions ws) (pid, day))))"
proof -
  let ?gen = "db_generation (lk_db lk) + 1"
  note inv' = lake_invD [OF inv]
  obtain r written d1 where w: "write_partitions cal env ?gen 0 (ws_partitions ws) (db_rows (lk_db lk)) (lk_disk lk)
      = (r, written, d1)" by (metis prod_cases3)
  have older: "path_generation (lf_path (fr_file r)) \<noteq> ?gen" if "r \<in> set (db_rows (lk_db lk))" for r
    using that inv'(3) by (auto simp: rows_ok_def)
  have ok: "rows_ok ?gen (db_rows (lk_db lk))" by (rule rows_ok_mono [OF inv'(3)]) simp
  have index: "path_index (lf_path (fr_file r)) < 0"
    if "r \<in> set (db_rows (lk_db lk))" "path_generation (lf_path (fr_file r)) = ?gen" for r
    using older [OF that(1)] that(2) by contradiction
  note fresh = write_partitions_fresh [OF w ok index]
  have same: "same_files lk d1" using fresh by (simp add: same_files_def)
  have aborted: "safe_step lk (lk\<lparr>lk_disk := d\<rparr>) \<and> lk\<lparr>lk_disk := d\<rparr> = lk\<lparr>lk_disk := lk_disk (lk\<lparr>lk_disk := d\<rparr>)\<rparr>
      \<and> same_files lk (lk_disk (lk\<lparr>lk_disk := d\<rparr>))" if "same_files lk d" for d
    using disk_frame(1) [OF inv that] that by simp
  show ?thesis
  proof (cases r)
    case (Inl e)
    have "lf_path (fr_file r) \<notin> set written" if "r \<in> set (db_rows (lk_db lk))" for r
      using fresh older [OF that] by blast
    then have "same_files lk (remove_files env written d1)"
      using same by (simp add: same_files_def remove_files_other)
    then show ?thesis using aborted step w Inl by (auto simp: commit_publication_def Let_def)
  next
    case r: (Inr af)
    obtain added frs where af: "af = (added, frs)" by fastforce
    note new = fresh [unfolded r af, simplified]
    let ?db = "(lk_db lk)\<lparr>db_rows := frs, db_tables := batch_flush (ws_catalog ws) (ws_tables ws),
      db_generation := ?gen, db_checkpoint := c\<rparr>"
    show ?thesis
    proof (cases "le_fails env Advance 0 \<or> le_fails env Commit 0")
      case True
      then show ?thesis
        using aborted [OF same] step w r af
        by (auto simp: commit_publication_def Let_def advance_state_def split: if_splits)
    next
      case False
      have finished: "lk' = activate (db_generation ?db) added [] (lk\<lparr>lk_db := ?db, lk_disk := d1\<rparr>)"
        "res = Inr \<lparr>pb_generation = ?gen, pb_checkpoint = c, pb_events = ws_events ws,
           pb_files = length added, pb_oldest_event_ms = ws_oldest ws\<rparr>"
        using False step w r af by (auto simp: commit_publication_def Let_def advance_state_def)
      have "d1 (lf_path f) \<noteq> None" if "f \<in> set added" for f
        using new list_all2_first [OF _ that] by (force simp: file_for_def)
      then have commits: "commits lk added [] ?db d1"
        using new same by (auto simp: commits_def live_files_new retired_files_new)
      have "part_events lk' pid day = part_events lk pid day
          @ by_event_and_time (listed (ws_partitions ws) (pid, day))" for pid day
      proof -
        have "lk_disk lk' = d1" by (simp add: finished(1))
        moreover have "part_files lk' pid day =
            part_files lk pid day @ filter (\<lambda>f. lf_project f = pid \<and> lf_day f = day) added"
          using commit_parts(2) [OF inv commits, of pid day] by (simp add: finished(1))
        moreover have "concat (map (file_events d1) (part_files lk pid day)) = part_events lk pid day"
          using disk_frame(2,3) [OF inv same, of pid day] by (simp add: part_events_def)
        ultimately show ?thesis
          using files_of_partition [OF _ parts, of d1 added pid day] new by (simp add: part_events_def)
      qed
      then show ?thesis using commit_parts(1) [OF inv commits] by (simp add: finished(1) finished(2))
    qed
  qed
qed

lemma publish_records_outcome:
  assumes inv: "lake_inv lk" and step: "publish_records cal ex env bs c lk = (res, lk')"
  shows "safe_step lk lk' \<and>
    (case res of
       Inl e \<Rightarrow> lk' = lk\<lparr>lk_disk := lk_disk lk'\<rparr> \<and> same_files lk (lk_disk lk')
     | Inr p \<Rightarrow> \<exists>pes t. bound_events bs = Some pes
         \<and> apply_events ex (first_by event_key pes) (db_tables (lk_db lk)) = Inr t
         \<and> lk_db lk' = (lk_db lk)\<lparr>db_rows := db_rows (lk_db lk'),
             db_tables := batch_flush (batch_add_all ex (first_by event_key pes)) t,
             db_generation := db_generation (lk_db lk) + 1, db_checkpoint := c\<rparr>
         \<and> pb_events p = length (first_by event_key pes)
         \<and> (\<forall>pid day. part_events lk' pid day = part_events lk pid day
              @ by_event_and_time (map snd (filter (\<lambda>pe. event_day cal pe = (pid, day)) (first_by event_key pes)))))"
proof -
  have aborted: ?thesis if "\<exists>e. Inl e = res \<and> lk = lk'"
    using that safe_step_refl [OF inv] by auto
  show ?thesis
  proof (cases "le_fails env Begin 0")
    case True
    then show ?thesis using step by (intro aborted) (auto simp: publish_records_def)
  next
    case begun: False
    show ?thesis
    proof (cases "window_batches cal ex bs (window_start (db_tables (lk_db lk)))")
      case (Inl e)
      then show ?thesis using step begun by (intro aborted) (auto simp: publish_records_def)
    next
      case (Inr ws)
      show ?thesis
      proof (cases "le_fails env Flush 0")
        case True
        then show ?thesis using step begun Inr by (intro aborted) (auto simp: publish_records_def)
      next
        case False
        then have c: "commit_publication cal env ws c lk = (res, lk')"
          using step begun Inr by (simp add: publish_records_def)
        obtain pes where pes: "bound_events bs = Some pes"
          "apply_events ex (first_by event_key pes) (db_tables (lk_db lk)) = Inr (ws_tables ws)"
          "ws_catalog ws = batch_add_all ex (first_by event_key pes)"
          "ws_partitions ws = fold (take_in cal) (first_by event_key pes) []"
          "ws_events ws = length (first_by event_key pes)"
          using window_batches_start [OF Inr] by (auto simp: Let_def)
        have parts: "ordered_keys (ws_partitions ws)"
          "listed (ws_partitions ws) k = map snd (filter (\<lambda>pe. event_day cal pe = k) (first_by event_key pes))" for k
          using take_in_partitions [of "[]" cal "first_by event_key pes" k] by (simp_all add: pes(4))
        show ?thesis
          using commit_publication_outcome [OF inv c parts(1)] pes by (cases res) (auto simp: parts(2) [unfolded pes(4)])
      qed
    qed
  qed
qed

section \<open>When nothing fails\<close>

definition no_failure :: "lake_env \<Rightarrow> bool" where
  "no_failure env \<longleftrightarrow> (\<forall>st i. \<not> le_fails env st i)"

definition publishable :: "calendar \<Rightarrow> string \<times> captured_event \<Rightarrow> bool" where
  "publishable cal pe \<longleftrightarrow> trim (fst pe) \<noteq> [] \<and> length (day_text cal (date_naive cal (timestamp (snd pe)))) = 10"

lemma window_events_ok:
  assumes "json_ok ex" and "tables_inv ex (ws_tables ws)" and "\<forall>pe \<in> set pes. publishable cal pe"
  shows "\<exists>ws'. window_events cal ex pes ws = Inr ws' \<and> tables_inv ex (ws_tables ws')"
  using assms(2,3)
proof (induction pes arbitrary: ws)
  case (Cons pe pes)
  obtain p e where pe: "pe = (p, e)" by fastforce
  have "\<exists>ws1. window_event cal ex pe ws = Inr ws1 \<and> tables_inv ex (ws_tables ws1)"
  proof (cases "event_key pe \<in> set (ws_seen ws)")
    case True
    then show ?thesis using Cons.prems(1) by (simp add: window_event_def pe event_key_def)
  next
    case False
    obtain t where t: "apply_identity ex p e (ws_tables ws) = Inr t" "tables_inv ex t"
      using apply_identity_ok [OF Cons.prems(1) assms(1)] by metis
    then show ?thesis
      using False Cons.prems(2) by (auto simp: window_event_def pe event_key_def apply_identity_effects_def publishable_def)
  qed
  then obtain ws1 where ws1: "window_event cal ex pe ws = Inr ws1" "tables_inv ex (ws_tables ws1)" by blast
  then show ?case using Cons.IH [OF ws1(2)] Cons.prems(2) by simp
qed simp

lemma window_batches_ok:
  assumes "json_ok ex" and "tables_inv ex (ws_tables ws)" and "bound_events bs = Some pes" and "\<forall>pe \<in> set pes. publishable cal pe"
  shows "\<exists>ws'. window_batches cal ex bs ws = Inr ws'"
  using assms(2-4)
proof (induction bs arbitrary: ws pes)
  case (Cons b bs)
  obtain pids rest where b: "project_ids b = Some pids" "bound_events bs = Some rest" "pes = zip pids (events b) @ rest"
    using Cons.prems(2) by (auto split: option.splits)
  let ?ws = "ws\<lparr>ws_oldest := note_oldest (received_at_ms b) (ws_oldest ws)\<rparr>"
  obtain ws1 where ws1: "window_events cal ex (zip pids (events b)) ?ws = Inr ws1" "tables_inv ex (ws_tables ws1)"
    using window_events_ok [OF assms(1), of ?ws "zip pids (events b)" cal] Cons.prems(1,3) b(3) by auto
  then show ?case using Cons.IH [OF ws1(2) b(2)] Cons.prems(3) b by simp
qed simp

lemma write_partitions_ok:
  assumes "no_failure env" and "rows_ok gen frs"
    and "\<And>r. r \<in> set frs \<Longrightarrow> path_generation (lf_path (fr_file r)) = gen \<Longrightarrow> path_index (lf_path (fr_file r)) < i"
    and "\<forall>((pid, day), evs) \<in> set ps. pid \<noteq> [] \<and> length (day_text cal day) = 10"
  shows "\<exists>fs frs1 written d1. write_partitions cal env gen i ps frs d = (Inr (fs, frs1), written, d1)"
  using assms(2-4)
proof (induction ps arbitrary: i frs d)
  case (Cons p ps)
  obtain pid day evs where p: "p = ((pid, day), evs)" by (metis surj_pair)
  let ?content = "by_event_and_time evs"
  let ?path = "file_path cal pid day (published_name gen i)"
  obtain dw where w: "write_parquet env i ?path ?content d = (Inr (), dw)"
    using assms(1) by (simp add: write_parquet_def no_failure_def)
  have "lf_path (fr_file r) \<noteq> ?path" if "r \<in> set frs" for r
    using Cons.prems(2) [OF that] published_path(1,2) [of cal pid day gen i] by auto
  then obtain f frs1 where ins: "insert_file cal env i gen pid day ?path (length ?content) (le_size env ?content) 0 frs = Inr (f, frs1)"
    using assms(1) Cons.prems(3) by (auto simp: insert_file_def no_failure_def p list_ex_iff Let_def)
  note f = insert_file_ok [OF ins]
  have ok: "rows_ok gen frs1"
    by (rule insert_file_rows_ok [OF ins Cons.prems(1)]) (simp_all add: published_path)
  have index: "path_index (lf_path (fr_file r)) < i + 1"
    if "r \<in> set frs1" "path_generation (lf_path (fr_file r)) = gen" for r
  proof (cases "r \<in> set frs")
    case True
    then show ?thesis using Cons.prems(2) that(2) by fastforce
  next
    case False
    then have "lf_path (fr_file r) = ?path" using that(1) by (simp add: f(1,2))
    then show ?thesis by (simp only: published_path(2))
  qed
  obtain fs frs2 written d1 where "write_partitions cal env gen (i + 1) ps frs1 dw = (Inr (fs, frs2), written, d1)"
    using Cons.IH [OF ok index] Cons.prems(3) by fastforce
  then show ?case using w ins by (simp add: p Let_def)
qed simp

lemma publish_records_ok:
  assumes inv: "lake_inv lk" and env: "no_failure env" and js: "json_ok ex" and tables: "tables_inv ex (db_tables (lk_db lk))"
    and pes: "bound_events bs = Some pes" "\<forall>pe \<in> set pes. publishable cal pe"
  shows "\<exists>p lk'. publish_records cal ex env bs c lk = (Inr p, lk')"
proof -
  have "tables_inv ex (ws_tables (window_start (db_tables (lk_db lk))))" using tables by (simp add: window_start_def)
  then obtain ws where ws: "window_batches cal ex bs (window_start (db_tables (lk_db lk))) = Inr ws"
    using window_batches_ok [OF js _ pes] by blast
  have parts: "ws_partitions ws = fold (take_in cal) (first_by event_key pes) []"
    using window_batches_start [OF ws] pes(1) by (simp add: Let_def)
  have subset: "set (first_by key xs) \<subseteq> set xs" for key :: "string \<times> captured_event \<Rightarrow> string \<times> 128 word" and xs
    by (induction xs) auto
  have keys: "fst ` set (fold (take_in cal) evs m) = event_day cal ` set evs \<union> fst ` set m" for evs m
    by (induction evs arbitrary: m) (auto simp: take_in_def push_at_keys)
  have named: "trim s \<noteq> [] \<Longrightarrow> s \<noteq> []" for s by (auto simp: trim_def)
  have "pid \<noteq> [] \<and> length (day_text cal day) = 10" if "((pid, day), evs) \<in> set (ws_partitions ws)" for pid day evs
  proof -
    have "(pid, day) \<in> fst ` set (ws_partitions ws)" using that by force
    then have "(pid, day) \<in> event_day cal ` set (first_by event_key pes)" by (simp add: parts keys)
    then obtain pe where pe: "(pid, day) = event_day cal pe" "pe \<in> set (first_by event_key pes)" by (rule imageE)
    have "pe \<in> set pes" using subset [of event_key pes] pe(2) by (rule subsetD)
    with pe(1) show ?thesis using pes(2) named by (auto simp: publishable_def event_day_def)
  qed
  then have wf: "\<forall>((pid, day), evs) \<in> set (ws_partitions ws). pid \<noteq> [] \<and> length (day_text cal day) = 10" by auto
  let ?gen = "db_generation (lk_db lk) + 1"
  have rows: "rows_ok ?gen (db_rows (lk_db lk))" by (rule rows_ok_mono [OF lake_invD(3) [OF inv]]) simp
  have index: "path_index (lf_path (fr_file r)) < 0"
    if "r \<in> set (db_rows (lk_db lk))" "path_generation (lf_path (fr_file r)) = ?gen" for r
    using that lake_invD(3) [OF inv] by (auto simp: rows_ok_def)
  obtain added frs written d1 where "write_partitions cal env ?gen 0 (ws_partitions ws) (db_rows (lk_db lk)) (lk_disk lk)
      = (Inr (added, frs), written, d1)"
    using write_partitions_ok [OF env rows index wf] by blast
  then show ?thesis
    using env ws by (simp add: publish_records_def commit_publication_def Let_def advance_state_def no_failure_def)
qed

end
