(* ===== verification/CompactorCorrect.thy ===== *)
theory CompactorCorrect
  imports Compactor PublisherCorrect
begin

text \<open>
  What the compactor's steps do to what a query sees: a swap replaces some files of one partition by at most
  one new file, in one transaction, and leaves every other partition alone; a step that fails leaves all of
  them alone.
\<close>

section \<open>Partitions\<close>

definition partition_of :: "lake \<Rightarrow> partition \<Rightarrow> bool" where
  "partition_of lk p \<longleftrightarrow> pt_files p = part_files lk (pt_project p) (pt_day p)"

lemma in_partitions:
  assumes "snapshot_ok (lk_current lk)" and "p \<in> set (partitions lk)"
  shows "partition_of lk p"
proof -
  obtain pid pf d fs where p: "(pid, pf) \<in> set (sn_projects (lk_current lk))" "(d, fs) \<in> set (fs_days pf)"
    "p = \<lparr>pt_project = pid, pt_day = d, pt_files = fs\<rparr>"
    using assms(2) by (auto simp: partitions_def)
  have "files_of (lk_current lk) pid = pf" using assms(1) p(1) by (simp add: snapshot_ok_def files_of_def)
  moreover have "ordered_keys (fs_days pf)" using assms(1) p(1) by (force simp: snapshot_ok_def)
  ultimately show ?thesis using listed_of_member [OF _ p(2)] by (simp add: partition_of_def part_files_def p(3))
qed

lemma partitions_cover:
  assumes "f \<in> set (part_files lk pid d)"
  shows "\<exists>p \<in> set (partitions lk). pt_project p = pid \<and> pt_day p = d"
proof -
  obtain pf where pf: "map_of (sn_projects (lk_current lk)) pid = Some pf" "f \<in> set (listed (fs_days pf) d)"
    using assms by (auto simp: part_files_def files_of_def empty_files_def split: option.splits)
  then obtain fs where "(d, fs) \<in> set (fs_days pf)"
    by (cases "map_of (fs_days pf) d") (auto simp: listed_def dest: map_of_SomeD)
  then show ?thesis using map_of_SomeD [OF pf(1)] by (force simp: partitions_def)
qed

lemma partitions_distinct:
  assumes "snapshot_ok (lk_current lk)"
  shows "distinct (map (\<lambda>p. (pt_project p, pt_day p)) (partitions lk))"
proof -
  have days: "distinct (map fst (fs_days pf))" if "(pid, pf) \<in> set (sn_projects (lk_current lk))" for pid pf
    using assms that strict_sorted_iff by (force simp: snapshot_ok_def ordered_keys_def)
  have "distinct (map fst ps) \<Longrightarrow> (\<And>pid pf. (pid, pf) \<in> set ps \<Longrightarrow> distinct (map fst (fs_days pf))) \<Longrightarrow>
      distinct (map (\<lambda>p. (pt_project p, pt_day p)) (concat (map (\<lambda>(pid, p).
        map (\<lambda>(d, fs). \<lparr>pt_project = pid, pt_day = d, pt_files = fs\<rparr>) (fs_days p)) ps)))" for ps
  proof (induction ps)
    case (Cons e ps)
    obtain pid pf where e: "e = (pid, pf)" by fastforce
    have "distinct (map (\<lambda>p. (pt_project p, pt_day p))
        (map (\<lambda>(d, fs). \<lparr>pt_project = pid, pt_day = d, pt_files = fs\<rparr>) (fs_days pf)))"
    proof -
      have "distinct (map fst (fs_days pf))" using Cons.prems(2) [of pid pf] by (simp add: e)
      moreover have "map (\<lambda>p. (pt_project p, pt_day p)) (map (\<lambda>(d, fs). \<lparr>pt_project = pid, pt_day = d, pt_files = fs\<rparr>)
          (fs_days pf)) = map (Pair pid) (map fst (fs_days pf))"
        by (simp add: case_prod_unfold comp_def)
      ultimately show ?thesis unfolding distinct_map [of "Pair pid"] by (simp only: distinct_map [of "Pair pid"] inj_on_def) simp
    qed
    then show ?case using Cons by (force simp: e)
  qed simp
  from this [of "sn_projects (lk_current lk)"] show ?thesis
    using assms days by (simp add: partitions_def snapshot_ok_def distinct_map)
qed

lemma live_same_id:
  assumes "rows_ok n frs" and "f \<in> set (live_files frs)" and "g \<in> set (live_files frs)" and "lf_id f = lf_id g"
  shows "f = g"
proof -
  have "inj_on (lf_id \<circ> fr_file) (set frs)" using assms(1) by (simp add: rows_ok_def distinct_map)
  then show ?thesis using assms(2-4) by (auto simp: live_files_def) (metis comp_apply inj_onD)
qed

section \<open>Swaps\<close>

lemma swap_commits:
  assumes inv: "lake_inv lk" and swap: "commit_swap cal env i gen pid day path content ids (lk_db lk) = Inr (added, db)"
    and ids: "set ids \<subseteq> lf_id ` set (live_files (db_rows (lk_db lk)))" and same: "same_files lk d"
    and path: "content \<noteq> None \<longrightarrow> path_generation path = gen \<and> last path = CHR ''t'' \<and> d path = content"
  shows "gen = db_generation (lk_db lk) + 1" "db_generation db = gen" "commits lk added ids db d"
    and "db_tables db = db_tables (lk_db lk)" "db_checkpoint db = db_checkpoint (lk_db lk)"
    and "case content of None \<Rightarrow> added = []
      | Some rows \<Rightarrow> \<exists>f. added = [f] \<and> lf_project f = pid \<and> lf_day f = day \<and> lf_path f = path"
proof -
  let ?frs = "db_rows (lk_db lk)"
  note inv' = lake_invD [OF inv]
  show gen: "gen = db_generation (lk_db lk) + 1"
    using swap by (auto simp: commit_swap_def split: if_splits)
  obtain frs frs1 where f: "(case content of None \<Rightarrow> Inr ([], ?frs) | Some rows \<Rightarrow>
        and_then (insert_file cal env i gen pid day path (length rows) (le_size env rows) 1 ?frs)
          (\<lambda>(f, frs). Inr ([f], frs))) = Inr (added, frs)"
      "retire ids gen frs = Inr frs1"
      "db = (lk_db lk)\<lparr>db_rows := frs1, db_generation := gen\<rparr>"
    using swap gen by (auto simp: commit_swap_def result_simps advance_state_def split: if_splits)
  then show "db_generation db = gen" "db_tables db = db_tables (lk_db lk)" "db_checkpoint db = db_checkpoint (lk_db lk)"
    by simp_all
  have frs: "frs = ?frs @ map (\<lambda>f. \<lparr>fr_file = f, fr_created = gen, fr_retired = None\<rparr>) added
      \<and> rows_ok gen frs \<and> (\<forall>f \<in> set added. lf_id f = next_id ?frs \<and> d (lf_path f) \<noteq> None)
      \<and> (case content of None \<Rightarrow> added = []
          | Some rows \<Rightarrow> \<exists>f. added = [f] \<and> lf_project f = pid \<and> lf_day f = day \<and> lf_path f = path)"
  proof (cases content)
    case None
    then show ?thesis using f(1) rows_ok_mono [OF inv'(3)] by (simp add: gen)
  next
    case (Some rows)
    then obtain g where g: "insert_file cal env i gen pid day path (length rows) (le_size env rows) 1 ?frs = Inr (g, frs)"
      "added = [g]"
      using f(1) by (auto simp: result_simps)
    have "rows_ok gen frs" using path by (intro insert_file_rows_ok [OF g(1) inv'(3)]) (simp_all add: gen Some)
    moreover have "frs = ?frs @ [\<lparr>fr_file = g, fr_created = gen, fr_retired = None\<rparr>]" by (rule insert_file_ok(2) [OF g(1)])
    ultimately show ?thesis using g(2) path Some insert_file_ok(1) [OF g(1)] by simp
  qed
  then show "case content of None \<Rightarrow> added = []
      | Some rows \<Rightarrow> \<exists>f. added = [f] \<and> lf_project f = pid \<and> lf_day f = day \<and> lf_path f = path"
    by blast
  have fresh: "next_id ?frs \<notin> set ids"
  proof
    assume "next_id ?frs \<in> set ids"
    then obtain r where "r \<in> set ?frs" "lf_id (fr_file r) = next_id ?frs"
      using ids by (auto simp: live_files_def)
    then show False using next_id_fresh [of r ?frs] by simp
  qed
  then have kept: "filter (\<lambda>f. lf_id f \<notin> set ids) added = added" "{f \<in> set added. lf_id f \<in> set ids} = {}"
    using frs by (auto intro!: filter_True)
  have rows: "frs1 = map (retired_by gen ids) frs" by (rule retire_ok [OF f(2)])
  have live: "live_files frs = live_files ?frs @ added" "retired_files frs = retired_files ?frs"
    using frs by (simp_all add: live_files_new retired_files_new)
  have "{f \<in> set (live_files frs). lf_id f \<in> set ids} = {f \<in> set (live_files ?frs). lf_id f \<in> set ids}"
    using kept(2) by (auto simp: live(1))
  moreover have "rows_ok gen (map (retired_by gen ids) frs)" "\<forall>f \<in> set added. d (lf_path f) \<noteq> None"
    using frs rows_ok_retired by blast+
  ultimately show "commits lk added ids db d"
    using same kept(1) live_files_retired [of gen ids frs] retired_files_retired [of gen ids frs]
    unfolding commits_def f(3) rows live by (simp add: gen)
qed

text \<open>The effect on the partitions, for files \<open>old\<close> of one of them.\<close>

lemma swap_parts:
  assumes inv: "lake_inv lk" and swap: "commit_swap cal env i gen pid day path content (remdups (map lf_id old)) (lk_db lk)
      = Inr (added, db)"
    and old: "set old \<subseteq> set (part_files lk pid day)" and same: "same_files lk d"
    and path: "content \<noteq> None \<longrightarrow> path_generation path = gen \<and> last path = CHR ''t'' \<and> d path = content"
    and lk': "lk' = activate gen added (remdups (map lf_id old)) (lk\<lparr>lk_db := db, lk_disk := d\<rparr>)"
  shows "safe_step lk lk'"
    and "part_files lk' pid' day' = (if (pid', day') = (pid, day)
      then filter (\<lambda>f. f \<notin> set old) (part_files lk pid day) @ added else part_files lk pid' day')"
    and "part_events lk' pid' day' = (if (pid', day') = (pid, day)
      then concat (map (file_events (lk_disk lk)) (filter (\<lambda>f. f \<notin> set old) (part_files lk pid day)))
        @ (case content of None \<Rightarrow> [] | Some rows \<Rightarrow> rows)
      else part_events lk pid' day')"
proof -
  let ?ids = "remdups (map lf_id old)"
  note inv' = lake_invD [OF inv]
  have live: "part_files lk pid day \<noteq> [] \<longrightarrow> set (part_files lk pid day) \<subseteq> set (live_files (db_rows (lk_db lk)))" for pid day
    using inv'(5) by auto
  have ids: "set ?ids \<subseteq> lf_id ` set (live_files (db_rows (lk_db lk)))" using old inv'(5) by fastforce
  note c = swap_commits [OF inv swap ids same path]
  have id: "lf_id f \<in> set ?ids \<longleftrightarrow> f \<in> set old" if "f \<in> set (part_files lk pid' day')" for f pid' day'
    using that old inv'(5) live_same_id [OF inv'(3)] by auto (metis (no_types, lifting) mem_Collect_eq subset_iff)
  have elsewhere: "f \<notin> set old" if "f \<in> set (part_files lk pid' day')" "(pid', day') \<noteq> (pid, day)" for f pid' day'
    using that old inv'(5) by auto
  have added: "filter (\<lambda>f. lf_project f = pid' \<and> lf_day f = day') added = (if (pid', day') = (pid, day) then added else [])"
    for pid' day'
    using c(6) by (auto split: option.splits)
  show "safe_step lk lk'" using commit_parts(1) [OF inv c(3)] by (simp add: lk' c(2))
  have "part_files lk' pid' day' = filter (\<lambda>f. lf_id f \<notin> set ?ids) (part_files lk pid' day')
      @ (if (pid', day') = (pid, day) then added else [])"
    using commit_parts(2) [OF inv c(3), of pid' day'] by (simp only: lk' c(2) added)
  also have "filter (\<lambda>f. lf_id f \<notin> set ?ids) (part_files lk pid' day') = filter (\<lambda>f. f \<notin> set old) (part_files lk pid' day')"
    using id by (auto intro!: filter_cong)
  finally have parts: "part_files lk' pid' day' = filter (\<lambda>f. f \<notin> set old) (part_files lk pid' day')
      @ (if (pid', day') = (pid, day) then added else [])" .
  moreover have "(pid', day') \<noteq> (pid, day) \<Longrightarrow> filter (\<lambda>f. f \<notin> set old) (part_files lk pid' day') = part_files lk pid' day'"
    using elsewhere by (auto intro!: filter_True)
  ultimately show parts': "part_files lk' pid' day' = (if (pid', day') = (pid, day)
      then filter (\<lambda>f. f \<notin> set old) (part_files lk pid day) @ added else part_files lk pid' day')"
    by auto
  have events: "map (file_events d) fs = map (file_events (lk_disk lk)) fs" if "set fs \<subseteq> set (part_files lk pid' day')" for fs pid' day'
  proof (rule map_cong [OF refl])
    fix f assume "f \<in> set fs"
    then have "f \<in> set (live_files (db_rows (lk_db lk)))" using that inv'(5) by auto
    then show "file_events d f = file_events (lk_disk lk) f" using same_files_live [OF same] by (simp add: file_events_def)
  qed
  have new: "concat (map (file_events d) added) = (case content of None \<Rightarrow> [] | Some rows \<Rightarrow> rows)"
    using c(6) path by (auto simp: file_events_def split: option.splits)
  have "lk_disk lk' = d" by (simp add: lk')
  then show "part_events lk' pid' day' = (if (pid', day') = (pid, day)
      then concat (map (file_events (lk_disk lk)) (filter (\<lambda>f. f \<notin> set old) (part_files lk pid day)))
        @ (case content of None \<Rightarrow> [] | Some rows \<Rightarrow> rows)
      else part_events lk pid' day')"
    using events [of "filter (\<lambda>f. f \<notin> set old) (part_files lk pid day)" pid day]
      events [of "part_files lk pid' day'" pid' day'] new
    by (simp add: part_events_def parts' del: map_eq_conv)
qed

section \<open>Copies\<close>

lemma read_sources_events: "read_sources d fs = Some rows \<Longrightarrow> rows = concat (map (file_events d) fs)"
proof (induction fs arbitrary: rows)
  case (Cons f fs)
  then show ?case
    by (cases "d (lf_path f)"; cases "those (map (\<lambda>f. d (lf_path f)) fs)") (auto simp: read_sources_def file_events_def)
qed (simp add: read_sources_def)

definition new_name :: "lake \<Rightarrow> string \<Rightarrow> bool" where
  "new_name lk path \<longleftrightarrow> path_generation path = db_generation (lk_db lk) + 1 \<and> last path = CHR ''t''"

lemma same_files_new:
  assumes "lake_inv lk" and "new_name lk path" and "\<And>p. p \<noteq> path \<Longrightarrow> last p = CHR ''t'' \<Longrightarrow> d1 p = d p" and "same_files lk d"
  shows "same_files lk d1"
proof -
  note rows = lake_invD(3) [OF assms(1)]
  have "lf_path (fr_file r) \<noteq> path" if "r \<in> set (db_rows (lk_db lk))" for r
    using new_path [OF rows _ that, of path] assms(2) by (simp add: new_name_def)
  then show ?thesis using assms(3,4) rows by (simp add: same_files_def rows_ok_def)
qed

lemma copy_rows_outcome:
  assumes inv: "lake_inv lk" and path: "new_name lk path" and copy: "copy_rows env i path sel (lk_disk lk) = (res, d1)"
  shows "same_files lk d1" and "res = Inr rows \<Longrightarrow> sel = Some rows \<and> d1 path = Some rows"
proof -
  have other: "d1 p = lk_disk lk p" if "p \<noteq> path" "last p = CHR ''t''" for p
    using copy write_parquet_other [OF _ that] last_temporary [of path] that
    by (auto simp: copy_rows_def split: if_splits option.splits sum.splits prod.splits)
  show "same_files lk d1" by (rule same_files_new [OF inv path other same_files_refl])
  show "res = Inr rows \<Longrightarrow> sel = Some rows \<and> d1 path = Some rows"
    using copy write_parquet_done
    by (auto simp: copy_rows_def split: if_splits option.splits sum.splits prod.splits)
qed

lemma unlink_same:
  assumes "lake_inv lk" and "new_name lk path" and "same_files lk d"
  shows "same_files lk (unlink_file env i path d)"
  by (rule same_files_new [OF assms(1,2) _ assms(3)]) (simp add: unlink_file_def)

definition unchanged :: "lake \<Rightarrow> lake \<Rightarrow> bool" where
  "unchanged lk lk' \<longleftrightarrow> lk_db lk' = lk_db lk \<and> lk_current lk' = lk_current lk \<and> lk_graveyard lk' = lk_graveyard lk
     \<and> (\<forall>pid d. part_files lk' pid d = part_files lk pid d \<and> part_events lk' pid d = part_events lk pid d)"

lemma only_disk: "lake_inv lk \<Longrightarrow> same_files lk d \<Longrightarrow> safe_step lk (lk\<lparr>lk_disk := d\<rparr>) \<and> unchanged lk (lk\<lparr>lk_disk := d\<rparr>)"
  using disk_frame by (simp add: unchanged_def)

lemma unchanged_refl [simp]: "unchanged lk lk"
  by (simp add: unchanged_def)

lemma current_name:
  assumes "lake_inv lk" and "name = compacted_name (sn_generation (lk_current lk) + 1) \<or> name = erased_name (sn_generation (lk_current lk) + 1)"
  shows "new_name lk (file_path cal pid day name)"
  using merged_path [OF assms(2)] lake_invD(2) [OF assms(1)] by (simp add: new_name_def)

section \<open>Merging\<close>

definition kept_events :: "lake \<Rightarrow> lake_file list \<Rightarrow> string \<Rightarrow> int \<Rightarrow> captured_event list" where
  "kept_events lk old pid d = concat (map (file_events (lk_disk lk)) (filter (\<lambda>f. f \<notin> set old) (part_files lk pid d)))"

lemma merge_files_outcome:
  assumes inv: "lake_inv lk" and inputs: "set inputs \<subseteq> set (part_files lk (pt_project p) (pt_day p))"
    and step: "merge_files cal env duck p inputs lk = (res, lk')"
  shows "safe_step lk lk' \<and>
    (case res of
       Inl e \<Rightarrow> unchanged lk lk'
     | Inr c \<Rightarrow> lk_db lk' = (lk_db lk)\<lparr>db_generation := db_generation (lk_db lk) + 1, db_rows := db_rows (lk_db lk')\<rparr>
         \<and> (\<forall>pid d. part_events lk' pid d = (if (pid, d) = (pt_project p, pt_day p)
              then kept_events lk inputs pid d @ duck (concat (map (file_events (lk_disk lk)) inputs))
              else part_events lk pid d)))"
proof -
  let ?gen = "sn_generation (lk_current lk) + 1"
  let ?path = "file_path cal (pt_project p) (pt_day p) (compacted_name ?gen)"
  obtain r d1 where copy: "copy_rows env 0 ?path (map_option duck (read_sources (lk_disk lk) inputs)) (lk_disk lk) = (r, d1)"
    by fastforce
  have path: "new_name lk ?path" by (rule current_name [OF inv]) simp
  note same = copy_rows_outcome(1) [OF inv path copy]
  show ?thesis
  proof (cases r)
    case (Inl e)
    then show ?thesis using step copy only_disk [OF inv same] by (auto simp: merge_files_def Let_def)
  next
    case r: (Inr rows)
    have rows: "map_option duck (read_sources (lk_disk lk) inputs) = Some rows" "d1 ?path = Some rows"
      using copy_rows_outcome(2) [OF inv path copy r] by simp_all
    show ?thesis
    proof (cases "commit_swap cal env 0 ?gen (pt_project p) (pt_day p) ?path (Some rows) (remdups (map lf_id inputs)) (lk_db lk)")
      case (Inl e)
      then show ?thesis
        using step copy r only_disk [OF inv unlink_same [OF inv path same]] by (auto simp: merge_files_def Let_def)
    next
      case (Inr ad)
      obtain added db where ad: "ad = (added, db)" by fastforce
      note swap = Inr [unfolded ad]
      have lk': "lk' = activate ?gen added (remdups (map lf_id inputs)) (lk\<lparr>lk_db := db, lk_disk := d1\<rparr>)"
        and res: "\<exists>c. res = Inr c"
        using step copy r swap by (auto simp: merge_files_def Let_def)
      have named: "Some rows \<noteq> None \<longrightarrow> path_generation ?path = ?gen \<and> last ?path = CHR ''t'' \<and> d1 ?path = Some rows"
        using merged_path [of "compacted_name ?gen" ?gen] rows(2) by simp
      have ids: "set (remdups (map lf_id inputs)) \<subseteq> lf_id ` set (live_files (db_rows (lk_db lk)))"
        using inputs lake_invD(5) [OF inv] by fastforce
      note parts = swap_parts [OF inv swap inputs same named lk']
      have "rows = duck (concat (map (file_events (lk_disk lk)) inputs))"
        using rows(1) read_sources_events by (cases "read_sources (lk_disk lk) inputs") auto
      moreover have "lk_db lk' = db" by (simp add: lk')
      moreover have "db = (lk_db lk)\<lparr>db_generation := db_generation (lk_db lk) + 1, db_rows := db_rows db\<rparr>"
        using swap_commits(1,2,4,5) [OF inv swap ids same named] by (intro lake_db.equality) simp_all
      ultimately show ?thesis using parts(1,3) res by (auto simp: kept_events_def)
    qed
  qed
qed

section \<open>Retention\<close>

lemma enforce_retention_outcome:
  assumes inv: "lake_inv lk" and step: "enforce_retention cal env days today lk = (res, lk')"
  shows "safe_step lk lk' \<and>
    (case res of
       Inl e \<Rightarrow> lk' = lk
     | Inr n \<Rightarrow> (n = 0 \<longrightarrow> lk' = lk) \<and> db_tables (lk_db lk') = db_tables (lk_db lk) \<and> db_checkpoint (lk_db lk') = db_checkpoint (lk_db lk)
         \<and> (\<forall>pid d. part_events lk' pid d = (if d < today - int days then [] else part_events lk pid d)))"
proof -
  note inv' = lake_invD [OF inv]
  let ?old = "concat (map pt_files (filter (\<lambda>p. pt_day p < today - int days) (partitions lk)))"
  let ?ids = "remdups (map lf_id ?old)"
  have old: "f \<in> set ?old \<longleftrightarrow> d < today - int days" if "f \<in> set (part_files lk pid d)" for f pid d
  proof -
    note f = that
    obtain p where p: "p \<in> set (partitions lk)" "pt_project p = pid" "pt_day p = d" using partitions_cover [OF f] by blast
    then have "f \<in> set (pt_files p)" using in_partitions [OF inv'(1) p(1)] that by (simp add: partition_of_def)
    moreover have "lf_day f = pt_day q" if "q \<in> set (partitions lk)" "f \<in> set (pt_files q)" for q
      using in_partitions [OF inv'(1) that(1)] that(2) inv'(5) by (simp add: partition_of_def)
    moreover have "lf_day f = d" using f inv'(5) by simp
    moreover have "f \<in> set ?old \<longleftrightarrow> (\<exists>q \<in> set (partitions lk). pt_day q < today - int days \<and> f \<in> set (pt_files q))" by auto
    ultimately show ?thesis using p by metis
  qed
  have live: "set ?old \<subseteq> set (live_files (db_rows (lk_db lk)))"
    using in_partitions [OF inv'(1)] inv'(5) by (auto simp: partition_of_def)
  have ids: "lf_id f \<in> set ?ids \<longleftrightarrow> d < today - int days" if "f \<in> set (part_files lk pid d)" for f pid d
  proof -
    have "f \<in> set (live_files (db_rows (lk_db lk)))" using that inv'(5) by simp
    then have "lf_id f \<in> lf_id ` set ?old \<longleftrightarrow> f \<in> set ?old"
      using live live_same_id [OF inv'(3)] by blast
    then show ?thesis using old [OF that] by simp
  qed
  obtain gone where gone: "gone = ?ids" by simp
  note ids' = ids [folded gone]
  note step' = step [unfolded enforce_retention_def Let_def, folded gone]
  show ?thesis
  proof (cases "gone = []")
    case True
    then have "part_files lk pid d = []" if "d < today - int days" for pid d
      using ids' [of "hd (part_files lk pid d)" pid d] that
      unfolding True by (cases "part_files lk pid d") simp_all
    then show ?thesis using step' True inv by (auto simp: part_events_def)
  next
    case False
    show ?thesis
    proof (cases "commit_swap cal env 0 (db_generation (lk_db lk) + 1) [] 0 [] None gone (lk_db lk)")
      case (Inl e)
      then show ?thesis using step' False inv by auto
    next
      case (Inr ad)
      obtain added db where ad: "ad = (added, db)" by fastforce
      have sub: "set gone \<subseteq> lf_id ` set (live_files (db_rows (lk_db lk)))" using live by (fastforce simp: gone)
      note c = swap_commits [OF inv Inr [unfolded ad] sub same_files_refl, simplified]
      have lk': "lk' = activate (db_generation db) [] gone (lk\<lparr>lk_db := db, lk_disk := lk_disk lk\<rparr>)"
        and res: "res = Inr (length gone)"
        using step' False Inr ad c(1,2,6) by auto
      have commits: "commits lk [] gone db (lk_disk lk)" using c(3,6) by simp
      have parts: "part_files lk' pid d = (if d < today - int days then [] else part_files lk pid d)" for pid d
      proof -
        have "part_files lk' pid d = filter (\<lambda>f. lf_id f \<notin> set gone) (part_files lk pid d)"
          using commit_parts(2) [OF inv commits, of pid d] by (simp add: lk')
        also have "\<dots> = filter (\<lambda>f. \<not> d < today - int days) (part_files lk pid d)"
          using ids' by (intro filter_cong) simp_all
        finally show ?thesis by simp
      qed
      have "lk_disk lk' = lk_disk lk" "lk_db lk' = db" by (simp_all add: lk')
      moreover have "safe_step lk lk'" using commit_parts(1) [OF inv commits] by (simp add: lk')
      ultimately show ?thesis using parts res c(4,5) False by (simp add: part_events_def)
    qed
  qed
qed

section \<open>Erasure\<close>

lemma erase_partition_outcome:
  assumes inv: "lake_inv lk" and p: "partition_of lk p" "pt_project p = pid"
    and step: "erase_partition cal env duck pid ids i p lk = (res, lk')"
  shows "safe_step lk lk' \<and>
    (case res of
       Inl e \<Rightarrow> unchanged lk lk'
     | Inr n \<Rightarrow> n = length (filter (of_ids ids) (part_events lk pid (pt_day p)))
         \<and> db_tables (lk_db lk') = db_tables (lk_db lk) \<and> db_checkpoint (lk_db lk') = db_checkpoint (lk_db lk)
         \<and> (\<forall>pid' d. (pid', d) \<noteq> (pid, pt_day p) \<longrightarrow> part_files lk' pid' d = part_files lk pid' d)
         \<and> (\<forall>pid' d. part_events lk' pid' d = (if (pid', d) = (pid, pt_day p) \<and> n \<noteq> 0
              then duck (filter (\<lambda>e. \<not> of_ids ids e) (part_events lk pid d)) else part_events lk pid' d)))"
proof -
  let ?gen = "sn_generation (lk_current lk) + 1"
  let ?path = "file_path cal pid (pt_day p) (erased_name ?gen)"
  let ?rest = "duck (filter (\<lambda>e. \<not> of_ids ids e) (part_events lk pid (pt_day p)))"
  have files: "pt_files p = part_files lk pid (pt_day p)" using p by (simp add: partition_of_def)
  have path: "new_name lk ?path" by (rule current_name [OF inv]) simp
  consider (unread) "(if le_fails env Matching i then None else read_sources (lk_disk lk) (pt_files p)) = None"
    | (clean) rows where "(if le_fails env Matching i then None else read_sources (lk_disk lk) (pt_files p)) = Some rows"
        "length (filter (of_ids ids) rows) = 0"
    | (some) rows where "(if le_fails env Matching i then None else read_sources (lk_disk lk) (pt_files p)) = Some rows"
        "length (filter (of_ids ids) rows) \<noteq> 0"
    by (cases "if le_fails env Matching i then None else read_sources (lk_disk lk) (pt_files p)") auto
  then show ?thesis
  proof cases
    case unread
    show ?thesis using step [unfolded erase_partition_def unread option.case] inv by auto
  next
    case clean
    then have rows: "rows = part_events lk pid (pt_day p)"
      using read_sources_events by (auto simp: part_events_def files split: if_splits)
    show ?thesis
      using step [unfolded erase_partition_def clean(1) option.case Let_def] clean(2) inv rows by auto
  next
    case some
    then have rows: "rows = part_events lk pid (pt_day p)"
      using read_sources_events by (auto simp: part_events_def files split: if_splits)
    obtain r d1 where copy: "copy_rows env i ?path (Some ?rest) (lk_disk lk) = (r, d1)" by fastforce
    note same = copy_rows_outcome(1) [OF inv path copy]
    note step' = step [unfolded erase_partition_def some(1) option.case Let_def, unfolded rows copy]
    show ?thesis
    proof (cases r)
      case (Inl e)
      then show ?thesis using step' some rows only_disk [OF inv same] by auto
    next
      case r: (Inr kept)
      have kept: "kept = ?rest" "d1 ?path = Some kept" using copy_rows_outcome(2) [OF inv path copy r] by simp_all
      let ?content = "if kept = [] then None else Some kept"
      obtain old where old: "old = pt_files p" by simp
      show ?thesis
      proof (cases "commit_swap cal env i ?gen pid (pt_day p) ?path ?content (remdups (map lf_id old)) (lk_db lk)")
        case (Inl e)
        then show ?thesis using step' some rows r only_disk [OF inv same] by (auto simp: old)
      next
        case (Inr ad)
        obtain added db where ad: "ad = (added, db)" by fastforce
        note swap = Inr [unfolded ad]
        obtain d2 where d2: "d2 = (if added = [] then unlink_file env i ?path d1 else d1)" by simp
        have lk': "lk' = activate ?gen added (remdups (map lf_id old)) (lk\<lparr>lk_db := db, lk_disk := d2\<rparr>)"
          and res: "res = Inr (length (filter (of_ids ids) rows))"
          using step' some rows r swap by (auto simp: old d2)
        have same2: "same_files lk d2" using same unlink_same [OF inv path same] by (simp add: d2)
        have oldin: "set old \<subseteq> set (part_files lk pid (pt_day p))" by (simp add: old files)
        have sub: "set (remdups (map lf_id old)) \<subseteq> lf_id ` set (live_files (db_rows (lk_db lk)))"
          using oldin lake_invD(5) [OF inv] by fastforce
        have named: "?content \<noteq> None \<longrightarrow> path_generation ?path = ?gen \<and> last ?path = CHR ''t'' \<and> d1 ?path = ?content"
          using merged_path [of "erased_name ?gen" ?gen] kept(2) by simp
        have "?content \<noteq> None \<longrightarrow> added \<noteq> []"
          using swap_commits(6) [OF inv swap sub same named] by auto
        then have named2: "?content \<noteq> None \<longrightarrow> path_generation ?path = ?gen \<and> last ?path = CHR ''t'' \<and> d2 ?path = ?content"
          using named by (simp add: d2)
        note parts = swap_parts [OF inv swap oldin same2 named2 lk']
        note tables = swap_commits(4,5) [OF inv swap sub same2 named2]
        have empty: "filter (\<lambda>f. f \<notin> set old) (part_files lk pid (pt_day p)) = []"
          by (simp add: old files filter_empty_conv)
        have "(case ?content of None \<Rightarrow> [] | Some rows \<Rightarrow> rows) = ?rest" using kept(1) by simp
        then show ?thesis
          using parts tables res some(2) rows by (auto simp: empty lk' [symmetric]) (simp_all add: lk')
      qed
    qed
  qed
qed

text \<open>The whole erasure: what every partition of the project holds afterwards.\<close>

definition erased :: "duck \<Rightarrow> string list \<Rightarrow> captured_event list \<Rightarrow> captured_event list" where
  "erased duck ids evs = (if list_ex (of_ids ids) evs then duck (filter (\<lambda>e. \<not> of_ids ids e) evs) else evs)"

lemma erase_partitions_outcome:
  assumes "lake_inv lk" and "\<forall>p \<in> set ps. partition_of lk p \<and> pt_project p = pid" and "distinct (map pt_day ps)"
    and "erase_partitions cal env duck pid ids i ps lk = (res, lk')"
  shows "safe_step lk lk' \<and> db_tables (lk_db lk') = db_tables (lk_db lk) \<and> db_checkpoint (lk_db lk') = db_checkpoint (lk_db lk)
    \<and> (\<forall>pid' d. pid' \<noteq> pid \<or> d \<notin> pt_day ` set ps \<longrightarrow> part_events lk' pid' d = part_events lk pid' d)
    \<and> (\<forall>d. part_events lk' pid d = part_events lk pid d \<or> part_events lk' pid d = erased duck ids (part_events lk pid d))
    \<and> (\<forall>n. res = Inr n \<longrightarrow> n = (\<Sum>p \<leftarrow> ps. length (filter (of_ids ids) (part_events lk pid (pt_day p))))
        \<and> (\<forall>p \<in> set ps. part_events lk' pid (pt_day p) = erased duck ids (part_events lk pid (pt_day p))))"
  using assms
proof (induction ps arbitrary: i lk res lk')
  case (Cons p ps)
  obtain r lk1 where r: "erase_partition cal env duck pid ids i p lk = (r, lk1)" by fastforce
  have p: "partition_of lk p" "pt_project p = pid" using Cons.prems(2) by auto
  note one = erase_partition_outcome [OF Cons.prems(1) p r]
  show ?case
  proof (cases r)
    case (Inl e)
    then have lk': "lk' = lk1" "res = Inl e" using Cons.prems(4) r by auto
    have "safe_step lk lk1" "unchanged lk lk1" using one Inl by simp_all
    then show ?thesis unfolding lk' by (simp add: unchanged_def)
  next
    case (Inr n)
    have first: "safe_step lk lk1" and n: "n = length (filter (of_ids ids) (part_events lk pid (pt_day p)))"
      and tables: "db_tables (lk_db lk1) = db_tables (lk_db lk)" "db_checkpoint (lk_db lk1) = db_checkpoint (lk_db lk)"
      and files: "(pid', d) \<noteq> (pid, pt_day p) \<Longrightarrow> part_files lk1 pid' d = part_files lk pid' d"
      and events: "part_events lk1 pid' d = (if (pid', d) = (pid, pt_day p) \<and> n \<noteq> 0
              then duck (filter (\<lambda>e. \<not> of_ids ids e) (part_events lk pid d)) else part_events lk pid' d)" for pid' d
      using one Inr by auto
    note inv = safe_step_inv [OF first]
    have "n \<noteq> 0 \<longleftrightarrow> list_ex (of_ids ids) (part_events lk pid (pt_day p))"
      by (auto simp: n list_ex_iff filter_empty_conv)
    then have here: "part_events lk1 pid (pt_day p) = erased duck ids (part_events lk pid (pt_day p))"
      using events [of pid "pt_day p"] by (simp add: erased_def)
    have there: "part_events lk1 pid' d = part_events lk pid' d" if "(pid', d) \<noteq> (pid, pt_day p)" for pid' d
      using events [of pid' d] that by auto
    obtain r2 lk2 where rest: "erase_partitions cal env duck pid ids (i + 1) ps lk1 = (r2, lk2)" by fastforce
    have lk': "lk' = lk2" "res = (case r2 of Inl e \<Rightarrow> Inl e | Inr m \<Rightarrow> Inr (n + m))"
      using Cons.prems(4) r Inr rest by (auto split: sum.splits)
    have day: "pt_day q \<noteq> pt_day p" if "q \<in> set ps" for q using that Cons.prems(3) by (auto simp: image_iff)
    have ps: "\<forall>q \<in> set ps. partition_of lk1 q \<and> pt_project q = pid"
      using Cons.prems(2) files day by (auto simp: partition_of_def)
    have distinct: "distinct (map pt_day ps)" using Cons.prems(3) by simp
    note IH = Cons.IH [OF inv ps distinct rest]
    have same: "part_events lk1 pid (pt_day q) = part_events lk pid (pt_day q)" if "q \<in> set ps" for q
      using there day [OF that] by simp
    then have "(\<Sum>q \<leftarrow> ps. length (filter (of_ids ids) (part_events lk1 pid (pt_day q)))) =
        (\<Sum>q \<leftarrow> ps. length (filter (of_ids ids) (part_events lk pid (pt_day q))))"
      by (intro arg_cong [where f = sum_list] map_cong [OF refl]) simp
    moreover have "part_events lk2 pid (pt_day p) = part_events lk1 pid (pt_day p)"
    proof -
      have "pt_day p \<notin> pt_day ` set ps" using Cons.prems(3) by simp
      then show ?thesis using IH by blast
    qed
    moreover have "part_events lk2 pid d = part_events lk pid d
        \<or> part_events lk2 pid d = erased duck ids (part_events lk pid d)" for d
    proof (cases "d = pt_day p")
      case True
      then show ?thesis using calculation(2) here by simp
    next
      case False
      then have "part_events lk1 pid d = part_events lk pid d" using there by simp
      moreover have "part_events lk2 pid d = part_events lk1 pid d
          \<or> part_events lk2 pid d = erased duck ids (part_events lk1 pid d)" using IH by blast
      ultimately show ?thesis by simp
    qed
    moreover have "part_events lk2 pid' d = part_events lk pid' d" if "pid' \<noteq> pid \<or> d \<notin> pt_day ` set (p # ps)" for pid' d
      using that IH there [of pid' d] by auto
    moreover have "safe_step lk lk2" using safe_step_trans [OF first] IH by blast
    ultimately show ?thesis using IH here same tables n unfolding lk' by (auto split: sum.splits)
  qed
qed auto

lemma erase_events_outcome:
  assumes inv: "lake_inv lk" and step: "erase_events cal env duck pid ids lk = (res, lk')"
  shows "safe_step lk lk' \<and> db_tables (lk_db lk') = db_tables (lk_db lk) \<and> db_checkpoint (lk_db lk') = db_checkpoint (lk_db lk)
    \<and> (\<forall>pid' d. pid' \<noteq> pid \<longrightarrow> part_events lk' pid' d = part_events lk pid' d)
    \<and> (\<forall>d. part_events lk' pid d = part_events lk pid d \<or> part_events lk' pid d = erased duck ids (part_events lk pid d))
    \<and> (is_ok res \<longrightarrow> (\<forall>d. part_events lk' pid d = erased duck ids (part_events lk pid d)))"
proof (cases "ids = []")
  case True
  then have "\<not> list_ex (of_ids ids) evs" for evs by (simp add: of_ids_def list_ex_iff)
  then show ?thesis using True step inv by (auto simp: erase_events_def erased_def)
next
  case False
  let ?ps = "filter (\<lambda>p. pt_project p = pid) (partitions lk)"
  note ok = lake_invD(1) [OF inv]
  have "distinct (map (\<lambda>p. (pt_project p, pt_day p)) ?ps)" using partitions_distinct [OF ok] by (rule distinct_map_filter)
  then have distinct: "distinct (map pt_day ?ps)" by (auto simp: distinct_map inj_on_def)
  have ps: "\<forall>p \<in> set ?ps. partition_of lk p \<and> pt_project p = pid" using in_partitions [OF ok] by simp
  have run: "erase_partitions cal env duck pid ids 0 ?ps lk = (res, lk')" using step False by (simp add: erase_events_def)
  note o = erase_partitions_outcome [OF inv ps distinct run]
  have "part_events lk pid d = []" if "d \<notin> pt_day ` set ?ps" for d
  proof -
    have "part_files lk pid d = []" using partitions_cover [of _ lk pid d] that by (cases "part_files lk pid d") fastforce+
    then show ?thesis by (simp add: part_events_def)
  qed
  then have "part_events lk' pid d = erased duck ids (part_events lk pid d)" if "is_ok res" for d
    using o that by (cases "d \<in> pt_day ` set ?ps") (auto simp: result_simps erased_def)
  then show ?thesis using o by blast
qed

end
