(* ===== verification/LakeRun.thy ===== *)
theory LakeRun
  imports CompactorCorrect
begin

text \<open>
  Whole lives of the lake: \<open>lake_run\<close> is a step relation of publications, compaction, erasures, leases, sweeps
  and crashes, each crash followed by \<open>lake_open\<close> on a disk that has kept what was synced and is otherwise
  arbitrary. It keeps the files some lease holds, with the content they had when they were leased.
\<close>

section \<open>Opening\<close>

lemma grouped_files:
  "listed (fs_days (files_of \<lparr>sn_generation = n, sn_projects = grouped_rows frs\<rparr> pid)) d =
     filter (\<lambda>f. lf_project f = pid \<and> lf_day f = d) (map fr_file frs)"
proof -
  let ?mine = "filter (\<lambda>r. lf_project (fr_file r) = pid) frs"
  have "map_of (grouped_rows frs) pid = (if pid \<in> set (map (lf_project \<circ> fr_file) frs)
      then Some \<lparr>fs_version = foldl max 0 (map fr_created ?mine), fs_days = add_files (map fr_file ?mine) []\<rparr> else None)"
  proof -
    have "map_of (map (\<lambda>x. (x, g x)) xs) k = (if k \<in> set xs then Some (g k) else None)"
      for g :: "string \<Rightarrow> project_files" and xs k by (induction xs) auto
    then show ?thesis unfolding grouped_rows_def Let_def by simp
  qed
  moreover have "pid \<notin> set (map (lf_project \<circ> fr_file) frs) \<Longrightarrow>
      filter (\<lambda>f. lf_project f = pid \<and> lf_day f = d) (map fr_file frs) = []"
    by (auto simp: filter_empty_conv)
  moreover have "listed (add_files (map fr_file ?mine) []) d = filter (\<lambda>f. lf_project f = pid \<and> lf_day f = d) (map fr_file frs)"
    by (simp add: listed_add_files filter_map comp_def conj_commute)
  ultimately show ?thesis by (simp add: files_of_def empty_files_def)
qed

lemma grouped_ok: "snapshot_ok \<lparr>sn_generation = n, sn_projects = grouped_rows frs\<rparr>"
  unfolding snapshot_ok_def
  by (auto simp: grouped_rows_def Let_def comp_def intro!: add_files_ordered)

lemma lake_open_outcome:
  assumes rows: "rows_ok (db_generation db) (db_rows db)" and op: "lake_open unlinked orphans_gone db d = Inr lk"
  shows "lake_inv lk" and "lk_db lk = db\<lparr>db_rows := filter (\<lambda>r. fr_retired r = None) (db_rows db)\<rparr>"
    and "\<And>f. f \<in> set (live_files (db_rows db)) \<Longrightarrow> lk_disk lk (lf_path f) = d (lf_path f)"
proof -
  let ?live = "filter (\<lambda>r. fr_retired r = None) (db_rows db)"
  let ?sorted = "sort_key (lf_id \<circ> fr_file) ?live"
  have lk: "lk = \<lparr>lk_db = db\<lparr>db_rows := ?live\<rparr>, lk_disk = d |` set (map (lf_path \<circ> fr_file) ?sorted),
      lk_current = \<lparr>sn_generation = db_generation db, sn_projects = grouped_rows ?sorted\<rparr>, lk_graveyard = []\<rparr>"
    and there: "\<And>r. r \<in> set ?live \<Longrightarrow> d (lf_path (fr_file r)) \<noteq> None"
    using op by (auto simp: lake_open_def Let_def list_ex_iff split: if_splits)
  show "lk_db lk = db\<lparr>db_rows := ?live\<rparr>" by (simp add: lk)
  show kept: "lk_disk lk (lf_path f) = d (lf_path f)" if "f \<in> set (live_files (db_rows db))" for f
    using that by (auto simp: lk live_files_def restrict_map_def)
  have live: "live_files ?live = map fr_file ?live" "live_files (db_rows db) = map fr_file ?live"
    by (simp_all add: live_files_def)
  have parts: "part_files lk pid day = filter (\<lambda>f. lf_project f = pid \<and> lf_day f = day) (map fr_file ?sorted)" for pid day
    by (simp add: part_files_def lk grouped_files)
  have "distinct (map fr_file ?live)"
    using rows_distinct_live [OF rows] by (simp add: live(2))
  then have "distinct (map fr_file ?sorted)"
    by (simp add: distinct_map)
  moreover have "d (lf_path f) \<noteq> None" if "f \<in> set (live_files ?live)" for f
    using there that by (auto simp: live)
  ultimately show "lake_inv lk"
    unfolding lake_inv_def Let_def parts
    using rows_ok_filter [OF rows] kept
    by (auto simp: lk live grouped_ok retired_files_def)
qed

lemma lake_open_works:
  assumes rows: "rows_ok (db_generation db) (db_rows db)" and there: "\<And>f. f \<in> set (live_files (db_rows db)) \<Longrightarrow> d (lf_path f) \<noteq> None"
  shows "\<exists>lk. lake_open (\<lambda>_. True) True db d = Inr lk"
proof -
  have paths: "inj_on (lf_path \<circ> fr_file) (set (db_rows db))" using rows by (simp add: rows_ok_def distinct_map)
  have "lf_path (fr_file r) \<noteq> lf_path (fr_file r')"
    if "r \<in> set (db_rows db)" "r' \<in> set (db_rows db)" "fr_retired r = None" "fr_retired r' \<noteq> None" for r r'
    using that inj_onD [OF paths, of r r'] by auto
  moreover have "d (lf_path (fr_file r)) \<noteq> None" if "r \<in> set (db_rows db)" "fr_retired r = None" for r
    using that there by (auto simp: live_files_def)
  ultimately show ?thesis by (force simp: lake_open_def Let_def list_ex_iff list_all_iff)
qed

text \<open>The same files in the same partitions, in the order of their ids.\<close>

lemma lake_open_events:
  assumes inv: "lake_inv lk" and op: "lake_open unlinked orphans_gone (lk_db lk) d = Inr lk'"
    and disk: "\<And>f. f \<in> set (live_files (db_rows (lk_db lk))) \<Longrightarrow> d (lf_path f) = lk_disk lk (lf_path f)"
  shows "mset (part_events lk' pid day) = mset (part_events lk pid day)"
proof -
  note inv1 = lake_invD [OF inv]
  note o = lake_open_outcome [OF inv1(3) op]
  note inv2 = lake_invD [OF o(1)]
  have live: "live_files (db_rows (lk_db lk')) = live_files (db_rows (lk_db lk))" by (simp add: o(2) live_files_def)
  have "set (part_files lk' pid day) = set (part_files lk pid day)"
    by (simp only: inv1(5) inv2(5) live)
  then have files: "mset (part_files lk' pid day) = mset (part_files lk pid day)"
    using inv1(4) inv2(4) by (simp add: set_eq_iff_mset_eq_distinct)
  have same: "file_events (lk_disk lk') f = file_events (lk_disk lk) f" if "f \<in> set (part_files lk' pid day)" for f
  proof -
    have f: "f \<in> set (live_files (db_rows (lk_db lk)))" using that by (simp add: inv2(5) live)
    show ?thesis using o(3) [OF f] disk [OF f] by (simp add: file_events_def)
  qed
  have "mset (concat (map g fs)) = \<Sum>\<^sub># (image_mset (mset \<circ> g) (mset fs))" for g :: "lake_file \<Rightarrow> captured_event list" and fs
    by (induction fs) simp_all
  then have "mset (part_events lk' pid day) = \<Sum>\<^sub># (image_mset (mset \<circ> file_events (lk_disk lk')) (mset (part_files lk' pid day)))"
    "mset (part_events lk pid day) = \<Sum>\<^sub># (image_mset (mset \<circ> file_events (lk_disk lk)) (mset (part_files lk pid day)))"
    by (simp_all add: part_events_def)
  moreover have "image_mset (mset \<circ> file_events (lk_disk lk')) (mset (part_files lk' pid day)) =
      image_mset (mset \<circ> file_events (lk_disk lk)) (mset (part_files lk' pid day))"
    using same by (intro image_mset_cong) simp
  ultimately show ?thesis by (simp add: files)
qed

section \<open>One unit of compaction\<close>

lemma last_max_by_in: "last_max_by f xs = Some x \<Longrightarrow> x \<in> set xs"
  by (induction xs arbitrary: x) (auto split: option.splits if_splits)

lemma within_bytes_subset: "set (within_bytes b fs) \<subseteq> set fs"
  by (induction b fs rule: within_bytes.induct) (auto simp: Let_def)

lemma merge_inputs_subset: "set (merge_inputs p today) \<subseteq> set (pt_files p)"
  using within_bytes_subset [of 0] set_take_subset unfolding merge_inputs_def Let_def by fastforce

lemma next_merge_inputs:
  assumes "lake_inv lk" and "next_merge lk today = Some (p, inputs)"
  shows "set inputs \<subseteq> set (part_files lk (pt_project p) (pt_day p))"
proof -
  have p: "p \<in> set (partitions lk)" "inputs = merge_inputs p today"
    using last_max_by_in [OF assms(2) [unfolded next_merge_def]] by auto
  then show ?thesis
    using in_partitions [OF lake_invD(1) [OF assms(1)] p(1)] merge_inputs_subset [of p today]
    by (simp add: partition_of_def)
qed

text \<open>What a merge does to a partition: some of its files are replaced by their first copies.\<close>

definition merged :: "duck \<Rightarrow> captured_event list \<Rightarrow> captured_event list \<Rightarrow> bool" where
  "merged duck before now \<longleftrightarrow> (\<exists>kept inputs. mset before = mset (kept @ inputs) \<and> now = kept @ duck inputs)"

lemma within_bytes_prefix: "\<exists>rest. fs = within_bytes b fs @ rest"
  by (induction b fs rule: within_bytes.induct) (auto simp: Let_def)

lemma merge_inputs_distinct: "distinct (pt_files p) \<Longrightarrow> distinct (merge_inputs p today)"
proof -
  assume "distinct (pt_files p)"
  then have "distinct (sort_key lf_id (filter (\<lambda>f. lf_bytes f < small_file_bytes) (pt_files p)))" by simp
  then have "distinct (within_bytes 0 (sort_key lf_id (filter (\<lambda>f. lf_bytes f < small_file_bytes) (pt_files p))))"
    using within_bytes_prefix [of "sort_key lf_id (filter (\<lambda>f. lf_bytes f < small_file_bytes) (pt_files p))" 0]
    by (metis distinct_append)
  then show ?thesis by (simp add: merge_inputs_def Let_def)
qed

lemma mset_split_files:
  assumes "distinct fs" and "distinct inputs" and "set inputs \<subseteq> set fs"
  shows "mset (concat (map g fs)) = mset (concat (map g (filter (\<lambda>f. f \<notin> set inputs) fs)) @ concat (map g inputs))"
proof -
  have sum: "mset (concat (map g xs)) = \<Sum>\<^sub># (image_mset (\<lambda>f. mset (g f)) (mset xs))" for xs
    by (induction xs) simp_all
  have "set (filter (\<lambda>f. f \<in> set inputs) fs) = set inputs" using assms(3) by auto
  then have "mset (filter (\<lambda>f. f \<in> set inputs) fs) = mset inputs"
    using set_eq_iff_mset_eq_distinct [OF distinct_filter [OF assms(1)] assms(2)] by blast
  moreover have "mset fs = mset (filter (\<lambda>f. f \<notin> set inputs) fs) + mset (filter (\<lambda>f. f \<in> set inputs) fs)"
    by (induction fs) auto
  ultimately have "mset fs = mset (filter (\<lambda>f. f \<notin> set inputs) fs) + mset inputs" by (simp only:)
  then show ?thesis by (simp only: mset_append sum image_mset_union sum_mset.union)
qed

definition compacted_part :: "duck \<Rightarrow> nat option \<Rightarrow> int \<Rightarrow> int \<Rightarrow> captured_event list \<Rightarrow> captured_event list \<Rightarrow> bool" where
  "compacted_part duck retention_days today d before now \<longleftrightarrow>
     now = before \<or> merged duck before now \<or> (\<exists>days. retention_days = Some days \<and> d < today - int days \<and> now = [])"

lemma compactor_step_outcome:
  assumes inv: "lake_inv lk" and step: "compactor_step cal env env' duck retention_days today lk = (res, lk')"
  shows "safe_step lk lk' \<and> db_tables (lk_db lk') = db_tables (lk_db lk) \<and> db_checkpoint (lk_db lk') = db_checkpoint (lk_db lk)
    \<and> (\<forall>pid d. compacted_part duck retention_days today d (part_events lk pid d) (part_events lk' pid d))"
proof -
  obtain r lk1 where r: "(case retention_days of None \<Rightarrow> (Inr 0, lk) | Some days \<Rightarrow> enforce_retention cal env days today lk) = (r, lk1)"
    by fastforce
  have "(\<exists>days. retention_days = Some days \<and> enforce_retention cal env days today lk = (r, lk1)) \<or> r = Inr 0 \<and> lk1 = lk"
    using r by (auto split: option.splits)
  then have first: "safe_step lk lk1 \<and> db_tables (lk_db lk1) = db_tables (lk_db lk) \<and> db_checkpoint (lk_db lk1) = db_checkpoint (lk_db lk)
      \<and> (\<forall>pid d. compacted_part duck retention_days today d (part_events lk pid d) (part_events lk1 pid d))
      \<and> (r = Inr 0 \<longrightarrow> lk1 = lk)"
    using enforce_retention_outcome [OF inv, of cal env _ today r lk1] inv
    by (cases r) (auto simp: compacted_part_def)
  show ?thesis
  proof (cases "r = Inr 0")
    case False
    then have "lk' = lk1" using step r by (auto simp: compactor_step_def split: sum.splits)
    then show ?thesis using first by simp
  next
    case True
    then have lk1: "lk1 = lk" using first by simp
    show ?thesis
    proof (cases "next_merge lk today")
      case None
      then have "lk' = lk" using step r True lk1 by (auto simp: compactor_step_def)
      then show ?thesis using inv by (simp add: compacted_part_def)
    next
      case (Some pi)
      obtain p inputs where pi: "pi = (p, inputs)" by fastforce
      obtain r2 where m: "merge_files cal env' duck p inputs lk = (r2, lk')"
        using step r True lk1 Some pi by (auto simp: compactor_step_def split: prod.splits sum.splits)
      have inputs: "set inputs \<subseteq> set (part_files lk (pt_project p) (pt_day p))"
        by (rule next_merge_inputs [OF inv Some [unfolded pi]])
      have p: "p \<in> set (partitions lk)" "inputs = merge_inputs p today"
        using last_max_by_in [OF Some [unfolded pi next_merge_def]] by auto
      have "distinct inputs"
        using merge_inputs_distinct [of p today] in_partitions [OF lake_invD(1) [OF inv] p(1)] lake_invD(4) [OF inv]
        by (simp add: p(2) partition_of_def)
      then have parts: "mset (part_events lk (pt_project p) (pt_day p)) =
          mset (kept_events lk inputs (pt_project p) (pt_day p) @ concat (map (file_events (lk_disk lk)) inputs))"
        unfolding part_events_def kept_events_def by (rule mset_split_files [OF lake_invD(4) [OF inv] _ inputs])
      note o = merge_files_outcome [OF inv inputs m]
      show ?thesis
      proof (cases r2)
        case (Inl e)
        then show ?thesis using o by (simp add: unchanged_def compacted_part_def)
      next
        case (Inr c)
        then have safe: "safe_step lk lk'"
          and db: "lk_db lk' = (lk_db lk)\<lparr>db_generation := db_generation (lk_db lk) + 1, db_rows := db_rows (lk_db lk')\<rparr>"
          and events: "part_events lk' pid d = (if (pid, d) = (pt_project p, pt_day p)
              then kept_events lk inputs pid d @ duck (concat (map (file_events (lk_disk lk)) inputs))
              else part_events lk pid d)" for pid d
          using o by simp_all
        have "merged duck (part_events lk pid d) (part_events lk' pid d)" if "(pid, d) = (pt_project p, pt_day p)" for pid d
          using parts that unfolding merged_def events by auto
        then have "compacted_part duck retention_days today d (part_events lk pid d) (part_events lk' pid d)" for pid d
          using events [of pid d] by (auto simp: compacted_part_def)
        moreover have "db_tables (lk_db lk') = db_tables (lk_db lk)" "db_checkpoint (lk_db lk') = db_checkpoint (lk_db lk)"
          by (subst db; simp)+
        ultimately show ?thesis using safe by blast
      qed
    qed
  qed
qed

section \<open>Sweeping\<close>

lemma sweep_outcome:
  assumes inv: "lake_inv lk" and step: "sweep_graveyard held unlinked deleted lk = (n, lk')"
  shows "lake_inv lk'" and "part_files lk' pid d = part_files lk pid d"
    and "f \<in> reachable_files lk \<Longrightarrow> held f \<or> f \<in> set (live_files (db_rows (lk_db lk)))
      \<Longrightarrow> f \<in> reachable_files lk' \<and> lk_disk lk' (lf_path f) = lk_disk lk (lf_path f)"
    and "n = length (filter (\<lambda>f. \<not> held f \<and> unlinked (lf_path f)) (lk_graveyard lk))"
proof -
  let ?rows = "db_rows (lk_db lk)"
  let ?gone = "filter (\<lambda>f. \<not> held f \<and> unlinked (lf_path f)) (lk_graveyard lk)"
  note inv' = lake_invD [OF inv]
  have lk': "lk' = lk\<lparr>lk_graveyard := filter (\<lambda>f. held f \<or> \<not> unlinked (lf_path f)) (lk_graveyard lk),
      lk_disk := (\<lambda>p. if p \<in> set (map lf_path ?gone) then None else lk_disk lk p),
      lk_db := (lk_db lk)\<lparr>db_rows := filter (\<lambda>r. \<not> (lf_id (fr_file r) \<in> set (map lf_id ?gone)
        \<and> deleted (lf_id (fr_file r)))) ?rows\<rparr>\<rparr>" and n: "n = length ?gone"
    using step by (auto simp: sweep_graveyard_def Let_def)
  show "n = length ?gone" by (rule n)
  show parts: "part_files lk' pid d = part_files lk pid d" for pid d by (simp add: lk' part_files_def)
  have row: "\<exists>r \<in> set ?rows. fr_file r = f" if "f \<in> reachable_files lk" for f
    using that inv'(6) by (auto simp: reachable_files_def live_files_def retired_files_def)
  have ids: "inj_on (lf_id \<circ> fr_file) (set ?rows)" and paths: "inj_on (lf_path \<circ> fr_file) (set ?rows)"
    using inv'(3) by (simp_all add: rows_ok_def distinct_map)
  have grave: "\<exists>r \<in> set ?rows. fr_file r = g \<and> fr_retired r \<noteq> None" if "g \<in> set (lk_graveyard lk)" for g
  proof -
    have "g \<in> set (retired_files ?rows)" using that inv'(6) by blast
    then show ?thesis by (auto simp: retired_files_def)
  qed
  have live: "\<exists>r \<in> set ?rows. fr_file r = g \<and> fr_retired r = None" if "g \<in> set (live_files ?rows)" for g
    using that by (auto simp: live_files_def)
  have apart: "lf_id f \<noteq> lf_id g \<and> lf_path f \<noteq> lf_path g"
    if "f \<in> reachable_files lk" "g \<in> set (lk_graveyard lk)" "f \<noteq> g" for f g
  proof -
    note fg = that
    obtain r where "r \<in> set ?rows" "fr_file r = f" using row [OF fg(1)] by blast
    moreover obtain s where "s \<in> set ?rows" "fr_file s = g" using grave [OF fg(2)] by blast
    ultimately show ?thesis using fg(3) inj_onD [OF ids, of r s] inj_onD [OF paths, of r s] by auto
  qed
  have disjoint: "f \<notin> set (live_files ?rows)" if buried: "f \<in> set (lk_graveyard lk)" for f
  proof
    assume "f \<in> set (live_files ?rows)"
    then obtain s where "s \<in> set ?rows" "fr_file s = f" "fr_retired s = None" using live by blast
    moreover obtain r where "r \<in> set ?rows" "fr_file r = f" "fr_retired r \<noteq> None" using grave [OF buried] by blast
    ultimately show False using inj_onD [OF ids, of r s] by auto
  qed
  have stays: "f \<in> reachable_files lk' \<and> lk_disk lk' (lf_path f) = lk_disk lk (lf_path f)"
    if f: "f \<in> reachable_files lk" "held f \<or> \<not> unlinked (lf_path f) \<or> f \<in> set (live_files ?rows)" for f
  proof -
    have "f \<notin> set ?gone" using f(2) disjoint by auto
    then have "lf_id f \<notin> set (map lf_id ?gone)" "lf_path f \<notin> set (map lf_path ?gone)"
      using apart [OF f(1)] by fastforce+
    then have "f \<in> set (live_files (db_rows (lk_db lk'))) \<or> f \<in> set (lk_graveyard lk')"
      using f by (auto simp: lk' reachable_files_def live_files_def)
    then show ?thesis using \<open>lf_path f \<notin> _\<close> by (auto simp: lk' reachable_files_def)
  qed
  then show "f \<in> reachable_files lk \<Longrightarrow> held f \<or> f \<in> set (live_files ?rows)
      \<Longrightarrow> f \<in> reachable_files lk' \<and> lk_disk lk' (lf_path f) = lk_disk lk (lf_path f)" by blast
  have lives: "set (live_files (db_rows (lk_db lk'))) = set (live_files ?rows)"
  proof
    show "set (live_files (db_rows (lk_db lk'))) \<subseteq> set (live_files ?rows)" by (auto simp: lk' live_files_def)
    have "lf_id f \<notin> set (map lf_id ?gone)" if "f \<in> set (live_files ?rows)" for f
      using apart [of f] that disjoint by (fastforce simp: reachable_files_def)
    then show "set (live_files ?rows) \<subseteq> set (live_files (db_rows (lk_db lk')))"
      by (auto simp: lk' live_files_def)
  qed
  have graves: "f \<in> set (retired_files (db_rows (lk_db lk')))" if "f \<in> set (lk_graveyard lk')" for f
  proof -
    have f: "f \<in> set (lk_graveyard lk)" "held f \<or> \<not> unlinked (lf_path f)" using that by (simp_all add: lk')
    obtain r where r: "r \<in> set ?rows" "fr_file r = f" "fr_retired r \<noteq> None" using grave [OF f(1)] by blast
    have "lf_id f \<notin> set (map lf_id ?gone)"
      using apart [of f] f by (fastforce simp: reachable_files_def)
    then show ?thesis using r by (auto simp: lk' retired_files_def)
  qed
  have "lk_disk lk' (lf_path f) \<noteq> None" if "f \<in> set (live_files (db_rows (lk_db lk'))) \<union> set (lk_graveyard lk')" for f
  proof -
    have "f \<in> reachable_files lk" "held f \<or> \<not> unlinked (lf_path f) \<or> f \<in> set (live_files ?rows)"
      using that by (auto simp: lives) (auto simp: lk' reachable_files_def)
    then show ?thesis using stays inv'(7,8) [of f] by (auto simp: reachable_files_def)
  qed
  then show "lake_inv lk'"
    using inv'(1,2,3,4,5) graves rows_ok_filter [OF inv'(3)]
    unfolding lake_inv_def Let_def parts lives by (auto simp: lk')
qed

end
