(* ===== verification/LakeErasure.thy ===== *)
theory LakeErasure
  imports LakeRun
begin

text \<open>
  Erasing a person on the publisher's thread, the functions \<open>erase\<close>, \<open>resume_pending_erasures\<close> and
  \<open>clear_pending\<close> of \<open>src/sink.rs\<close>: the identity goes first, with its distinct ids noted as pending in the same
  transaction; then the event files are rewritten; then the notes go. What was interrupted in between is
  finished before anything newer is published.
\<close>

definition set_tables :: "tables \<Rightarrow> lake \<Rightarrow> lake" where
  "set_tables t lk = lk\<lparr>lk_db := (lk_db lk)\<lparr>db_tables := t\<rparr>\<rparr>"

record erasure_report =
  er_distinct_ids :: nat
  er_events :: nat

datatype erasure_error = ErasureLake lake_error | ErasurePublish

definition clear_pending :: "bool \<Rightarrow> string \<Rightarrow> string list \<Rightarrow> lake \<Rightarrow> (erasure_error + unit) \<times> lake" where
  "clear_pending works pid ids lk =
     (if works then (Inr (), set_tables (clear_pending_erasures pid ids (db_tables (lk_db lk))) lk)
      else (Inl ErasurePublish, lk))"

text \<open>\<open>compactor.erase\<close>, then \<open>clear_pending\<close>.\<close>

definition erase_and_clear ::
    "calendar \<Rightarrow> lake_env \<Rightarrow> bool \<Rightarrow> duck \<Rightarrow> string \<Rightarrow> string list \<Rightarrow> lake \<Rightarrow> (erasure_error + nat) \<times> lake" where
  "erase_and_clear cal env works duck pid ids lk =
     (case erase_events cal env duck pid ids lk of
        (Inl e, lk1) \<Rightarrow> (Inl (ErasureLake e), lk1)
      | (Inr n, lk1) \<Rightarrow>
          (case clear_pending works pid ids lk1 of
             (Inl e, lk2) \<Rightarrow> (Inl e, lk2)
           | (Inr _, lk2) \<Rightarrow> (Inr n, lk2)))"

text \<open>\<open>committed\<close>: the transaction on the identity tables works; group \<open>i\<close> of a resumption meets \<open>envs i\<close>.\<close>

definition erase ::
    "calendar \<Rightarrow> lake_env \<Rightarrow> bool \<Rightarrow> bool \<Rightarrow> duck \<Rightarrow> string \<Rightarrow> string \<Rightarrow> lake \<Rightarrow> (erasure_error + erasure_report) \<times> lake" where
  "erase cal env committed works duck pid person_id lk =
     (let (ids, t) = erase_person pid person_id (db_tables (lk_db lk)) in
      if \<not> committed then (Inl (ErasureLake LakeDatabase), lk)
      else case erase_and_clear cal env works duck pid ids (set_tables t lk) of
        (Inl e, lk1) \<Rightarrow> (Inl e, lk1)
      | (Inr n, lk1) \<Rightarrow> (Inr \<lparr>er_distinct_ids = length ids, er_events = n\<rparr>, lk1))"

fun resume_groups ::
    "calendar \<Rightarrow> (nat \<Rightarrow> lake_env) \<Rightarrow> (nat \<Rightarrow> bool) \<Rightarrow> duck \<Rightarrow> nat \<Rightarrow> (string \<times> string list) list \<Rightarrow> lake
     \<Rightarrow> (erasure_error + unit) \<times> lake" where
  "resume_groups cal envs works duck i [] lk = (Inr (), lk)"
| "resume_groups cal envs works duck i ((pid, ids) # rest) lk =
     (case erase_and_clear cal (envs i) (works i) duck pid ids lk of
        (Inl e, lk1) \<Rightarrow> (Inl e, lk1)
      | (Inr n, lk1) \<Rightarrow> resume_groups cal envs works duck (i + 1) rest lk1)"

definition resume_pending_erasures ::
    "calendar \<Rightarrow> (nat \<Rightarrow> lake_env) \<Rightarrow> bool \<Rightarrow> (nat \<Rightarrow> bool) \<Rightarrow> duck \<Rightarrow> lake \<Rightarrow> (erasure_error + unit) \<times> lake" where
  "resume_pending_erasures cal envs readable works duck lk =
     (if readable then resume_groups cal envs works duck 0 (pending_erasures (pending (db_tables (lk_db lk)))) lk
      else (Inl ErasurePublish, lk))"

section \<open>Tables\<close>

lemma set_tables_simps [simp]:
  "lk_disk (set_tables t lk) = lk_disk lk" "lk_current (set_tables t lk) = lk_current lk"
  "lk_graveyard (set_tables t lk) = lk_graveyard lk" "db_tables (lk_db (set_tables t lk)) = t"
  "db_rows (lk_db (set_tables t lk)) = db_rows (lk_db lk)"
  "db_generation (lk_db (set_tables t lk)) = db_generation (lk_db lk)"
  "db_checkpoint (lk_db (set_tables t lk)) = db_checkpoint (lk_db lk)"
  by (simp_all add: set_tables_def)

lemma set_tables_parts [simp]:
  "part_files (set_tables t lk) pid d = part_files lk pid d" "part_events (set_tables t lk) pid d = part_events lk pid d"
  by (simp_all add: part_files_def part_events_def)

lemma set_tables_safe: "lake_inv lk \<Longrightarrow> safe_step lk (set_tables t lk)"
  by (auto simp: safe_step_def lake_inv_def Let_def reachable_files_def)

section \<open>Effects\<close>

text \<open>An erasure of \<open>ids\<close> touches nothing but the partitions of its project, keeps what is not theirs (up to
  copies) and, when it succeeds, leaves nothing of theirs.\<close>

definition without :: "string list \<Rightarrow> captured_event list \<Rightarrow> captured_event list \<Rightarrow> bool" where
  "without ids before now \<longleftrightarrow>
     set now \<subseteq> set before \<and> uuid ` {e \<in> set now. \<not> of_ids ids e} = uuid ` {e \<in> set before. \<not> of_ids ids e}"

lemma without_refl [simp]: "without ids evs evs"
  by (simp add: without_def)

lemma erased_without:
  assumes "keeps_first_copies duck"
  shows "without ids evs (erased duck ids evs)" and "e \<in> set (erased duck ids evs) \<Longrightarrow> \<not> of_ids ids e"
proof -
  let ?rest = "filter (\<lambda>e. \<not> of_ids ids e) evs"
  have duck: "set (duck ?rest) \<subseteq> set ?rest" "uuid ` set (duck ?rest) = uuid ` set ?rest"
    using assms unfolding keeps_first_copies_def by blast+
  have "{e \<in> set (duck ?rest). \<not> of_ids ids e} = set (duck ?rest)" using duck(1) by auto
  then show "without ids evs (erased duck ids evs)" using duck by (auto simp: without_def erased_def)
  show "e \<in> set (erased duck ids evs) \<Longrightarrow> \<not> of_ids ids e"
    using duck(1) by (auto simp: erased_def list_ex_iff split: if_splits)
qed

lemma erase_and_clear_outcome:
  assumes inv: "lake_inv lk" and duck: "keeps_first_copies duck"
    and step: "erase_and_clear cal env works duck pid ids lk = (res, lk')"
  shows "safe_step lk lk' \<and> (\<forall>pid' d. pid' \<noteq> pid \<longrightarrow> part_events lk' pid' d = part_events lk pid' d)
    \<and> (\<forall>d. without ids (part_events lk pid d) (part_events lk' pid d))
    \<and> (case res of
         Inl e \<Rightarrow> db_tables (lk_db lk') = db_tables (lk_db lk)
       | Inr n \<Rightarrow> db_tables (lk_db lk') = clear_pending_erasures pid ids (db_tables (lk_db lk))
           \<and> (\<forall>d. \<forall>e \<in> set (part_events lk' pid d). \<not> of_ids ids e))"
proof -
  obtain r lk1 where r: "erase_events cal env duck pid ids lk = (r, lk1)" by fastforce
  note o = erase_events_outcome [OF inv r]
  have first: "safe_step lk lk1" using o by blast
  note inv1 = safe_step_inv [OF first]
  have parts: "without ids (part_events lk pid d) (part_events lk1 pid d)" for d
    using o erased_without(1) [OF duck] by (metis without_refl)
  show ?thesis
  proof (cases r)
    case (Inl e)
    then have "lk' = lk1" "res = Inl (ErasureLake e)" using step r by (simp_all add: erase_and_clear_def)
    then show ?thesis using o parts by auto
  next
    case (Inr n)
    then have gone: "\<not> of_ids ids e" if "e \<in> set (part_events lk1 pid d)" for e d
      using o erased_without(2) [OF duck, of e ids "part_events lk pid d"] that by auto
    have "lk' = lk1 \<and> is_ok res = False \<or> lk' = set_tables (clear_pending_erasures pid ids (db_tables (lk_db lk1))) lk1 \<and> is_ok res"
      using step r Inr by (auto simp: erase_and_clear_def clear_pending_def split: if_splits)
    then show ?thesis
    proof
      assume "lk' = lk1 \<and> is_ok res = False"
      then show ?thesis using o parts by (cases res) auto
    next
      assume "lk' = set_tables (clear_pending_erasures pid ids (db_tables (lk_db lk1))) lk1 \<and> is_ok res"
      then show ?thesis
        using o parts gone safe_step_trans [OF first set_tables_safe [OF inv1]] by (cases res) auto
    qed
  qed
qed

section \<open>Resumption\<close>

definition noted :: "string \<Rightarrow> (string \<times> string) list \<Rightarrow> string list" where
  "noted pid rows = map snd (filter (\<lambda>(p, _). p = pid) rows)"

text \<open>The groups hold the first ids of each project, up to the cap.\<close>

lemma pending_erasures_groups:
  "distinct (map fst (pending_erasures rows)) \<and>
   map_of (pending_erasures rows) pid =
     (if noted pid rows = [] then None else Some (take max_pending_erasures_per_project (noted pid rows)))"
proof (induction rows rule: rev_induct)
  case Nil
  then show ?case by (simp add: pending_erasures_def noted_def)
next
  case (snoc r rows)
  obtain p d where r: "r = (p, d)" by fastforce
  let ?ids = "case map_of (pending_erasures rows) p of None \<Rightarrow> [] | Some ids \<Rightarrow> ids"
  have step: "pending_erasures (rows @ [r]) = AList.update p
      (if length ?ids < max_pending_erasures_per_project then ?ids @ [d] else ?ids) (pending_erasures rows)"
    by (simp add: pending_erasures_def r Let_def)
  have "noted pid (rows @ [r]) = noted pid rows @ (if p = pid then [d] else [])" by (simp add: noted_def r)
  moreover have "0 < max_pending_erasures_per_project" by (simp add: max_pending_erasures_per_project_def)
  ultimately show ?case
    using snoc by (auto simp: step distinct_update update_conv' split: if_splits)
qed

lemma clear_pending_set:
  "set (pending (clear_pending_erasures pid ids t)) = set (pending t) - Pair pid ` set ids"
proof -
  have "set (fold (\<lambda>d. filter (\<lambda>row. row \<noteq> (pid, d))) ids rows) = set rows - Pair pid ` set ids" for rows
    by (induction ids arbitrary: rows) auto
  then show ?thesis by (simp add: clear_pending_erasures_def)
qed

lemma resume_groups_outcome:
  assumes "lake_inv lk" and duck: "keeps_first_copies duck" and "distinct (map fst gs)"
    and "resume_groups cal envs works duck i gs lk = (res, lk')"
  shows "safe_step lk lk' \<and> (\<forall>pid d. pid \<notin> fst ` set gs \<longrightarrow> part_events lk' pid d = part_events lk pid d)
    \<and> (\<forall>(pid, ids) \<in> set gs. \<forall>d. without ids (part_events lk pid d) (part_events lk' pid d))
    \<and> (is_ok res \<longrightarrow> (\<forall>(pid, ids) \<in> set gs. \<forall>d. \<forall>e \<in> set (part_events lk' pid d). \<not> of_ids ids e)
        \<and> set (pending (db_tables (lk_db lk'))) = set (pending (db_tables (lk_db lk))) - {(pid, d). \<exists>ids. (pid, ids) \<in> set gs \<and> d \<in> set ids})"
  using assms
proof (induction gs arbitrary: i lk)
  case Nil
  then show ?case by auto
next
  case (Cons g gs)
  obtain pid ids where g: "g = (pid, ids)" by fastforce
  obtain r lk1 where r: "erase_and_clear cal (envs i) (works i) duck pid ids lk = (r, lk1)" by fastforce
  note one = erase_and_clear_outcome [OF Cons.prems(1) duck r]
  have first: "safe_step lk lk1" using one by blast
  have pid: "pid \<notin> fst ` set gs" using Cons.prems(3) by (simp add: g)
  have others: "part_events lk1 pid' d = part_events lk pid' d" if "pid' \<noteq> pid" for pid' d using one that by blast
  have here: "without ids (part_events lk pid d) (part_events lk1 pid d)" for d using one by blast
  have different: "pid' \<noteq> pid" if "(pid', ids') \<in> set gs" for pid' ids' using pid that by force
  show ?case
  proof (cases r)
    case (Inl e)
    then have "lk' = lk1" "res = Inl e" using Cons.prems(4) r g by auto
    then show ?thesis using first others here different by (auto simp: g)
  next
    case (Inr n)
    then have rest: "resume_groups cal envs works duck (i + 1) gs lk1 = (res, lk')" using Cons.prems(4) r g by simp
    have gs: "distinct (map fst gs)" using Cons.prems(3) by simp
    note IH = Cons.IH [OF safe_step_inv [OF first] duck gs rest]
    have gone: "\<forall>d. \<forall>e \<in> set (part_events lk1 pid d). \<not> of_ids ids e"
      and cleared: "set (pending (db_tables (lk_db lk1))) = set (pending (db_tables (lk_db lk))) - Pair pid ` set ids"
      using one Inr by (simp_all add: clear_pending_set)
    have after: "part_events lk' pid d = part_events lk1 pid d" for d using IH pid by blast
    have later: "without ids' (part_events lk pid' d) (part_events lk' pid' d)" if "(pid', ids') \<in> set gs" for pid' ids' d
      using IH that others [OF different [OF that]] by fastforce
    have "safe_step lk lk'" using safe_step_trans [OF first] IH by blast
    moreover have "part_events lk' pid' d = part_events lk pid' d" if "pid' \<notin> fst ` set (g # gs)" for pid' d
      using that IH others by (simp add: g)
    moreover have "set (pending (db_tables (lk_db lk'))) = set (pending (db_tables (lk_db lk)))
        - {(pid', d). \<exists>ids'. (pid', ids') \<in> set (g # gs) \<and> d \<in> set ids'}" if "is_ok res"
      using IH that cleared by (auto simp: g)
    moreover have "\<not> of_ids ids' e" if "is_ok res" "(pid', ids') \<in> set (g # gs)" "e \<in> set (part_events lk' pid' d)" for pid' ids' d e
      using IH that gone after by (auto simp: g)
    moreover have "without ids' (part_events lk pid' d) (part_events lk' pid' d)" if "(pid', ids') \<in> set (g # gs)" for pid' ids' d
      using that here later after by (auto simp: g)
    ultimately show ?thesis by blast
  qed
qed

lemma resume_outcome:
  assumes inv: "lake_inv lk" and duck: "keeps_first_copies duck"
    and cap: "\<And>pid. length (noted pid (pending (db_tables (lk_db lk)))) \<le> max_pending_erasures_per_project"
    and step: "resume_pending_erasures cal envs readable works duck lk = (Inr u, lk')"
  shows "safe_step lk lk'" and "pending (db_tables (lk_db lk')) = []"
    and "\<forall>(pid, d) \<in> set (pending (db_tables (lk_db lk))). \<forall>day. \<forall>e \<in> set (part_events lk' pid day). distinct_id e \<noteq> d"
proof -
  let ?rows = "pending (db_tables (lk_db lk))"
  let ?gs = "pending_erasures ?rows"
  have run: "resume_groups cal envs works duck 0 ?gs lk = (Inr u, lk')"
    using step by (simp add: resume_pending_erasures_def split: if_splits)
  have distinct: "distinct (map fst ?gs)" using pending_erasures_groups by blast
  note o = resume_groups_outcome [OF inv duck distinct run]
  show "safe_step lk lk'" using o by blast
  have group: "(pid, noted pid ?rows) \<in> set ?gs" "d \<in> set (noted pid ?rows)" if "(pid, d) \<in> set ?rows" for pid d
  proof -
    show d: "d \<in> set (noted pid ?rows)" using that by (force simp: noted_def)
    have "map_of ?gs pid = Some (take max_pending_erasures_per_project (noted pid ?rows))"
      using pending_erasures_groups [of ?rows pid] d by auto
    then show "(pid, noted pid ?rows) \<in> set ?gs" using cap [of pid] by (auto dest: map_of_SomeD)
  qed
  have in_group: "\<exists>ids. (pid, ids) \<in> set ?gs \<and> d \<in> set ids" if "(pid, d) \<in> set ?rows" for pid d
    using group [OF that] by blast
  have "set (pending (db_tables (lk_db lk'))) =
      set ?rows - {(pid, d). \<exists>ids. (pid, ids) \<in> set ?gs \<and> d \<in> set ids}" using o by simp
  then have "set (pending (db_tables (lk_db lk'))) = {}" using in_group by auto
  then show "pending (db_tables (lk_db lk')) = []" by simp
  have gone: "\<not> of_ids ids e" if "(pid, ids) \<in> set ?gs" "e \<in> set (part_events lk' pid day)" for pid ids e day
    using o that by auto
  show "\<forall>(pid, d) \<in> set ?rows. \<forall>day. \<forall>e \<in> set (part_events lk' pid day). distinct_id e \<noteq> d"
    using gone in_group by (fastforce simp: of_ids_def)
qed

end
