(* ===== verification/LakeLife.thy ===== *)
theory LakeLife
  imports LakeErasure WalReaderCorrect
begin

text \<open>
  The life of the lake as a step relation, and a publication together with the log it reads: what a window
  yields is what the lake gains, and the checkpoint moves past exactly that.
\<close>

section \<open>Runs\<close>

type_synonym holdings = "(lake_file \<times> captured_event list) list"

text \<open>A lease notes its files and what they hold.\<close>

definition lease_holdings :: "lake \<Rightarrow> lease \<Rightarrow> holdings" where
  "lease_holdings lk ls = map (\<lambda>f. (f, file_events (lk_disk lk) f)) (ls_files ls)"

text \<open>A crash loses the snapshot and the graveyard; the disk keeps the files of the live rows.\<close>

definition survives :: "lake \<Rightarrow> disk \<Rightarrow> bool" where
  "survives lk d \<longleftrightarrow> (\<forall>f \<in> set (live_files (db_rows (lk_db lk))). d (lf_path f) = lk_disk lk (lf_path f))"

inductive lake_run :: "calendar \<Rightarrow> externals \<Rightarrow> duck \<Rightarrow> lake \<Rightarrow> holdings \<Rightarrow> bool" for cal ex duck where
  life_start: "lake_open unlinked orphans_gone empty_lake_db d = Inr lk \<Longrightarrow> lake_run cal ex duck lk []"
| life_publish: "lake_run cal ex duck lk hs \<Longrightarrow> publish_records cal ex env bs c lk = (res, lk')
    \<Longrightarrow> lake_run cal ex duck lk' hs"
| life_compact: "lake_run cal ex duck lk hs \<Longrightarrow> compactor_step cal env env' duck days today lk = (res, lk')
    \<Longrightarrow> lake_run cal ex duck lk' hs"
| life_erase: "lake_run cal ex duck lk hs \<Longrightarrow> erase_events cal env duck pid ids lk = (res, lk')
    \<Longrightarrow> lake_run cal ex duck lk' hs"
| life_tables: "lake_run cal ex duck lk hs \<Longrightarrow> lake_run cal ex duck (set_tables t lk) hs"
| life_lease: "lake_run cal ex duck lk hs \<Longrightarrow> lake_run cal ex duck lk (hs @ lease_holdings lk (lake_lease lk pid a b))"
| life_drop: "lake_run cal ex duck lk hs \<Longrightarrow> set hs' \<subseteq> set hs \<Longrightarrow> lake_run cal ex duck lk hs'"
| life_sweep: "lake_run cal ex duck lk hs \<Longrightarrow> \<forall>(f, _) \<in> set hs. held f
    \<Longrightarrow> sweep_graveyard held unlinked deleted lk = (n, lk') \<Longrightarrow> lake_run cal ex duck lk' hs"
| life_crash: "lake_run cal ex duck lk hs \<Longrightarrow> survives lk d \<Longrightarrow> lake_open unlinked orphans_gone (lk_db lk) d = Inr lk'
    \<Longrightarrow> lake_run cal ex duck lk' []"

definition holds :: "lake \<Rightarrow> holdings \<Rightarrow> bool" where
  "holds lk hs \<longleftrightarrow> (\<forall>(f, evs) \<in> set hs. f \<in> reachable_files lk \<and> lk_disk lk (lf_path f) = Some evs)"

lemma holds_step: "safe_step lk lk' \<Longrightarrow> holds lk hs \<Longrightarrow> holds lk' hs"
  by (fastforce simp: holds_def safe_step_def)

lemma empty_db_rows: "rows_ok (db_generation empty_lake_db) (db_rows empty_lake_db)"
  by (simp add: empty_lake_db_def rows_ok_def)

lemma lake_run_inv:
  assumes "lake_run cal ex duck lk hs"
  shows "lake_inv lk \<and> holds lk hs"
  using assms
proof (induction rule: lake_run.induct)
  case (life_start unlinked orphans_gone d lk)
  then show ?case using lake_open_outcome(1) [OF empty_db_rows] by (simp add: holds_def)
next
  case (life_publish lk hs env bs c res lk')
  then have "safe_step lk lk'" using publish_records_outcome by blast
  then show ?case using life_publish.IH holds_step safe_step_inv by blast
next
  case (life_compact lk hs env env' days today res lk')
  then have "safe_step lk lk'" using compactor_step_outcome by blast
  then show ?case using life_compact.IH holds_step safe_step_inv by blast
next
  case (life_erase lk hs env pid ids res lk')
  then have "safe_step lk lk'" using erase_events_outcome by blast
  then show ?case using life_erase.IH holds_step safe_step_inv by blast
next
  case (life_tables lk hs t)
  then have "safe_step lk (set_tables t lk)" using set_tables_safe by blast
  then show ?case using life_tables.IH holds_step safe_step_inv by blast
next
  case (life_lease lk hs pid a b)
  then have inv: "lake_inv lk" by blast
  have "f \<in> reachable_files lk \<and> lk_disk lk (lf_path f) = Some (file_events (lk_disk lk) f)"
    if leased: "f \<in> set (ls_files (lake_lease lk pid a b))" for f
  proof -
    obtain d where d: "f \<in> set (part_files lk pid d)" using lease_in_parts [OF lake_invD(1) [OF inv] leased] by blast
    then have "f \<in> set (live_files (db_rows (lk_db lk)))" using lake_invD(5) [OF inv] by simp
    then show ?thesis using lake_invD(7) [OF inv] by (auto simp: reachable_files_def file_events_def split: option.splits)
  qed
  then show ?case using life_lease.IH by (auto simp: holds_def lease_holdings_def)
next
  case (life_drop lk hs hs')
  then show ?case by (auto simp: holds_def)
next
  case (life_sweep lk hs held unlinked deleted n lk')
  then have inv: "lake_inv lk" by blast
  note o = sweep_outcome [OF inv life_sweep.hyps(3)]
  have "holds lk' hs"
    unfolding holds_def
  proof
    fix h assume h: "h \<in> set hs"
    obtain f evs where fe: "h = (f, evs)" by fastforce
    have "f \<in> reachable_files lk" "lk_disk lk (lf_path f) = Some evs" "held f"
      using life_sweep.IH life_sweep.hyps(2) h fe by (auto simp: holds_def)
    then show "case h of (f, evs) \<Rightarrow> f \<in> reachable_files lk' \<and> lk_disk lk' (lf_path f) = Some evs"
      using o(3) [of f] fe by simp
  qed
  then show ?case using o(1) by blast
next
  case (life_crash lk hs d unlinked orphans_gone lk')
  then show ?case using lake_open_outcome(1) [OF lake_invD(3)] by (auto simp: holds_def)
qed

section \<open>Crashes\<close>

lemma reopen_after_crash:
  assumes inv: "lake_inv lk" and d: "survives lk d"
  shows "\<exists>lk'. lake_open (\<lambda>_. True) True (lk_db lk) d = Inr lk' \<and> db_tables (lk_db lk') = db_tables (lk_db lk)
    \<and> db_checkpoint (lk_db lk') = db_checkpoint (lk_db lk)
    \<and> (\<forall>pid day. mset (part_events lk' pid day) = mset (part_events lk pid day))"
proof -
  have d': "d (lf_path f) = lk_disk lk (lf_path f)" if "f \<in> set (live_files (db_rows (lk_db lk)))" for f
    using d that by (simp add: survives_def)
  obtain lk' where op: "lake_open (\<lambda>_. True) True (lk_db lk) d = Inr lk'"
    using lake_open_works [OF lake_invD(3) [OF inv], of d] d' lake_invD(7) [OF inv] by auto
  show ?thesis
    using op lake_open_outcome(2) [OF lake_invD(3) [OF inv] op] lake_open_events [OF inv op d'] by auto
qed

section \<open>A publication and the log\<close>

text \<open>The lake \<open>lk'\<close> is \<open>lk\<close> with the batches \<open>bs\<close> published.\<close>

definition published_batches :: "calendar \<Rightarrow> externals \<Rightarrow> captured_batch list \<Rightarrow> lake \<Rightarrow> lake \<Rightarrow> bool" where
  "published_batches cal ex bs lk lk' \<longleftrightarrow>
     (\<exists>pes t. bound_events bs = Some pes
       \<and> apply_events ex (first_by event_key pes) (db_tables (lk_db lk)) = Inr t
       \<and> db_tables (lk_db lk') = batch_flush (batch_add_all ex (first_by event_key pes)) t
       \<and> (\<forall>pid day. part_events lk' pid day = part_events lk pid day
            @ by_event_and_time (map snd (filter (\<lambda>pe. event_day cal pe = (pid, day)) (first_by event_key pes)))))"

lemma published_nothing: 
  assumes "\<forall>pid day. part_events lk' pid day = part_events lk pid day" and "db_tables (lk_db lk') = db_tables (lk_db lk)"
  shows "published_batches cal ex [] lk lk'"
  using assms
  by (simp add: published_batches_def batch_add_all_def catalog_batch_default_def batch_flush_def flush_values_def
      by_event_and_time_def)

lemma publish_window_outcome:
  assumes inv: "lake_inv lk" and r: "dir_repr (we_codec we) (max_record_bytes (we_config we)) (we_opens we 0) l"
    and ne: "[] \<notin> set (log_sealed l)" and c: "cursor_pending (we_codec we) l (db_checkpoint (lk_db lk)) ps"
    and reads: "\<And>i. holds_sealed (we_codec we) (we_reads we i) l" and fuel: "length ps < we_fuel we"
  shows "\<exists>res lk' dir' n. publish_window cal ex env we lk dir = Some (res, lk', dir')
    \<and> safe_step lk lk' \<and> n \<le> length ps \<and> published_batches cal ex (take n ps) lk lk'
    \<and> cursor_pending (we_codec we) l (db_checkpoint (lk_db lk')) (drop n ps)
    \<and> (res = Inr None \<longrightarrow> ps = []) \<and> (\<forall>p. res = Inr (Some p) \<longrightarrow> 0 < n)"
proof -
  have "0 < layout_race_attempts" by (simp add: layout_race_attempts_def)
  moreover have "(0 :: nat) < max_publication_wal_bytes" "max_publication_wal_bytes < u64_max"
    by (simp_all add: max_publication_wal_bytes_def u64_max_def)
  ultimately obtain w n rs w' where w: "read_window (we_codec we) (we_opens we) (we_config we) (db_checkpoint (lk_db lk))
        max_publication_wal_bytes = Inr w"
      "window_collect (we_fuel we) (we_codec we) (we_reads we) w = Some (Inr (rs, w'))"
      "n \<le> length ps" "map batch rs = take n ps" "ps \<noteq> [] \<longrightarrow> 0 < n"
      "cursor_pending (we_codec we) l (checkpoint w') (drop n ps)"
    using read_window_pending [where k = 0 and opens = "we_opens we" and reads = "we_reads we" and budget = max_publication_wal_bytes,
        OF _ _ r ne c _ _ reads fuel] by auto
  have collected: "collect_publication we (db_checkpoint (lk_db lk)) = Some (Inr (rs, w'))"
    using w(1,2) by (simp add: collect_publication_def)
  have untouched: "safe_step lk lk \<and> published_batches cal ex (take 0 ps) lk lk
      \<and> cursor_pending (we_codec we) l (db_checkpoint (lk_db lk)) (drop 0 ps)"
    using inv c published_nothing [of lk lk] by simp
  show ?thesis
  proof (cases "rs = []")
    case True
    then have "take n ps = []" using w(4) by simp
    then have ps: "ps = []" using w(5) by auto
    obtain r2 d2 where reclaim: "reclaim_through (we_unlinks we) (we_dirsync we) (we_codec we) dir (we_config we)
        (db_checkpoint (lk_db lk)) = (r2, d2)" by fastforce
    have "\<exists>res dir'. publish_window cal ex env we lk dir = Some (res, lk, dir') \<and> (res = Inr None \<or> (\<exists>e. res = Inl e))"
      using collected True reclaim
      by (cases r2; cases "checkpoint w' = db_checkpoint (lk_db lk)") (simp_all add: publish_window_def Let_def)
    then obtain res dir' where "publish_window cal ex env we lk dir = Some (res, lk, dir')" "res = Inr None \<or> (\<exists>e. res = Inl e)"
      by blast
    then show ?thesis using untouched ps by (intro exI [of _ res] exI [of _ lk] exI [of _ dir'] exI [of _ 0]) auto
  next
    case False
    then have n: "0 < n" using w(4) by (cases n) auto
    obtain r1 lk1 where pub: "publish_records cal ex env (map batch rs) (checkpoint w') lk = (r1, lk1)" by fastforce
    note o = publish_records_outcome [OF inv pub]
    show ?thesis
    proof (cases r1)
      case (Inl e)
      then have "publish_window cal ex env we lk dir = Some (Inl e, lk1, dir)"
        using collected False pub by (simp add: publish_window_def Let_def)
      moreover have "published_batches cal ex (take 0 ps) lk lk1" "lk_db lk1 = lk_db lk"
      proof -
        obtain d where d: "lk1 = lk\<lparr>lk_disk := d\<rparr>" "same_files lk d" using o Inl by auto
        then have "part_events lk1 pid day = part_events lk pid day" for pid day
          using disk_frame(3) [OF inv d(2)] by simp
        moreover show "lk_db lk1 = lk_db lk" by (simp add: d(1))
        ultimately show "published_batches cal ex (take 0 ps) lk lk1" using published_nothing [of lk1 lk] by simp
      qed
      ultimately show ?thesis
        using o c by (intro exI [of _ "Inl e"] exI [of _ lk1] exI [of _ dir] exI [of _ 0]) auto
    next
      case (Inr p)
      obtain r2 d2 where reclaim: "reclaim_through (we_unlinks we) (we_dirsync we) (we_codec we) dir (we_config we)
          (checkpoint w') = (r2, d2)" by fastforce
      have "\<exists>res dir'. publish_window cal ex env we lk dir = Some (res, lk1, dir') \<and> res \<noteq> Inr None"
        using collected False pub Inr reclaim by (cases r2) (simp_all add: publish_window_def Let_def)
      then obtain res dir' where res: "publish_window cal ex env we lk dir = Some (res, lk1, dir')" "res \<noteq> Inr None" by blast
      have db: "db_checkpoint (lk_db lk1) = checkpoint w'"
        and pubd: "published_batches cal ex (take n ps) lk lk1" and safe: "safe_step lk lk1"
      proof -
        obtain pes t where "bound_events (map batch rs) = Some pes"
          "apply_events ex (first_by event_key pes) (db_tables (lk_db lk)) = Inr t"
          and d: "lk_db lk1 = (lk_db lk)\<lparr>db_rows := db_rows (lk_db lk1),
             db_tables := batch_flush (batch_add_all ex (first_by event_key pes)) t,
             db_generation := db_generation (lk_db lk) + 1, db_checkpoint := checkpoint w'\<rparr>"
          and "\<forall>pid day. part_events lk1 pid day = part_events lk pid day
              @ by_event_and_time (map snd (filter (\<lambda>pe. event_day cal pe = (pid, day)) (first_by event_key pes)))"
          using o Inr by auto
        moreover have "db_checkpoint (lk_db lk1) = checkpoint w'"
          "db_tables (lk_db lk1) = batch_flush (batch_add_all ex (first_by event_key pes)) t"
          by (subst d; simp)+
        ultimately show "db_checkpoint (lk_db lk1) = checkpoint w'" "published_batches cal ex (take n ps) lk lk1"
          unfolding published_batches_def w(4) by blast+
        show "safe_step lk lk1" using o by blast
      qed
      show ?thesis
        using res safe pubd db w(3,6) n
        by (intro exI [of _ res] exI [of _ lk1] exI [of _ dir'] exI [of _ n]) auto
    qed
  qed
qed

end
