(* ===== verification/CaptureEvent.thy ===== *)
theory CaptureEvent
  imports Types Token
begin

text \<open>
  Body parsing and per-event resolution, \<open>src/capture/event.rs\<close>. The JSON parser and printer, the
  timestamp parsers and the range of \<open>chrono\<close>, and the parser and generator of UUIDs are the record
  \<open>capture_externals\<close>. \<open>uuid_v7 s n i\<close> is the identifier generated for the \<open>i\<close>-th event of a body from \<open>s\<close>
  seconds and \<open>n\<close> nanoseconds (the index stands for its random bits). Instants are nanoseconds.
\<close>

record capture_externals =
  read_json :: "string \<Rightarrow> json option"
  show_json :: "json \<Rightarrow> string"
  read_rfc3339 :: "string \<Rightarrow> instant option"
  read_naive :: "string \<Rightarrow> string \<Rightarrow> instant option"
  representable :: "instant \<Rightarrow> bool"
  read_uuid :: "string \<Rightarrow> 128 word option"
  uuid_v7 :: "nat \<Rightarrow> nat \<Rightarrow> nat \<Rightarrow> 128 word"

datatype malformed =
    InvalidJson | BatchNotArray | BodyShape | EventNotObject | MissingEventName | PropertiesNotObject
  | InvalidUuid | MissingDistinctId | NullDistinctId | EmptyDistinctId | BadOffset | BadTimestamp

datatype unauthorized = NoToken | InvalidToken

datatype capture_error = Malformed malformed | Unauthorized unauthorized

record parsed_batch =
  pb_events :: "captured_event list"
  pb_historical :: bool

definition max_distinct_id_chars :: nat where
  "max_distinct_id_chars = 200"

definition max_future_hours :: int where
  "max_future_hours = 23"

definition nanos_per_second :: int where
  "nanos_per_second = 1000000000"

definition nanos_per_milli :: int where
  "nanos_per_milli = 1000000"

section \<open>Timestamps\<close>

definition bare_offset :: "string \<Rightarrow> string option" where
  "bare_offset raw =
     (let n = length raw - 3; tail = drop n raw in
      if 3 < length raw \<and> \<not> is_cont (raw ! n) \<and> (hd tail = CHR ''+'' \<or> hd tail = CHR ''-'') \<and> list_all is_digit (tl tail)
      then Some (raw @ '':00'') else None)"

definition parse_timestamp :: "capture_externals \<Rightarrow> string \<Rightarrow> instant option" where
  "parse_timestamp cx raw =
     or_else (read_rfc3339 cx raw)
     (or_else (Option.bind (bare_offset raw) (read_rfc3339 cx))
     (or_else (read_naive cx raw ''%Y-%m-%dT%H:%M:%S%.f'') (read_naive cx raw ''%Y-%m-%d %H:%M:%S%.f'')))"

definition checked_instant :: "capture_externals \<Rightarrow> instant \<Rightarrow> instant option" where
  "checked_instant cx t = (if representable cx t then Some t else None)"

text \<open>\<open>str::parse::<i64>\<close>.\<close>

definition parse_i64 :: "string \<Rightarrow> int option" where
  "parse_i64 s =
     (let neg = (s \<noteq> [] \<and> hd s = CHR ''-''); ds = (if s \<noteq> [] \<and> (hd s = CHR ''+'' \<or> hd s = CHR ''-'') then tl s else s);
          v = (if neg then - int (digits_value ds) else int (digits_value ds)) in
      if ds = [] \<or> \<not> list_all is_digit ds \<or> v < - (2 ^ 63) \<or> 2 ^ 63 \<le> v then None else Some v)"

definition parse_sent_at_ms :: "capture_externals \<Rightarrow> string \<Rightarrow> instant option" where
  "parse_sent_at_ms cx raw = Option.bind (parse_i64 raw) (\<lambda>ms. checked_instant cx (ms * nanos_per_milli))"

text \<open>\<open>Duration::try_milliseconds\<close> refuses only the least \<open>i64\<close>.\<close>

definition try_milliseconds :: "int \<Rightarrow> int option" where
  "try_milliseconds ms = (if ms < - (2 ^ 63 - 1) then None else Some (ms * nanos_per_milli))"

definition ignores_sent_at :: "object \<Rightarrow> bool" where
  "ignores_sent_at props = (Option.bind (map_of props ''$ignore_sent_at'') as_bool = Some True)"

definition unskewed :: "capture_externals \<Rightarrow> object \<Rightarrow> instant option \<Rightarrow> instant \<Rightarrow> instant \<Rightarrow> instant option" where
  "unskewed cx props sent_at now ts =
     (case sent_at of
        Some s \<Rightarrow> if ignores_sent_at props then Some ts else checked_instant cx (ts - (s - now))
      | None \<Rightarrow> Some ts)"

definition clamp_future :: "instant \<Rightarrow> instant \<Rightarrow> instant" where
  "clamp_future now ts = (if now + max_future_hours * 3600 * nanos_per_second < ts then now else ts)"

definition resolve_timestamp ::
    "capture_externals \<Rightarrow> object \<Rightarrow> object \<Rightarrow> instant option \<Rightarrow> instant \<Rightarrow> capture_error + instant" where
  "resolve_timestamp cx obj props sent_at now =
     (case Option.bind (map_of obj ''offset'') as_i64 of
        Some offset_ms \<Rightarrow>
          ok_or (Option.bind (try_milliseconds offset_ms) (\<lambda>d. checked_instant cx (now - d))) (Malformed BadOffset)
      | None \<Rightarrow>
          (case get_str obj ''timestamp'' of
             None \<Rightarrow> Inr now
           | Some raw \<Rightarrow>
               and_then (ok_or (parse_timestamp cx raw) (Malformed BadTimestamp)) (\<lambda>ts.
               and_then (ok_or (unskewed cx props sent_at now ts) (Malformed BadTimestamp)) (\<lambda>ts2.
               Inr (clamp_future now ts2)))))"

section \<open>Tokens and ids\<close>

definition resolve_token :: "object \<Rightarrow> object \<Rightarrow> string option \<Rightarrow> capture_error + string" where
  "resolve_token obj props batch_token =
     and_then
       (ok_or (or_else batch_token (or_else (get_str obj ''token'') (or_else (get_str obj ''$token'')
          (or_else (get_str obj ''api_key'') (get_str props ''token''))))) (Unauthorized NoToken))
       (\<lambda>raw. case validate raw of Inl _ \<Rightarrow> Inl (Unauthorized InvalidToken) | Inr _ \<Rightarrow> Inr raw)"

text \<open>Null bytes become U+FFFD. The blank test reads the whole value, not the characters kept.\<close>

definition replace_nul :: "string \<Rightarrow> string" where
  "replace_nul s = concat (map (\<lambda>c. if c = CHR 0x00 then [CHR 0xEF, CHR 0xBF, CHR 0xBD] else [c]) s)"

definition text_of :: "capture_externals \<Rightarrow> json \<Rightarrow> capture_error + string" where
  "text_of cx v =
     (case v of Null \<Rightarrow> Inl (Malformed NullDistinctId) | String s \<Rightarrow> Inr s | _ \<Rightarrow> Inr (show_json cx v))"

definition take_chars :: "nat \<Rightarrow> string \<Rightarrow> string" where
  "take_chars n s = concat (take n (utf8_chars s))"

definition resolve_distinct_id :: "capture_externals \<Rightarrow> object \<Rightarrow> object \<Rightarrow> capture_error + string" where
  "resolve_distinct_id cx obj props =
     and_then (ok_or (or_else (map_of obj ''distinct_id'') (or_else (map_of obj ''$distinct_id'') (map_of props ''distinct_id'')))
       (Malformed MissingDistinctId)) (\<lambda>raw.
     and_then (text_of cx raw) (\<lambda>s0.
       let s = replace_nul s0 in
       if trim s = [] then Inl (Malformed EmptyDistinctId)
       else Inr (take_chars max_distinct_id_chars s)))"

section \<open>Events\<close>

definition fold_top_level :: "string \<Rightarrow> object \<times> object \<Rightarrow> object \<times> object" where
  "fold_top_level key = (\<lambda>(obj, props).
     case map_of obj key of
       None \<Rightarrow> (obj, props)
     | Some v \<Rightarrow> (AList.delete key obj, if map_of props key = None then AList.update key v props else props))"

definition seed_uuid :: "capture_externals \<Rightarrow> instant \<Rightarrow> nat \<Rightarrow> 128 word" where
  "seed_uuid cx ts i = uuid_v7 cx (nat (max (ts div nanos_per_second) 0)) (nat (ts mod nanos_per_second)) i"

definition resolve_uuid :: "capture_externals \<Rightarrow> object \<Rightarrow> instant \<Rightarrow> nat \<Rightarrow> capture_error + 128 word" where
  "resolve_uuid cx obj ts i =
     (case get_str obj ''uuid'' of
        Some s \<Rightarrow> ok_or (read_uuid cx s) (Malformed InvalidUuid)
      | None \<Rightarrow> Inr (seed_uuid cx ts i))"

definition event_name :: "object \<Rightarrow> capture_error + string" where
  "event_name obj =
     (case get_str obj ''event'' of
        None \<Rightarrow> Inl (Malformed MissingEventName)
      | Some s \<Rightarrow> if s = [] then Inl (Malformed MissingEventName) else Inr s)"

definition event_properties :: "object \<Rightarrow> capture_error + object" where
  "event_properties obj =
     (case map_of obj ''properties'' of
        None \<Rightarrow> Inr []
      | Some (Object m) \<Rightarrow> Inr m
      | Some _ \<Rightarrow> Inl (Malformed PropertiesNotObject))"

definition resolve_event ::
    "capture_externals \<Rightarrow> object \<Rightarrow> string option \<Rightarrow> instant option \<Rightarrow> instant \<Rightarrow> nat \<Rightarrow> capture_error + captured_event" where
  "resolve_event cx obj0 batch_token sent_at now i =
     and_then (event_name obj0) (\<lambda>name.
     and_then (event_properties obj0) (\<lambda>props0.
       let (obj, props) = fold_top_level ''$set_once'' (fold_top_level ''$set'' (AList.delete ''properties'' obj0, props0)) in
       and_then (resolve_token obj props batch_token) (\<lambda>tok.
       and_then (resolve_distinct_id cx obj props) (\<lambda>did.
       and_then (resolve_timestamp cx obj props sent_at now) (\<lambda>ts.
       and_then (resolve_uuid cx obj ts i) (\<lambda>u.
         Inr \<lparr>uuid = u, event = name, distinct_id = did, token = tok, timestamp = ts, properties = props\<rparr>))))))"

fun resolve_events ::
    "capture_externals \<Rightarrow> string option \<Rightarrow> instant option \<Rightarrow> instant \<Rightarrow> nat \<Rightarrow> json list \<Rightarrow> capture_error + captured_event list" where
  "resolve_events cx batch_token sent_at now i [] = Inr []"
| "resolve_events cx batch_token sent_at now i (raw # rest) =
     (case raw of
        Object obj \<Rightarrow>
          if get_str obj ''event'' = Some ''$performance_event''
          then resolve_events cx batch_token sent_at now (i + 1) rest
          else
            and_then (resolve_event cx obj batch_token sent_at now i) (\<lambda>e.
            and_then (resolve_events cx batch_token sent_at now (i + 1) rest) (\<lambda>es. Inr (e # es)))
      | _ \<Rightarrow> Inl (Malformed EventNotObject))"

text \<open>What a body says of the whole batch: its events, token, send time and historical mark.\<close>

definition batch_shape ::
    "capture_externals \<Rightarrow> json \<Rightarrow> instant option \<Rightarrow> capture_error + json list \<times> string option \<times> instant option \<times> bool" where
  "batch_shape cx value sent_at_query =
     (case value of
        Array events \<Rightarrow> Inr (events, None, sent_at_query, False)
      | Object obj0 \<Rightarrow>
          (case map_of obj0 ''batch'' of
             Some batch \<Rightarrow>
               (let obj = AList.delete ''batch'' obj0;
                    batch_token = Option.bind (or_else (map_of obj ''token'') (map_of obj ''api_key'')) as_str;
                    sent_at = (case get_str obj ''sent_at'' of Some s \<Rightarrow> parse_timestamp cx s | None \<Rightarrow> sent_at_query);
                    historical = (Option.bind (map_of obj ''historical_migration'') as_bool = Some True) in
                (case batch of
                   Array events \<Rightarrow> Inr (events, batch_token, sent_at, historical)
                 | _ \<Rightarrow> Inl (Malformed BatchNotArray)))
           | None \<Rightarrow>
               Inr ([Object (if map_of obj0 ''event'' = None then AList.update ''event'' (String ''$identify'') obj0 else obj0)],
                 None, sent_at_query, False))
      | _ \<Rightarrow> Inl (Malformed BodyShape))"

definition parse_body :: "capture_externals \<Rightarrow> string \<Rightarrow> instant option \<Rightarrow> instant \<Rightarrow> capture_error + parsed_batch" where
  "parse_body cx body sent_at_query now =
     and_then (ok_or (read_json cx body) (Malformed InvalidJson)) (\<lambda>value.
     and_then (batch_shape cx value sent_at_query) (\<lambda>(raw, batch_token, sent_at, historical).
     and_then (resolve_events cx batch_token sent_at now 0 raw) (\<lambda>events.
       Inr \<lparr>pb_events = events, pb_historical = historical\<rparr>)))"

section \<open>What is accepted\<close>

lemma utf8_chars_plain: "list_all (\<lambda>c. \<not> is_cont c) s \<Longrightarrow> utf8_chars s = map (\<lambda>c. [c]) s"
proof (induction s)
  case (Cons c cs)
  then show ?case by (cases cs) auto
qed simp

lemma concat_replicate_single: "concat (replicate n [x]) = replicate n x"
  by (induction n) auto

lemma while_takeWhile:
  "r = [] \<or> \<not> P (hd r) \<Longrightarrow>
    takeWhile P (takeWhile P xs @ r) = takeWhile P xs \<and> dropWhile P (takeWhile P xs @ r) = r"
proof (induction xs)
  case Nil
  then show ?case by (cases r) auto
next
  case (Cons a xs)
  then show ?case by (cases r) auto
qed

lemma utf8_chars_concat_take: "utf8_chars (concat (take n (utf8_chars s))) = take n (utf8_chars s)"
proof (induction s arbitrary: n rule: utf8_chars.induct)
  case (2 c cs)
  show ?case
  proof (cases n)
    case (Suc m)
    let ?rest = "concat (take m (utf8_chars (dropWhile is_cont cs)))"
    have head: "?rest = [] \<or> \<not> is_cont (hd ?rest)"
    proof (cases "dropWhile is_cont cs")
      case Nil
      show ?thesis unfolding Nil by simp
    next
      case (Cons d ds)
      then have "\<not> is_cont d" by (metis hd_dropWhile list.distinct(1) list.sel(1))
      then show ?thesis unfolding Cons by (cases m) simp_all
    qed
    have "takeWhile is_cont (takeWhile is_cont cs @ ?rest) = takeWhile is_cont cs"
      "dropWhile is_cont (takeWhile is_cont cs @ ?rest) = ?rest"
      using while_takeWhile [of ?rest is_cont cs] head by blast+
    then show ?thesis using 2 Suc by simp
  qed simp
qed simp

lemma take_chars_length: "length (utf8_chars (take_chars n s)) \<le> n"
  by (simp add: take_chars_def utf8_chars_concat_take)

lemma take_chars_empty_iff: "take_chars n s = [] \<longleftrightarrow> n = 0 \<or> s = []"
proof -
  have "utf8_chars (take_chars n s) = [] \<longleftrightarrow> n = 0 \<or> s = []"
    by (simp add: take_chars_def utf8_chars_concat_take)
  then show ?thesis by simp
qed

lemma set_take_chars: "set (take_chars n s) \<subseteq> set s"
proof -
  have "set (take_chars n s) \<subseteq> set (concat (utf8_chars s))"
    by (auto simp: take_chars_def simp del: concat_utf8_chars dest: in_set_takeD)
  then show ?thesis by simp
qed

lemma replace_nul_no_nul: "CHR 0x00 \<notin> set (replace_nul s)"
  by (auto simp: replace_nul_def)

lemma resolve_distinct_id_ok:
  assumes "resolve_distinct_id cx obj props = Inr d"
  shows "d \<noteq> []" "CHR 0x00 \<notin> set d" "length (utf8_chars d) \<le> max_distinct_id_chars"
proof -
  obtain s where s: "trim (replace_nul s) \<noteq> []" "d = take_chars max_distinct_id_chars (replace_nul s)"
    using assms by (auto simp: resolve_distinct_id_def result_simps Let_def split: if_splits)
  then have "replace_nul s \<noteq> []" by (auto simp: trim_empty_iff)
  then show "d \<noteq> []" using s(2) by (simp add: take_chars_empty_iff max_distinct_id_chars_def)
  show "CHR 0x00 \<notin> set d" using s(2) set_take_chars replace_nul_no_nul by blast
  show "length (utf8_chars d) \<le> max_distinct_id_chars" using s(2) take_chars_length by simp
qed

lemma resolve_token_ok: "resolve_token obj props bt = Inr t \<Longrightarrow> validate t = Inr ()"
proof -
  assume "resolve_token obj props bt = Inr t"
  then obtain x where "(case validate x of Inl _ \<Rightarrow> Inl (Unauthorized InvalidToken) | Inr _ \<Rightarrow> Inr x) = Inr t"
    by (auto simp: resolve_token_def result_simps)
  then show ?thesis by (cases "validate x") auto
qed

lemma resolve_token_batch: "resolve_token obj props (Some b) = Inr t \<Longrightarrow> t = b"
  by (auto simp: resolve_token_def result_simps split: sum.splits)

lemma resolve_event_parts:
  assumes "resolve_event cx obj bt sa now i = Inr e"
  obtains obj1 props1 where "event_name obj = Inr (event e)" "resolve_token obj1 props1 bt = Inr (token e)"
    "resolve_distinct_id cx obj1 props1 = Inr (distinct_id e)" "resolve_timestamp cx obj1 props1 sa now = Inr (timestamp e)"
    "resolve_uuid cx obj1 (timestamp e) i = Inr (uuid e)" "properties e = props1"
proof -
  obtain name props0 where n: "event_name obj = Inr name" "event_properties obj = Inr props0"
    using assms by (auto simp: resolve_event_def result_simps)
  obtain obj1 props1 where "fold_top_level ''$set_once'' (fold_top_level ''$set'' (AList.delete ''properties'' obj, props0)) = (obj1, props1)"
    by fastforce
  then show thesis using assms n that [of obj1 props1] by (auto simp: resolve_event_def result_simps)
qed

lemma event_name_ok: "event_name obj = Inr n \<Longrightarrow> get_str obj ''event'' = Some n \<and> n \<noteq> []"
  by (auto simp: event_name_def split: option.splits if_splits)

lemma resolve_event_ok:
  assumes "resolve_event cx obj bt sa now i = Inr e"
  shows "validate (token e) = Inr ()" "get_str obj ''event'' = Some (event e)" "event e \<noteq> []"
    "distinct_id e \<noteq> []" "CHR 0x00 \<notin> set (distinct_id e)" "length (utf8_chars (distinct_id e)) \<le> max_distinct_id_chars"
  using resolve_event_parts [OF assms] resolve_token_ok resolve_distinct_id_ok event_name_ok by metis+

lemma resolve_event_batch_token: "resolve_event cx obj (Some b) sa now i = Inr e \<Longrightarrow> token e = b"
  by (elim resolve_event_parts) (rule resolve_token_batch)

fun performance_event :: "json \<Rightarrow> bool" where
  "performance_event (Object obj) \<longleftrightarrow> get_str obj ''event'' = Some ''$performance_event''"
| "performance_event _ \<longleftrightarrow> False"

text \<open>All or nothing: the events are those of the elements that are not performance events, in their order.\<close>

lemma resolve_events_all:
  "resolve_events cx bt sa now i raw = Inr es \<Longrightarrow>
     list_all2 (\<lambda>r e. \<exists>obj j. r = Object obj \<and> resolve_event cx obj bt sa now j = Inr e)
       (filter (Not \<circ> performance_event) raw) es"
proof (induction raw arbitrary: i es)
  case (Cons r raw)
  obtain obj where r: "r = Object obj" using Cons.prems by (cases r) auto
  show ?case
  proof (cases "performance_event r")
    case True
    then show ?thesis using Cons r by simp
  next
    case False
    then obtain e es' where "resolve_event cx obj bt sa now i = Inr e" "es = e # es'"
      "resolve_events cx bt sa now (i + 1) raw = Inr es'"
      using Cons.prems r by (auto simp: result_simps)
    then show ?thesis using Cons.IH [of "i + 1" es'] False r by auto
  qed
qed simp

lemma resolve_events_each:
  assumes "resolve_events cx bt sa now i raw = Inr es" "e \<in> set es"
  obtains obj j where "Object obj \<in> set raw" "\<not> performance_event (Object obj)" "resolve_event cx obj bt sa now j = Inr e"
proof -
  obtain k where k: "k < length es" "e = es ! k" using assms(2) by (metis in_set_conv_nth)
  let ?kept = "filter (Not \<circ> performance_event) raw"
  have l2: "list_all2 (\<lambda>r e. \<exists>obj j. r = Object obj \<and> resolve_event cx obj bt sa now j = Inr e) ?kept es"
    by (rule resolve_events_all [OF assms(1)])
  then obtain obj j where o: "?kept ! k = Object obj" "resolve_event cx obj bt sa now j = Inr e"
    using list_all2_nthD2 [OF l2 k(1)] k(2) by blast
  moreover have "?kept ! k \<in> set ?kept" using list_all2_lengthD [OF l2] k(1) by (intro nth_mem) simp
  ultimately show thesis using that [of obj j] by auto
qed

lemma parse_body_each:
  assumes "parse_body cx body q now = Inr b" "e \<in> set (pb_events b)"
  obtains obj bt sa j where "\<not> performance_event (Object obj)" "resolve_event cx obj bt sa now j = Inr e"
proof -
  obtain raw bt sa i where "resolve_events cx bt sa now i raw = Inr (pb_events b)"
    using assms(1) by (auto simp: parse_body_def result_simps)
  then show thesis using resolve_events_each assms(2) that by metis
qed

lemma fold_top_level_other: "k \<noteq> key \<Longrightarrow> map_of (fst (fold_top_level key (obj, props))) k = map_of obj k"
  by (auto simp: fold_top_level_def alist_simps split: option.splits)

lemma resolve_timestamp_cases:
  assumes "resolve_timestamp cx obj props sa now = Inr ts"
  shows "case Option.bind (map_of obj ''offset'') as_i64 of
      None \<Rightarrow> ts \<le> now + max_future_hours * 3600 * nanos_per_second
    | Some ms \<Rightarrow> ts = now - ms * nanos_per_milli"
proof (cases "Option.bind (map_of obj ''offset'') as_i64")
  case None
  have "clamp_future now t \<le> now + max_future_hours * 3600 * nanos_per_second" for t
    by (simp add: clamp_future_def max_future_hours_def nanos_per_second_def)
  moreover have "now \<le> now + max_future_hours * 3600 * nanos_per_second"
    by (simp add: max_future_hours_def nanos_per_second_def)
  ultimately show ?thesis
    using assms None by (auto simp: resolve_timestamp_def result_simps split: option.splits)
next
  case (Some ms)
  then show ?thesis
    using assms by (auto simp: resolve_timestamp_def result_simps try_milliseconds_def checked_instant_def
        bind_eq_Some_conv split: if_splits)
qed

section \<open>Properties\<close>

text \<open>C32: Every event of an accepted body is well-formed: its token passes the validator, its name is not
  empty and is not a performance event's, and its distinct id is not empty, has no null byte and at
  most 200 characters.\<close>

theorem captured_event_well_formed:
  assumes "parse_body cx body sent_at now = Inr b" "e \<in> set (pb_events b)"
  shows "validate (token e) = Inr () \<and> event e \<noteq> [] \<and> event e \<noteq> ''$performance_event''
    \<and> distinct_id e \<noteq> [] \<and> CHR 0x00 \<notin> set (distinct_id e)
    \<and> length (utf8_chars (distinct_id e)) \<le> max_distinct_id_chars"
proof -
  obtain obj bt sa j where o: "\<not> performance_event (Object obj)" "resolve_event cx obj bt sa now j = Inr e"
    using parse_body_each [OF assms] by metis
  then show ?thesis using resolve_event_ok [OF o(2)] by auto
qed

text \<open>The samples: an event with and without an \<open>offset\<close> two days in the future.\<close>

definition sample_raw :: "(string \<times> json) list \<Rightarrow> json" where
  "sample_raw extra =
     Object ([(''event'', String ''a''), (''distinct_id'', String ''u''), (''token'', String ''t'')] @ extra)"

definition sample_capture :: "json \<Rightarrow> capture_externals" where
  "sample_capture v =
     \<lparr>read_json = (\<lambda>_. Some v), show_json = (\<lambda>_. ''''), read_rfc3339 = (\<lambda>_. None), read_naive = (\<lambda>_ _. None),
      representable = (\<lambda>_. True), read_uuid = (\<lambda>_. None), uuid_v7 = (\<lambda>s n i. 7)\<rparr>"

definition sample_captured :: "instant \<Rightarrow> captured_event" where
  "sample_captured ts = \<lparr>uuid = 7, event = ''a'', distinct_id = ''u'', token = ''t'', timestamp = ts, properties = []\<rparr>"

lemma validate_t: "validate ''t'' = Inr ()"
  by (simp add: validate_def is_ascii_def max_token_bytes_def personal_key_prefix_def)

lemma sample_distinct_id:
  "trim (replace_nul ''u'') = ''u''" "take_chars max_distinct_id_chars (replace_nul ''u'') = ''u''"
  by (simp_all add: replace_nul_def trim_def is_ws_def white_space_def take_chars_def max_distinct_id_chars_def)

lemma sample_resolve:
  "resolve_event (sample_capture v) [(''event'', String ''a''), (''distinct_id'', String ''u''), (''token'', String ''t'')] None None now i
     = Inr (sample_captured now)"
  by (simp add: resolve_event_def event_name_def event_properties_def fold_top_level_def get_str_def resolve_token_def
      validate_t resolve_distinct_id_def text_of_def ok_or_def sample_distinct_id Let_def resolve_timestamp_def
      resolve_uuid_def seed_uuid_def sample_capture_def sample_captured_def)

theorem captured_event_well_formed_witness:
  "pb_events \<lparr>pb_events = [sample_captured 0], pb_historical = False\<rparr> = [sample_captured 0] \<and> validate (token (sample_captured 0)) = Inr ()"
proof -
  have "parse_body (sample_capture (Array [sample_raw []])) ''[]'' None 0 = Inr \<lparr>pb_events = [sample_captured 0], pb_historical = False\<rparr>"
    using sample_resolve [of "Array [sample_raw []]" 0 0]
    by (simp add: parse_body_def batch_shape_def sample_raw_def ok_or_def get_str_def sample_capture_def)
  from captured_event_well_formed [OF this, of "sample_captured 0"] show ?thesis by simp
qed

text \<open>C33: The time of an accepted event. Without an integer \<open>offset\<close> it is never more than 23 hours after
  the server's clock, whatever the client's timestamp and send time say. With one, it is the clock less
  that many milliseconds; no bound applies, and a negative offset puts the event in the future, as the
  witness shows.\<close>

theorem captured_timestamp:
  assumes "resolve_event cx obj batch_token sent_at now i = Inr e"
  shows "case Option.bind (map_of obj ''offset'') as_i64 of
      None \<Rightarrow> timestamp e \<le> now + max_future_hours * 3600 * nanos_per_second
    | Some ms \<Rightarrow> timestamp e = now - ms * nanos_per_milli"
proof -
  obtain props0 where p: "event_properties obj = Inr props0"
    using assms by (auto simp: resolve_event_def result_simps)
  obtain o2 p2 where g: "fold_top_level ''$set'' (AList.delete ''properties'' obj, props0) = (o2, p2)" by fastforce
  obtain o3 p3 where h: "fold_top_level ''$set_once'' (o2, p2) = (o3, p3)" by fastforce
  have "resolve_timestamp cx o3 p3 sent_at now = Inr (timestamp e)"
    using assms p g h by (auto simp: resolve_event_def result_simps)
  moreover have "map_of o3 ''offset'' = map_of obj ''offset''"
    using fold_top_level_other [of "''offset''" "''$set''" "AList.delete ''properties'' obj" props0]
      fold_top_level_other [of "''offset''" "''$set_once''" o2 p2] g h
    by (simp add: alist_simps)
  ultimately show ?thesis using resolve_timestamp_cases by metis
qed

theorem captured_timestamp_witness:
  "\<exists>e. resolve_event (sample_capture Null) [(''event'', String ''a''), (''distinct_id'', String ''u''), (''token'', String ''t''),
      (''offset'', Number (NegInt (- 172800000)))] None None 0 0 = Inr e \<and> timestamp e = 48 * 3600 * nanos_per_second"
proof -
  let ?o = "[(''event'', String ''a''), (''distinct_id'', String ''u''), (''token'', String ''t''), (''offset'', Number (NegInt (- 172800000)))]"
  have "\<exists>e. resolve_event (sample_capture Null) ?o None None 0 0 = Inr e"
    by (simp add: resolve_event_def event_name_def event_properties_def fold_top_level_def get_str_def resolve_token_def
      validate_t resolve_distinct_id_def text_of_def ok_or_def sample_distinct_id Let_def resolve_timestamp_def
      resolve_uuid_def seed_uuid_def sample_capture_def try_milliseconds_def checked_instant_def)
  then obtain e where e: "resolve_event (sample_capture Null) ?o None None 0 0 = Inr e" ..
  from captured_timestamp [OF e] have "timestamp e = 48 * 3600 * nanos_per_second"
    by (simp add: nanos_per_milli_def nanos_per_second_def)
  with e show ?thesis by blast
qed

text \<open>The blank test comes before the truncation, so that an id of 200 blanks and a letter is stored blank.\<close>

lemma distinct_id_may_be_blank:
  "\<exists>d. resolve_distinct_id cx [(''distinct_id'', String (replicate 200 (CHR '' '') @ ''a''))] [] = Inr d \<and> trim d = []"
proof -
  let ?s = "replicate 200 (CHR '' '') @ ''a''"
  have plain: "list_all (\<lambda>c. \<not> is_cont c) ?s" by (simp add: is_cont_def code_def list_all_iff)
  have nul: "replace_nul ?s = ?s" by (simp add: replace_nul_def map_replicate_const)
  have chars: "utf8_chars ?s = replicate 200 '' '' @ [''a'']" by (simp add: utf8_chars_plain [OF plain])
  have "trim ?s \<noteq> []" unfolding trim_empty_iff chars by (simp add: is_ws_def white_space_def)
  moreover have "take_chars max_distinct_id_chars ?s = replicate 200 (CHR '' '')"
    unfolding take_chars_def chars by (simp add: max_distinct_id_chars_def concat_replicate_single)
  moreover have "trim (replicate 200 (CHR '' '')) = []"
    unfolding trim_empty_iff
    by (subst utf8_chars_plain) (auto simp: is_cont_def code_def list_all_iff is_ws_def white_space_def)
  ultimately show ?thesis by (simp add: resolve_distinct_id_def text_of_def ok_or_def nul Let_def)
qed

end
