(* ===== verification/Enrichment.thy ===== *)
theory Enrichment
  imports Types
begin

text \<open>
  Event enrichment before the log, \<open>src/enrichment.rs\<close>: properties from the user agent, and a device id
  from the address and a daily salt. The user-agent parser, the standard library's hash of a string and
  the day of the clock are the record \<open>enrich_externals\<close>.
\<close>

record ua_result =
  ua_name :: string
  ua_version :: string
  ua_os :: string
  ua_os_version :: string
  ua_category :: string

record enrich_externals =
  parse_ua :: "string \<Rightarrow> ua_result option"
  hash_str :: "string \<Rightarrow> u64"
  today :: string

record enrichment_config =
  user_agent_parse :: bool
  cookieless_salt :: "string option"

text \<open>\<open>props.insert\<close> behind its \<open>contains_key\<close> test.\<close>

definition insert_missing :: "string \<Rightarrow> string \<Rightarrow> object \<Rightarrow> object" where
  "insert_missing k v props = (if map_of props k = None then AList.update k (String v) props else props)"

definition ua_properties :: "ua_result \<Rightarrow> object \<Rightarrow> object" where
  "ua_properties r props =
     insert_missing ''$device_type'' (ua_category r)
     (insert_missing ''$os_version'' (ua_os_version r)
     (insert_missing ''$os'' (ua_os r)
     (insert_missing ''$browser_version'' (ua_version r)
     (insert_missing ''$browser'' (ua_name r) props))))"

definition enrich_user_agent ::
    "enrich_externals \<Rightarrow> enrichment_config \<Rightarrow> string option \<Rightarrow> captured_event \<Rightarrow> captured_event" where
  "enrich_user_agent nx cfg user_agent e =
     (if \<not> user_agent_parse cfg then e
      else case or_else user_agent (or_else (get_str (properties e) ''$user_agent'') (get_str (properties e) ''$useragent'')) of
        None \<Rightarrow> e
      | Some s \<Rightarrow>
          if s = [] then e
          else (case parse_ua nx s of
                  None \<Rightarrow> e
                | Some r \<Rightarrow> e\<lparr>properties := ua_properties r (properties e)\<rparr>))"

definition hex_char :: "nat \<Rightarrow> char" where
  "hex_char d = char_of (if d < 10 then 48 + d else 87 + d)"

fun hex :: "nat \<Rightarrow> string" where
  "hex n = (if n < 16 then [hex_char n] else hex (n div 16) @ [hex_char (n mod 16)])"

declare hex.simps [simp del]

definition device_id :: "enrich_externals \<Rightarrow> string \<Rightarrow> string \<Rightarrow> string" where
  "device_id nx salt ip = hex (unat (hash_str nx (ip @ '':'' @ (salt @ '':'' @ today nx))))"

definition enrich_device_id ::
    "enrich_externals \<Rightarrow> enrichment_config \<Rightarrow> string option \<Rightarrow> captured_event \<Rightarrow> captured_event" where
  "enrich_device_id nx cfg ip e =
     (if map_of (properties e) ''$device_id'' \<noteq> None then e
      else case cookieless_salt cfg of
        None \<Rightarrow> e
      | Some salt \<Rightarrow>
          if salt = [] then e
          else (case ip of
                  None \<Rightarrow> e
                | Some a \<Rightarrow>
                    if a = [] then e
                    else e\<lparr>properties := AList.update ''$device_id'' (String (device_id nx salt a)) (properties e)\<rparr>))"

definition enrich ::
    "enrich_externals \<Rightarrow> enrichment_config \<Rightarrow> string option \<Rightarrow> string option \<Rightarrow> captured_event \<Rightarrow> captured_event" where
  "enrich nx cfg ip user_agent e = enrich_device_id nx cfg ip (enrich_user_agent nx cfg user_agent e)"

section \<open>What enrichment may touch\<close>

definition enriched_keys :: "string list" where
  "enriched_keys = [''$browser'', ''$browser_version'', ''$os'', ''$os_version'', ''$device_type'', ''$device_id'']"

text \<open>\<open>q\<close> extends \<open>p\<close>: nothing the client set changes, and only the keys of enrichment are new.\<close>

definition extends :: "object \<Rightarrow> object \<Rightarrow> bool" where
  "extends p q \<longleftrightarrow> map_of p \<subseteq>\<^sub>m map_of q \<and> (\<forall>k. k \<notin> set enriched_keys \<longrightarrow> map_of q k = map_of p k)"

lemma extends_refl [simp]: "extends p p"
  by (simp add: extends_def)

lemma extends_trans [trans]: "extends p q \<Longrightarrow> extends q r \<Longrightarrow> extends p r"
  using map_le_trans by (auto simp: extends_def)

lemma extends_insert: "k \<in> set enriched_keys \<Longrightarrow> map_of p k = None \<Longrightarrow> extends p (AList.update k v p)"
  by (auto simp: extends_def alist_simps map_le_def)

lemma extends_insert_missing: "k \<in> set enriched_keys \<Longrightarrow> extends p (insert_missing k v p)"
  by (auto simp: insert_missing_def extends_insert)

lemma extends_ua: "extends p (ua_properties r p)"
  unfolding ua_properties_def
  by (intro extends_trans [OF _ extends_insert_missing] extends_refl) (simp_all add: enriched_keys_def)

definition enriched_from :: "captured_event \<Rightarrow> captured_event \<Rightarrow> bool" where
  "enriched_from e e' \<longleftrightarrow> e' = e\<lparr>properties := properties e'\<rparr> \<and> extends (properties e) (properties e')"

lemma enrich_user_agent_from: "enriched_from e (enrich_user_agent nx cfg ua e)"
  by (auto simp: enrich_user_agent_def enriched_from_def extends_ua split: option.splits)

lemma enrich_device_id_from: "enriched_from e (enrich_device_id nx cfg ip e)"
  by (auto simp: enrich_device_id_def enriched_from_def enriched_keys_def intro!: extends_insert split: option.splits)

lemma enriched_from_trans: "enriched_from e1 e2 \<Longrightarrow> enriched_from e2 e3 \<Longrightarrow> enriched_from e1 e3"
  by (cases e1; cases e2; cases e3) (auto simp: enriched_from_def intro: extends_trans)

lemma enrich_from: "enriched_from e (enrich nx cfg ip ua e)"
  unfolding enrich_def by (rule enriched_from_trans [OF enrich_user_agent_from enrich_device_id_from])

lemma enriched_from_token: "enriched_from e e' \<Longrightarrow> token e' = token e"
  by (cases e; cases e') (auto simp: enriched_from_def)

lemma enriched_from_lookup: "enriched_from e e' \<Longrightarrow> map_of (properties e) k = Some v \<Longrightarrow> map_of (properties e') k = Some v"
  by (auto simp: enriched_from_def extends_def map_le_def dom_def)

end
