(* ===== verification/Forward.thy ===== *)
theory Forward
  imports Types
begin

text \<open>
  Shadow mode, \<open>src/forward.rs\<close>: the bounded queue of acknowledged events, the worker that sends them in
  chunks with retries, and the counters the dashboard shows. The HTTP client is the function \<open>reply\<close>: what
  the \<open>n\<close>-th attempt to send a chunk gives. Locks are held for one step; counters are \<open>u64\<close> and wrap. The
  check of a host name and its addresses is not modelled.
\<close>

definition queue_events :: nat where
  "queue_events = 100000"

definition batch_events :: nat where
  "batch_events = 500"

definition max_attempts :: nat where
  "max_attempts = 5"

record forwarding_config =
  fc_enabled :: bool
  fc_host :: string
  fc_token :: string

record counters =
  c_forwarded :: u64
  c_dropped :: u64
  c_failed :: u64

record forwarder =
  fw_table :: "(string \<times> forwarding_config) list"
  fw_configs :: "(string \<times> forwarding_config) list"
  fw_items :: "(string \<times> captured_event list) list"
  fw_events :: nat
  fw_stopped :: bool
  fw_counters :: "(string \<times> counters) list"
  fw_errors :: "(string \<times> string) list"

text \<open>An attempt: an answer below 400, an answer from 400 on (with the client's error text), or no answer.\<close>

datatype attempt = Answered nat | StatusError nat string | Transport string

type_synonym reply = "forwarding_config \<Rightarrow> captured_event list \<Rightarrow> nat \<Rightarrow> attempt"

section \<open>Operations\<close>

definition forwarder_open :: "(string \<times> forwarding_config) list \<Rightarrow> forwarder" where
  "forwarder_open table =
     \<lparr>fw_table = table, fw_configs = table, fw_items = [], fw_events = 0, fw_stopped = False, fw_counters = [], fw_errors = []\<rparr>"

definition counters_for :: "forwarder \<Rightarrow> string \<Rightarrow> counters" where
  "counters_for fw pid =
     (case map_of (fw_counters fw) pid of None \<Rightarrow> \<lparr>c_forwarded = 0, c_dropped = 0, c_failed = 0\<rparr> | Some c \<Rightarrow> c)"

definition count :: "string \<Rightarrow> (counters \<Rightarrow> counters) \<Rightarrow> forwarder \<Rightarrow> forwarder" where
  "count pid f fw = fw\<lparr>fw_counters := AList.update pid (f (counters_for fw pid)) (fw_counters fw)\<rparr>"

definition enabled :: "forwarder \<Rightarrow> string \<Rightarrow> bool" where
  "enabled fw pid = (case map_of (fw_configs fw) pid of None \<Rightarrow> False | Some c \<Rightarrow> fc_enabled c)"

definition offer :: "string \<Rightarrow> captured_event list \<Rightarrow> forwarder \<Rightarrow> forwarder" where
  "offer pid es fw =
     (if \<not> enabled fw pid \<or> es = [] then fw
      else if queue_events < fw_events fw + length es
      then count pid (\<lambda>c. c\<lparr>c_dropped := c_dropped c + of_nat (length es)\<rparr>) fw
      else fw\<lparr>fw_events := fw_events fw + length es, fw_items := fw_items fw @ [(pid, es)]\<rparr>)"

text \<open>\<open>stored\<close>: the write to SQLite succeeds; the answer is \<open>False\<close> for its error.\<close>

definition set_config :: "bool \<Rightarrow> string \<Rightarrow> forwarding_config \<Rightarrow> forwarder \<Rightarrow> bool \<times> forwarder" where
  "set_config stored pid cfg fw =
     (if \<not> stored then (False, fw)
      else (True, fw\<lparr>fw_table := AList.update pid cfg (fw_table fw), fw_configs := AList.update pid cfg (fw_configs fw)\<rparr>))"

definition forwarder_stop :: "forwarder \<Rightarrow> forwarder" where
  "forwarder_stop fw = fw\<lparr>fw_stopped := True\<rparr>"

definition queued_events :: "forwarder \<Rightarrow> string \<Rightarrow> nat" where
  "queued_events fw pid = sum_list (map (\<lambda>(p, es). length es) (filter (\<lambda>(p, es). p = pid) (fw_items fw)))"

text \<open>\<open>send\<close>, from attempt \<open>n\<close> with \<open>left\<close> attempts left; an error is its text.\<close>

fun send_from :: "(nat \<Rightarrow> attempt) \<Rightarrow> nat \<Rightarrow> nat \<Rightarrow> string + unit" where
  "send_from att n 0 = Inl ''gave up''"
| "send_from att n (Suc left) =
     (case att n of
        Answered st \<Rightarrow> if st < 300 then Inr () else Inl (''PostHog answered HTTP '' @ decimal st)
      | StatusError st text \<Rightarrow>
          if st < 500 \<and> st \<noteq> 429 then Inl (''PostHog answered HTTP '' @ decimal st)
          else if left = 0 then Inl text else send_from att (n + 1) left
      | Transport text \<Rightarrow> if left = 0 then Inl text else send_from att (n + 1) left)"

definition send :: "reply \<Rightarrow> forwarding_config \<Rightarrow> captured_event list \<Rightarrow> string + unit" where
  "send rp cfg es = send_from (rp cfg es) 1 max_attempts"

function chunks :: "nat \<Rightarrow> 'a list \<Rightarrow> 'a list list" where
  "chunks n xs = (if n = 0 \<or> xs = [] then [] else take n xs # chunks n (drop n xs))"
  by pat_completeness auto
termination
  by (relation "measure (\<lambda>(n, xs). length xs)") auto

declare chunks.simps [simp del]

definition send_chunk :: "reply \<Rightarrow> string \<Rightarrow> forwarding_config \<Rightarrow> forwarder \<Rightarrow> captured_event list \<Rightarrow> forwarder" where
  "send_chunk rp pid cfg fw es =
     (case send rp cfg es of
        Inr _ \<Rightarrow> count pid (\<lambda>c. c\<lparr>c_forwarded := c_forwarded c + of_nat (length es)\<rparr>) fw
      | Inl text \<Rightarrow>
          (count pid (\<lambda>c. c\<lparr>c_failed := c_failed c + of_nat (length es)\<rparr>) fw)\<lparr>fw_errors := AList.update pid text (fw_errors fw)\<rparr>)"

text \<open>One turn of the worker; with an empty queue it waits, or ends when stopped.\<close>

definition forward_next :: "reply \<Rightarrow> forwarder \<Rightarrow> forwarder" where
  "forward_next rp fw =
     (case fw_items fw of
        [] \<Rightarrow> fw
      | (pid, es) # rest \<Rightarrow>
          (let fw1 = fw\<lparr>fw_items := rest, fw_events := fw_events fw - length es\<rparr> in
           case map_of (fw_configs fw1) pid of
             None \<Rightarrow> fw1
           | Some cfg \<Rightarrow> if fc_enabled cfg then foldl (send_chunk rp pid cfg) fw1 (chunks batch_events es) else fw1))"

section \<open>Accounting\<close>

text \<open>
  The life of the forwarder. \<open>offered\<close> counts, by project, the events offered while forwarding was on for it,
  \<open>skipped\<close> those taken from the queue after it was turned off.
\<close>

inductive forward_run :: "forwarder \<Rightarrow> (string \<Rightarrow> nat) \<Rightarrow> (string \<Rightarrow> nat) \<Rightarrow> bool" where
  forward_start: "forward_run (forwarder_open table) (\<lambda>_. 0) (\<lambda>_. 0)"
| forward_offer: "forward_run fw offered skipped
    \<Longrightarrow> forward_run (offer pid es fw)
          (if enabled fw pid then offered(pid := offered pid + length es) else offered) skipped"
| forward_work: "forward_run fw offered skipped \<Longrightarrow> fw_items fw = (pid, es) # rest
    \<Longrightarrow> forward_run (forward_next rp fw) offered
          (if enabled fw pid then skipped else skipped(pid := skipped pid + length es))"
| forward_config: "forward_run fw offered skipped \<Longrightarrow> forward_run (snd (set_config stored pid cfg fw)) offered skipped"
| forward_stop: "forward_run fw offered skipped \<Longrightarrow> forward_run (forwarder_stop fw) offered skipped"

definition accounted :: "forwarder \<Rightarrow> string \<Rightarrow> u64" where
  "accounted fw pid =
     (let c = counters_for fw pid in c_forwarded c + c_dropped c + c_failed c)"

definition queue_ok :: "forwarder \<Rightarrow> bool" where
  "queue_ok fw \<longleftrightarrow> fw_events fw = sum_list (map (length \<circ> snd) (fw_items fw)) \<and> fw_events fw \<le> queue_events"

lemma count_fields [simp]:
  "fw_items (count pid f fw) = fw_items fw" "fw_events (count pid f fw) = fw_events fw"
  "fw_configs (count pid f fw) = fw_configs fw"
  by (simp_all add: count_def)

lemma counters_for_count [simp]:
  "counters_for (count pid f fw) q = (if q = pid then f (counters_for fw pid) else counters_for fw q)"
  by (simp add: count_def counters_for_def alist_simps)

lemma counters_for_update [simp]:
  "counters_for (fw\<lparr>fw_items := i\<rparr>) q = counters_for fw q" "counters_for (fw\<lparr>fw_events := n\<rparr>) q = counters_for fw q"
  "counters_for (fw\<lparr>fw_errors := e\<rparr>) q = counters_for fw q" "counters_for (fw\<lparr>fw_stopped := s\<rparr>) q = counters_for fw q"
  "counters_for (fw\<lparr>fw_configs := cs\<rparr>) q = counters_for fw q" "counters_for (fw\<lparr>fw_table := cs\<rparr>) q = counters_for fw q"
  by (simp_all add: counters_for_def)

lemma accounted_update [simp]:
  "accounted (fw\<lparr>fw_items := i\<rparr>) q = accounted fw q" "accounted (fw\<lparr>fw_events := n\<rparr>) q = accounted fw q"
  by (simp_all add: accounted_def)

lemma concat_chunks: "0 < n \<Longrightarrow> concat (chunks n xs) = xs"
proof (induction n xs rule: chunks.induct)
  case (1 n xs)
  then show ?case by (subst chunks.simps) auto
qed

lemma send_chunk_fields [simp]:
  "fw_items (send_chunk rp pid cfg fw es) = fw_items fw" "fw_events (send_chunk rp pid cfg fw es) = fw_events fw"
  by (simp_all add: send_chunk_def split: sum.splits)

lemma accounted_send_chunk:
  "accounted (send_chunk rp pid cfg fw es) q = accounted fw q + (if q = pid then of_nat (length es) else 0)"
  by (auto simp: send_chunk_def accounted_def Let_def split: sum.splits)

lemma send_chunks:
  "fw_items (foldl (send_chunk rp pid cfg) fw ess) = fw_items fw"
  "fw_events (foldl (send_chunk rp pid cfg) fw ess) = fw_events fw"
  "accounted (foldl (send_chunk rp pid cfg) fw ess) q = accounted fw q + (if q = pid then of_nat (length (concat ess)) else 0)"
  by (induction ess arbitrary: fw) (simp_all add: accounted_send_chunk)

lemma batch_events_pos: "0 < batch_events"
  by (simp add: batch_events_def)

lemma forward_next_cases:
  assumes "fw_items fw = (pid, es) # rest"
  shows "fw_items (forward_next rp fw) = rest" "fw_events (forward_next rp fw) = fw_events fw - length es"
    "accounted (forward_next rp fw) q = accounted fw q + (if q = pid \<and> enabled fw pid then of_nat (length es) else 0)"
  using assms
  by (auto simp: forward_next_def Let_def enabled_def send_chunks concat_chunks batch_events_pos
      split: option.splits)

lemma forward_run_inv:
  "forward_run fw offered skipped \<Longrightarrow>
     queue_ok fw \<and> (\<forall>pid. of_nat (offered pid) = accounted fw pid + of_nat (queued_events fw pid + skipped pid))"
proof (induction rule: forward_run.induct)
  case (forward_start table)
  then show ?case
    by (simp add: forwarder_open_def queue_ok_def accounted_def counters_for_def queued_events_def)
next
  case (forward_offer fw offered skipped pid es)
  then show ?case
    by (auto simp: offer_def queue_ok_def accounted_def queued_events_def Let_def algebra_simps)
next
  case (forward_work fw offered skipped pid es rest rp)
  note f = forward_next_cases [OF forward_work(2), of rp]
  have "queue_ok (forward_next rp fw)"
    using forward_work by (auto simp: queue_ok_def f)
  then show ?case
    using forward_work by (auto simp: f queued_events_def algebra_simps)
next
  case (forward_config fw offered skipped stored pid cfg)
  then show ?case by (auto simp: set_config_def queue_ok_def accounted_def queued_events_def)
next
  case (forward_stop fw offered skipped)
  then show ?case by (simp add: forwarder_stop_def queue_ok_def accounted_def queued_events_def)
qed

section \<open>Property\<close>

text \<open>Shadow mode keeps account of every event. Whatever the order of offers, worker turns, changes of
  the settings and stops, and whatever the server answers: the queue's counter is the number of events in
  the queue and at most its limit, and for every project the events offered while forwarding was on are
  those sent, dropped, failed, still queued, and taken out after it was turned off (as \<open>u64\<close> values).\<close>

theorem forward_accounting:
  assumes "forward_run fw offered skipped"
  shows "fw_events fw = sum_list (map (length \<circ> snd) (fw_items fw)) \<and> fw_events fw \<le> queue_events
    \<and> of_nat (offered pid)
        = c_forwarded (counters_for fw pid) + c_dropped (counters_for fw pid) + c_failed (counters_for fw pid)
          + of_nat (queued_events fw pid + skipped pid)"
  using forward_run_inv [OF assms] by (simp add: queue_ok_def accounted_def Let_def)

definition sample_shadow :: forwarding_config where
  "sample_shadow = \<lparr>fc_enabled = True, fc_host = ''h'', fc_token = ''t''\<rparr>"

definition sample_shadow_event :: captured_event where
  "sample_shadow_event = \<lparr>uuid = 1, event = ''e'', distinct_id = ''d'', token = ''t'', timestamp = 0, properties = []\<rparr>"

theorem forward_accounting_witness:
  "\<exists>fw. fw_items fw = [(''p'', [sample_shadow_event])] \<and> queued_events fw ''p'' = 1
    \<and> c_forwarded (counters_for fw ''p'') + c_dropped (counters_for fw ''p'') + c_failed (counters_for fw ''p'') = 1"
proof -
  let ?es = "[sample_shadow_event]"
  let ?f0 = "forwarder_open [(''p'', sample_shadow)]"
  let ?f1 = "offer ''p'' ?es ?f0"
  let ?f2 = "forward_next (\<lambda>_ _ _. Answered 200) ?f1"
  let ?f3 = "offer ''p'' ?es ?f2"
  have e0: "enabled ?f0 ''p''" by (simp add: enabled_def forwarder_open_def sample_shadow_def)
  have f1: "?f1 = ?f0\<lparr>fw_events := 1, fw_items := [(''p'', ?es)]\<rparr>"
    using e0 by (simp add: offer_def queue_events_def forwarder_open_def)
  have e1: "enabled ?f1 ''p''" unfolding f1 using e0 by (simp add: enabled_def)
  have one: "chunks batch_events ?es = [?es]"
    by (subst chunks.simps) (simp add: batch_events_def chunks.simps [of _ "[]"])
  have f2: "?f2 = ?f0\<lparr>fw_events := 0, fw_counters := [(''p'', \<lparr>c_forwarded = 1, c_dropped = 0, c_failed = 0\<rparr>)]\<rparr>"
    unfolding f1 by (simp add: forward_next_def Let_def forwarder_open_def sample_shadow_def one send_chunk_def send_def
      max_attempts_def eval_nat_numeral count_def counters_for_def)
  have e2: "enabled ?f2 ''p''" unfolding f2 using e0 by (simp add: enabled_def)
  have items: "fw_items ?f3 = [(''p'', ?es)]"
    using e2 unfolding f2 by (simp add: offer_def queue_events_def forwarder_open_def)
  have r1: "forward_run ?f1 (\<lambda>q. if q = ''p'' then Suc 0 else 0) (\<lambda>_. 0)"
    using forward_offer [OF forward_start [of "[(''p'', sample_shadow)]"], of "''p''" ?es] e0
    by (simp add: fun_upd_def One_nat_def)
  have "fw_items ?f1 = [(''p'', ?es)]" unfolding f1 by simp
  from forward_work [OF r1 this, of "\<lambda>_ _ _. Answered 200"] e1
  have r2: "forward_run ?f2 (\<lambda>q. if q = ''p'' then Suc 0 else 0) (\<lambda>_. 0)" by simp
  have r3: "forward_run ?f3 (\<lambda>q. if q = ''p'' then Suc (Suc 0) else 0) (\<lambda>_. 0)"
    using forward_offer [OF r2, of "''p''" ?es] e2 by (simp add: fun_upd_def if_distrib cong: if_cong)
  have q: "queued_events ?f3 ''p'' = 1" by (simp add: queued_events_def items)
  have two: "x = 1" if "1 + 1 = x + (1 :: u64)" for x using that by simp
  have "c_forwarded (counters_for ?f3 ''p'') + c_dropped (counters_for ?f3 ''p'') + c_failed (counters_for ?f3 ''p'') = 1"
    by (rule two) (use forward_accounting [OF r3, of "''p''"] in \<open>simp only: q if_True of_nat_Suc semiring_1_class.of_nat_0 add_0_right add_0_left One_nat_def simp_thms\<close>)
  then show ?thesis using q items by blast
qed

end
