(* ===== verification/Capture.thy ===== *)
theory Capture
  imports CaptureEvent Decompress Enrichment Forward RateLimit "HOL-Library.List_Lexorder" "HOL-Library.Char_ord"
begin

text \<open>
  The capture handler, \<open>src/capture/mod.rs\<close>: decoding, parsing, enrichment, authorization of every token,
  rate limits, the sink, forwarding and the answer, with the counters of \<open>src/metrics.rs\<close> and the cached
  authorizer. What the handler takes from outside a request (gates, joined tasks, clock) is the record
  \<open>surroundings\<close>. The authorizer and the sink are the code's two traits: functions of the record \<open>services\<close>,
  each on a state of its own.
\<close>

section \<open>Metrics\<close>

record metrics =
  m_captured :: u64
  m_acked :: u64
  m_rejected :: u64
  m_sink_errors :: u64

definition inc_captured :: "u64 \<Rightarrow> metrics \<Rightarrow> metrics" where
  "inc_captured n m = m\<lparr>m_captured := m_captured m + n\<rparr>"

definition inc_acked :: "u64 \<Rightarrow> metrics \<Rightarrow> metrics" where
  "inc_acked n m = m\<lparr>m_acked := m_acked m + n\<rparr>"

definition inc_rejected :: "metrics \<Rightarrow> metrics" where
  "inc_rejected m = m\<lparr>m_rejected := m_rejected m + 1\<rparr>"

definition inc_sink_errors :: "metrics \<Rightarrow> metrics" where
  "inc_sink_errors m = m\<lparr>m_sink_errors := m_sink_errors m + 1\<rparr>"

section \<open>Authorizer and sink\<close>

datatype authorization_error = Rejected | Unavailable

datatype sink_error = Retryable | Fatal

record authorized_batch =
  ab_events :: "captured_event list"
  ab_projects :: "(string \<times> string) list"
  ab_historical :: bool

record ('a, 's) services =
  authorize :: "'a \<Rightarrow> string \<Rightarrow> (authorization_error + string) \<times> 'a"
  append :: "'s \<Rightarrow> authorized_batch \<Rightarrow> (sink_error + unit) \<times> 's"

record ('a, 's) capture_state =
  cs_authorizer :: 'a
  cs_limiter :: rate_limiter
  cs_metrics :: metrics
  cs_sink :: 's
  cs_forwarder :: "forwarder option"

record capture_request =
  rq_path :: string
  rq_sent_at :: "string option"
  rq_compression :: "string option"
  rq_beacon :: "string option"
  rq_content_type :: "string option"
  rq_user_agent :: "string option"
  rq_forwarded_for :: "string option"
  rq_real_ip :: "string option"
  rq_body :: string

text \<open>\<open>budget n\<close>: the memory budget grants \<open>n\<close> KiB within the waiting time.\<close>

record surroundings =
  gate_open :: bool
  decode_joined :: bool
  budget :: "nat \<Rightarrow> bool"
  parse_joined :: bool
  clock :: instant
  codec :: codecs
  parsers :: capture_externals
  enricher :: enrich_externals
  enricher_config :: enrichment_config

datatype response =
    StatusOne | NoContent | BadRequest | Unauthorized401 | PayloadTooLarge | TooManyRequests | ServiceUnavailable

section \<open>Limits\<close>

definition max_event_decoded_bytes :: nat where
  "max_event_decoded_bytes = 16 * 1024 * 1024"

definition max_batch_decoded_bytes :: nat where
  "max_batch_decoded_bytes = 32 * 1024 * 1024"

definition parse_cost_factor :: nat where
  "parse_cost_factor = 16"

definition parse_budget_bytes :: nat where
  "parse_budget_bytes = 512 * 1024 * 1024"

definition decoded_limit :: "capture_request \<Rightarrow> nat" where
  "decoded_limit rq =
     max (if starts_with ''/batch'' (rq_path rq) then max_batch_decoded_bytes else max_event_decoded_bytes)
       (length (rq_body rq))"

definition cost_kib :: "nat \<Rightarrow> nat" where
  "cost_kib n = min (min (n * parse_cost_factor) u64_max div 1024 + 1) (parse_budget_bytes div 1024)"

section \<open>Steps of the handler\<close>

definition form_encoded :: "capture_request \<Rightarrow> bool" where
  "form_encoded rq =
     (case rq_content_type rq of None \<Rightarrow> False | Some ct \<Rightarrow> starts_with ''application/x-www-form-urlencoded'' ct)"

definition client_ip :: "capture_request \<Rightarrow> string option" where
  "client_ip rq =
     (case or_else (map_option (takeWhile (\<lambda>c. c \<noteq> CHR '','')) (rq_forwarded_for rq)) (rq_real_ip rq) of
        None \<Rightarrow> None
      | Some v \<Rightarrow> let a = trim v in if a \<noteq> [] \<and> length a \<le> 64 then Some a else None)"

definition bump :: "(string \<times> nat) list \<Rightarrow> captured_event \<Rightarrow> (string \<times> nat) list" where
  "bump m e = AList.update (token e) (sat_add u32_top (case map_of m (token e) of None \<Rightarrow> 0 | Some n \<Rightarrow> n) 1) m"

definition token_counts :: "captured_event list \<Rightarrow> (string \<times> nat) list" where
  "token_counts es = sort_key fst (foldl bump [] es)"

fun authorize_all ::
    "('a \<Rightarrow> string \<Rightarrow> (authorization_error + string) \<times> 'a) \<Rightarrow> 'a \<Rightarrow> string list \<Rightarrow> (unit + (string \<times> string) list) \<times> 'a" where
  "authorize_all au a [] = (Inr [], a)"
| "authorize_all au a (t # ts) =
     (case au a t of
        (Inl _, a1) \<Rightarrow> (Inl (), a1)
      | (Inr p, a1) \<Rightarrow>
          (case authorize_all au a1 ts of
             (Inl e, a2) \<Rightarrow> (Inl e, a2)
           | (Inr ps, a2) \<Rightarrow> (Inr ((t, p) # ps), a2)))"

fun allow_tokens :: "rate_limiter \<Rightarrow> (string \<times> nat) list \<Rightarrow> int \<Rightarrow> bool \<times> rate_limiter" where
  "allow_tokens rl [] now = (True, rl)"
| "allow_tokens rl ((t, n) # rest) now =
     (case allow rl t n now of (ok, rl1) \<Rightarrow> if ok then allow_tokens rl1 rest now else (False, rl1))"

text \<open>The acknowledged events by project, in the projects' order, offered to the forwarder.\<close>

definition add_to_project :: "(string \<times> string) list \<Rightarrow> (string \<times> captured_event list) list \<Rightarrow> captured_event \<Rightarrow> (string \<times> captured_event list) list" where
  "add_to_project bindings m e =
     (case map_of bindings (token e) of
        None \<Rightarrow> m
      | Some p \<Rightarrow> AList.update p ((case map_of m p of None \<Rightarrow> [] | Some es \<Rightarrow> es) @ [e]) m)"

definition by_project :: "(string \<times> string) list \<Rightarrow> captured_event list \<Rightarrow> (string \<times> captured_event list) list" where
  "by_project bindings es = sort_key fst (foldl (add_to_project bindings) [] es)"

definition forward_all :: "(string \<times> string) list \<Rightarrow> captured_event list \<Rightarrow> forwarder \<Rightarrow> forwarder" where
  "forward_all bindings es fw = foldl (\<lambda>f (p, pes). offer p pes f) fw (by_project bindings es)"

text \<open>From the decoded text to the parsed batch, or the answer that refuses it.\<close>

definition decode_request :: "surroundings \<Rightarrow> capture_request \<Rightarrow> response + string" where
  "decode_request sr rq =
     (let form = form_encoded rq; hint = rq_compression rq;
          expands = may_expand (rq_body rq) form hint in
      if expands \<and> (\<not> gate_open sr \<or> \<not> decode_joined sr) then Inl ServiceUnavailable
      else case decode_limited (codec sr) (rq_body rq) form hint (decoded_limit rq) of
        Inr text \<Rightarrow> Inr text
      | Inl TooLarge \<Rightarrow> Inl PayloadTooLarge
      | Inl Undecodable \<Rightarrow> Inl BadRequest)"

definition parse_request :: "surroundings \<Rightarrow> capture_request \<Rightarrow> string \<Rightarrow> response + capture_error + parsed_batch" where
  "parse_request sr rq text =
     (if \<not> budget sr (cost_kib (length text)) then Inl ServiceUnavailable
      else if 64 * 1024 < length text \<and> \<not> parse_joined sr then Inl ServiceUnavailable
      else Inr (parse_body (parsers sr) text (Option.bind (rq_sent_at rq) (parse_sent_at_ms (parsers sr))) (clock sr)))"

definition enrich_all :: "surroundings \<Rightarrow> capture_request \<Rightarrow> captured_event list \<Rightarrow> captured_event list" where
  "enrich_all sr rq = map (enrich (enricher sr) (enricher_config sr) (client_ip rq) (rq_user_agent rq))"

definition reject :: "response \<Rightarrow> ('a, 's) capture_state \<Rightarrow> response \<times> ('a, 's) capture_state" where
  "reject r st = (r, st\<lparr>cs_metrics := inc_rejected (cs_metrics st)\<rparr>)"

definition success :: "capture_request \<Rightarrow> response" where
  "success rq = (if rq_beacon rq = Some ''1'' then NoContent else StatusOne)"

text \<open>The sink takes the batch; an acknowledged one that is not historical is forwarded.\<close>

definition store_batch ::
    "('a, 's) services \<Rightarrow> capture_request \<Rightarrow> captured_event list \<Rightarrow> (string \<times> string) list \<Rightarrow> bool
     \<Rightarrow> ('a, 's) capture_state \<Rightarrow> response \<times> ('a, 's) capture_state" where
  "store_batch sv rq es bindings historical st0 =
     (let n = of_nat (length es);
          st = st0\<lparr>cs_metrics := inc_captured n (cs_metrics st0)\<rparr> in
      case append sv (cs_sink st) \<lparr>ab_events = es, ab_projects = bindings, ab_historical = False\<rparr> of
        (Inr _, s1) \<Rightarrow>
          (success rq,
           st\<lparr>cs_sink := s1, cs_metrics := inc_acked n (cs_metrics st),
              cs_forwarder := (if historical then cs_forwarder st else map_option (forward_all bindings es) (cs_forwarder st))\<rparr>)
      | (Inl Retryable, s1) \<Rightarrow>
          (ServiceUnavailable, st\<lparr>cs_sink := s1, cs_metrics := inc_sink_errors (cs_metrics st)\<rparr>)
      | (Inl Fatal, s1) \<Rightarrow> reject BadRequest (st\<lparr>cs_sink := s1\<rparr>))"

definition handle_events ::
    "('a, 's) services \<Rightarrow> surroundings \<Rightarrow> capture_request \<Rightarrow> captured_event list \<Rightarrow> bool
     \<Rightarrow> ('a, 's) capture_state \<Rightarrow> response \<times> ('a, 's) capture_state" where
  "handle_events sv sr rq es historical st =
     (let counts = token_counts es in
      case authorize_all (authorize sv) (cs_authorizer st) (map fst counts) of
        (Inl _, a1) \<Rightarrow> reject Unauthorized401 (st\<lparr>cs_authorizer := a1\<rparr>)
      | (Inr bindings, a1) \<Rightarrow>
          (case allow_tokens (cs_limiter st) counts (clock sr div nanos_per_second) of
             (ok, rl1) \<Rightarrow>
               if ok then store_batch sv rq es bindings historical (st\<lparr>cs_authorizer := a1, cs_limiter := rl1\<rparr>)
               else reject TooManyRequests (st\<lparr>cs_authorizer := a1, cs_limiter := rl1\<rparr>)))"

definition capture ::
    "('a, 's) services \<Rightarrow> surroundings \<Rightarrow> capture_request \<Rightarrow> ('a, 's) capture_state \<Rightarrow> response \<times> ('a, 's) capture_state" where
  "capture sv sr rq st =
     (case and_then (decode_request sr rq) (parse_request sr rq) of
        Inl r \<Rightarrow> (r, st)
      | Inr (Inl (Malformed _)) \<Rightarrow> reject BadRequest st
      | Inr (Inl (Unauthorized _)) \<Rightarrow> reject Unauthorized401 st
      | Inr (Inr b) \<Rightarrow>
          (let es = enrich_all sr rq (pb_events b) in
           if es = [] then (success rq, st) else handle_events sv sr rq es (pb_historical b) st))"

end
