(* ===== verification/Authorizer.thy ===== *)
theory Authorizer
  imports Capture
begin

text \<open>
  The capture authorizers of \<open>src/capture/mod.rs\<close>: the fixed map of tests and tools, and the production one,
  which caches the decisions of the control store (\<open>authorize_capture\<close> of \<open>src/control.rs\<close>). The state of the
  production authorizer holds its cache, and what it reads from outside: the project table, whether the
  control worker answers, and the monotonic clock (nanoseconds).
\<close>

section \<open>The contract of the handler\<close>

text \<open>\<open>granted a t p\<close>: in state \<open>a\<close> it is justified to store events of token \<open>t\<close> under project \<open>p\<close>.\<close>

locale capture_authorizer =
  fixes ask :: "'a \<Rightarrow> string \<Rightarrow> (authorization_error + string) \<times> 'a"
    and ok :: "'a \<Rightarrow> bool"
    and granted :: "'a \<Rightarrow> string \<Rightarrow> string \<Rightarrow> bool"
  assumes ask_ok: "ok a \<Longrightarrow> ask a t = (r, a') \<Longrightarrow> ok a'"
    and ask_granted: "ok a \<Longrightarrow> ask a t = (Inr p, a') \<Longrightarrow> granted a t p"
    and ask_keeps: "ok a \<Longrightarrow> ask a t = (r, a') \<Longrightarrow> granted a' u p = granted a u p"
begin

lemma authorize_all_granted:
  "ok a \<Longrightarrow> authorize_all ask a ts = (Inr bs, a') \<Longrightarrow> map fst bs = ts \<and> (\<forall>(t, p) \<in> set bs. granted a t p)"
proof (induction ts arbitrary: a bs)
  case (Cons t ts)
  then obtain p a1 ps where s: "ask a t = (Inr p, a1)" "authorize_all ask a1 ts = (Inr ps, a')" "bs = (t, p) # ps"
    by (auto split: prod.splits sum.splits)
  have "map fst ps = ts \<and> (\<forall>(t, p) \<in> set ps. granted a1 t p)"
    by (rule Cons.IH [OF ask_ok [OF Cons.prems(1) s(1)] s(2)])
  then show ?case using s(3) ask_granted [OF Cons.prems(1) s(1)] ask_keeps [OF Cons.prems(1) s(1)] by auto
qed simp

lemma every_token_granted:
  assumes "ok a" and "authorize_all ask a ts = (Inr bs, a')" and "t \<in> set ts"
  shows "\<exists>p. map_of bs t = Some p \<and> granted a t p"
proof -
  have b: "map fst bs = ts" "\<forall>(t, p) \<in> set bs. granted a t p"
    using authorize_all_granted [OF assms(1,2)] by auto
  then obtain p where "map_of bs t = Some p"
    using assms(3) by (metis image_set map_of_eq_None_iff not_None_eq)
  then show ?thesis using b(2) map_of_SomeD by fastforce
qed

end

section \<open>The fixed map\<close>

definition static_authorize ::
    "(string \<times> string) list \<Rightarrow> string \<Rightarrow> (authorization_error + string) \<times> (string \<times> string) list" where
  "static_authorize projects t = (ok_or (map_of projects t) Rejected, projects)"

interpretation static_authorizer: capture_authorizer static_authorize "\<lambda>_. True" "\<lambda>ps t p. map_of ps t = Some p"
  by unfold_locales (auto simp: static_authorize_def result_simps)

section \<open>The control store\<close>

datatype access_error = AccessInvalidToken | AccessUnauthorized | AccessUnavailable

text \<open>The project table as pairs of id and capture token; \<open>up\<close>: the worker and its database answer.\<close>

definition authorize_capture :: "bool \<Rightarrow> (string \<times> string) list \<Rightarrow> string \<Rightarrow> access_error + string" where
  "authorize_capture up projects value =
     (if \<not> up then Inl AccessUnavailable
      else case validate value of
        Inl _ \<Rightarrow> Inl AccessInvalidToken
      | Inr _ \<Rightarrow> ok_or (map_option fst (find (\<lambda>(id, tok). tok = value) projects)) AccessUnauthorized)"

section \<open>The cache of decisions\<close>

definition token_cache_entries :: nat where
  "token_cache_entries = 10000"

definition token_cache_accept_ttl :: nat where
  "token_cache_accept_ttl = 60 * 1000000000"

definition token_cache_reject_ttl :: nat where
  "token_cache_reject_ttl = 10 * 1000000000"

type_synonym token_cache = "(string \<times> string option \<times> nat) list"

definition cache_ttl :: "string option \<Rightarrow> nat" where
  "cache_ttl decision = (if decision \<noteq> None then token_cache_accept_ttl else token_cache_reject_ttl)"

definition cached :: "token_cache \<Rightarrow> nat \<Rightarrow> string \<Rightarrow> string option option" where
  "cached cache now tok =
     (case map_of cache tok of
        None \<Rightarrow> None
      | Some (decision, since) \<Rightarrow> if now - since < cache_ttl decision then Some decision else None)"

definition remember :: "token_cache \<Rightarrow> nat \<Rightarrow> string \<Rightarrow> string option \<Rightarrow> token_cache" where
  "remember cache now tok decision =
     (let live = filter (\<lambda>(_, d, since). now - since < cache_ttl d) cache;
          room = (if token_cache_entries \<le> length cache
                  then (if token_cache_entries \<le> length live then [] else live) else cache)
      in AList.update tok (decision, now) room)"

record project_authorizer =
  pa_cache :: token_cache
  pa_projects :: "(string \<times> string) list"
  pa_up :: bool
  pa_now :: nat

definition project_authorizer_new :: "(string \<times> string) list \<Rightarrow> bool \<Rightarrow> nat \<Rightarrow> project_authorizer" where
  "project_authorizer_new projects up now = \<lparr>pa_cache = [], pa_projects = projects, pa_up = up, pa_now = now\<rparr>"

definition project_authorize :: "project_authorizer \<Rightarrow> string \<Rightarrow> (authorization_error + string) \<times> project_authorizer" where
  "project_authorize pa tok =
     (case cached (pa_cache pa) (pa_now pa) tok of
        Some decision \<Rightarrow> (ok_or decision Rejected, pa)
      | None \<Rightarrow>
          (case authorize_capture (pa_up pa) (pa_projects pa) tok of
             Inr p \<Rightarrow> (Inr p, pa\<lparr>pa_cache := remember (pa_cache pa) (pa_now pa) tok (Some p)\<rparr>)
           | Inl AccessUnavailable \<Rightarrow> (Inl Unavailable, pa)
           | Inl _ \<Rightarrow> (Inl Rejected, pa\<lparr>pa_cache := remember (pa_cache pa) (pa_now pa) tok None\<rparr>)))"

section \<open>Lives of the cached authorizer\<close>

text \<open>Calls, and changes of the world between them. The history lists the project tables with their times.\<close>

type_synonym history = "(nat \<times> (string \<times> string) list) list"

inductive auth_run :: "project_authorizer \<Rightarrow> history \<Rightarrow> bool" where
  auth_start: "auth_run (project_authorizer_new ps up now) [(now, ps)]"
| auth_ask: "auth_run pa h \<Longrightarrow> project_authorize pa tok = (r, pa') \<Longrightarrow> auth_run pa' h"
| auth_world: "auth_run pa h \<Longrightarrow> pa_now pa \<le> now
    \<Longrightarrow> auth_run (pa\<lparr>pa_now := now, pa_projects := ps, pa_up := up\<rparr>) ((now, ps) # h)"

definition decided :: "(string \<times> string) list \<Rightarrow> string \<Rightarrow> string option \<Rightarrow> bool" where
  "decided ps tok d \<longleftrightarrow>
     (case d of Some p \<Rightarrow> authorize_capture True ps tok = Inr p
      | None \<Rightarrow> authorize_capture True ps tok \<in> {Inl AccessInvalidToken, Inl AccessUnauthorized})"

text \<open>\<open>tok\<close> was decided as \<open>d\<close> by the store less than a time to live ago.\<close>

definition fresh :: "history \<Rightarrow> nat \<Rightarrow> string \<Rightarrow> string option \<Rightarrow> bool" where
  "fresh h now tok d \<longleftrightarrow> (\<exists>since ps. (since, ps) \<in> set h \<and> since \<le> now \<and> now < since + cache_ttl d \<and> decided ps tok d)"

definition auth_inv :: "project_authorizer \<Rightarrow> history \<Rightarrow> bool" where
  "auth_inv pa h \<longleftrightarrow>
     (pa_now pa, pa_projects pa) \<in> set h \<and> length (pa_cache pa) \<le> token_cache_entries
     \<and> (\<forall>tok d since. (tok, d, since) \<in> set (pa_cache pa) \<longrightarrow> since \<le> pa_now pa \<and> (\<exists>ps. (since, ps) \<in> set h \<and> decided ps tok d))"

lemma ttl_pos: "0 < cache_ttl d"
  by (simp add: cache_ttl_def token_cache_accept_ttl_def token_cache_reject_ttl_def)

lemma remember_length: "length cache \<le> token_cache_entries \<Longrightarrow> length (remember cache now tok d) \<le> token_cache_entries"
  by (auto simp: remember_def Let_def alist_simps token_cache_entries_def)

lemma remember_set: "set (remember cache now tok d) \<subseteq> insert (tok, d, now) (set cache)"
  using set_update_subset [of tok "(d, now)"] by (fastforce simp: remember_def Let_def split: if_splits)

lemma auth_inv_remember:
  assumes "auth_inv pa h" "decided (pa_projects pa) tok d"
  shows "auth_inv (pa\<lparr>pa_cache := remember (pa_cache pa) (pa_now pa) tok d\<rparr>) h"
  using assms remember_set [of "pa_cache pa" "pa_now pa" tok d] remember_length
  by (fastforce simp: auth_inv_def)

lemma authorize_capture_decided:
  "authorize_capture up ps tok = Inr p \<Longrightarrow> decided ps tok (Some p)"
  "authorize_capture up ps tok = Inl AccessInvalidToken \<Longrightarrow> decided ps tok None"
  "authorize_capture up ps tok = Inl AccessUnauthorized \<Longrightarrow> decided ps tok None"
  by (cases up; simp add: decided_def authorize_capture_def)+

lemma project_authorize_inv: "auth_inv pa h \<Longrightarrow> auth_inv (snd (project_authorize pa tok)) h"
  by (auto simp: project_authorize_def authorize_capture_decided intro: auth_inv_remember
      split: option.splits sum.splits access_error.splits)

lemma auth_run_inv: "auth_run pa h \<Longrightarrow> auth_inv pa h"
proof (induction rule: auth_run.induct)
  case (auth_start ps up now)
  then show ?case by (simp add: project_authorizer_new_def auth_inv_def)
next
  case (auth_ask pa h tok r pa')
  then show ?case using project_authorize_inv [of pa h tok] by simp
next
  case (auth_world pa h now ps up)
  then show ?case by (fastforce simp: auth_inv_def)
qed

lemma cached_fresh:
  assumes "auth_inv pa h" "cached (pa_cache pa) (pa_now pa) tok = Some d"
  shows "fresh h (pa_now pa) tok d"
proof -
  obtain since where "map_of (pa_cache pa) tok = Some (d, since)" "pa_now pa - since < cache_ttl d"
    using assms(2) by (auto simp: cached_def split: option.splits if_splits)
  then have "(tok, d, since) \<in> set (pa_cache pa)" "pa_now pa - since < cache_ttl d" by (auto dest: map_of_SomeD)
  then show ?thesis using assms(1) by (fastforce simp: auth_inv_def fresh_def)
qed

lemma now_fresh: "auth_inv pa h \<Longrightarrow> decided (pa_projects pa) tok d \<Longrightarrow> fresh h (pa_now pa) tok d"
  using ttl_pos [of d] by (force simp: auth_inv_def fresh_def)

lemma project_authorize_fresh:
  assumes "auth_inv pa h"
  shows "project_authorize pa tok = (Inr p, pa') \<Longrightarrow> fresh h (pa_now pa) tok (Some p)"
    and "project_authorize pa tok = (Inl Rejected, pa') \<Longrightarrow> fresh h (pa_now pa) tok None"
  using cached_fresh [OF assms, of tok] now_fresh [OF assms, of tok]
  by (auto simp: project_authorize_def ok_or_def authorize_capture_decided
      split: option.splits sum.splits access_error.splits)

lemma project_authorize_now [simp]: "pa_now (snd (project_authorize pa tok)) = pa_now pa"
  by (auto simp: project_authorize_def split: option.splits sum.splits access_error.splits)

text \<open>The authorizer with its history is an authorizer of the handler.\<close>

definition authorize_logged :: "project_authorizer \<times> history \<Rightarrow> string \<Rightarrow> (authorization_error + string) \<times> project_authorizer \<times> history" where
  "authorize_logged = (\<lambda>(pa, h) tok. case project_authorize pa tok of (r, pa') \<Rightarrow> (r, pa', h))"

interpretation project_auth: capture_authorizer authorize_logged "\<lambda>(pa, h). auth_run pa h"
    "\<lambda>(pa, h) tok p. fresh h (pa_now pa) tok (Some p)"
proof unfold_locales
  fix a :: "project_authorizer \<times> history" and t r a'
  assume ok: "case a of (pa, h) \<Rightarrow> auth_run pa h" and ask: "authorize_logged a t = (r, a')"
  obtain pa h pa' where a: "a = (pa, h)" "project_authorize pa t = (r, pa')" "a' = (pa', h)"
    using ask by (cases a) (auto simp: authorize_logged_def split: prod.splits)
  show "case a' of (pa, h) \<Rightarrow> auth_run pa h" using ok a auth_ask by auto
  show "(case a' of (pa, h) \<Rightarrow> \<lambda>tok p. fresh h (pa_now pa) tok (Some p)) u p
      = (case a of (pa, h) \<Rightarrow> \<lambda>tok p. fresh h (pa_now pa) tok (Some p)) u p" for u p
    using a project_authorize_now [of pa t] by simp
next
  fix a :: "project_authorizer \<times> history" and t p a'
  assume "case a of (pa, h) \<Rightarrow> auth_run pa h" and "authorize_logged a t = (Inr p, a')"
  then show "(case a of (pa, h) \<Rightarrow> \<lambda>tok p. fresh h (pa_now pa) tok (Some p)) t p"
    using project_authorize_fresh(1) [OF auth_run_inv] by (cases a) (auto simp: authorize_logged_def split: prod.splits)
qed

end
