(* ===== verification/Sink.thy ===== *)
theory Sink
  imports Authorizer WalRun
begin

text \<open>
  The event sinks of \<open>src/sink.rs\<close>: the bounded memory sink, and the durable one: admission to the writer's
  queue, the writer's group commit (one sync, then the acknowledgements), its seals, and the hand-over of
  erasures with the segment they must cover. \<open>io i\<close> is the disk at the \<open>i\<close>-th write of a group and
  \<open>backlog i\<close> the bytes of sealed segments the writer then reads from the shared counters. The publisher's side
  of the threads is not modelled here.
\<close>

section \<open>The memory sink\<close>

definition memory_sink_max_events :: nat where
  "memory_sink_max_events = 1000000"

definition memory_append :: "captured_event list \<Rightarrow> authorized_batch \<Rightarrow> (sink_error + unit) \<times> captured_event list" where
  "memory_append stored b =
     (if memory_sink_max_events < length stored + length (ab_events b) then (Inl Retryable, stored)
      else (Inr (), stored @ ab_events b))"

section \<open>Counters\<close>

record pipeline_stats =
  sealed_bytes :: nat
  active_bytes :: nat
  active_oldest_ms :: int
  sealed_oldest :: "(nat \<times> int) list"
  acked_events :: u64
  published_events :: u64

definition stats_new :: pipeline_stats where
  "stats_new =
     \<lparr>sealed_bytes = 0, active_bytes = 0, active_oldest_ms = 0, sealed_oldest = [], acked_events = 0, published_events = 0\<rparr>"

definition unpublished_bytes :: "pipeline_stats \<Rightarrow> nat" where
  "unpublished_bytes ps = sat_add u64_max (sealed_bytes ps) (active_bytes ps)"

text \<open>Milliseconds of lag; the code divides by 1000.\<close>

definition lag_ms :: "int \<Rightarrow> pipeline_stats \<Rightarrow> int" where
  "lag_ms now ps =
     (let sealed = (case sealed_oldest ps of [] \<Rightarrow> None | (_, ms) # _ \<Rightarrow> Some ms);
          active = (if 0 < active_oldest_ms ps then Some (active_oldest_ms ps) else None) in
      case (sealed, active) of
        (Some a, Some b) \<Rightarrow> max (now - min a b) 0
      | (Some a, None) \<Rightarrow> max (now - a) 0
      | (None, Some b) \<Rightarrow> max (now - b) 0
      | (None, None) \<Rightarrow> 0)"

definition note_acked :: "int \<Rightarrow> nat \<Rightarrow> pipeline_stats \<Rightarrow> pipeline_stats" where
  "note_acked received n ps =
     ps\<lparr>acked_events := acked_events ps + of_nat n,
        active_oldest_ms := (if active_oldest_ms ps = 0 then max received 1 else active_oldest_ms ps)\<rparr>"

definition note_sealed :: "nat \<Rightarrow> pipeline_stats \<Rightarrow> pipeline_stats" where
  "note_sealed s ps =
     (let oldest = active_oldest_ms ps; ps1 = ps\<lparr>active_oldest_ms := 0\<rparr> in
      if 0 < oldest then ps1\<lparr>sealed_oldest := sealed_oldest ps @ [(s, oldest)]\<rparr> else ps1)"

definition note_published :: "nat \<Rightarrow> nat \<Rightarrow> pipeline_stats \<Rightarrow> pipeline_stats" where
  "note_published n checkpoint_segment ps =
     ps\<lparr>published_events := published_events ps + of_nat n,
        sealed_oldest := dropWhile (\<lambda>(s, _). s < checkpoint_segment) (sealed_oldest ps)\<rparr>"

section \<open>Admission\<close>

definition queue_batches :: nat where
  "queue_batches = 4096"

definition queue_bytes :: nat where
  "queue_bytes = 128 * 1024 * 1024"

definition group_max_batches :: nat where
  "group_max_batches = 1024"

definition group_max_bytes :: nat where
  "group_max_bytes = 16 * 1024 * 1024"

definition max_unpublished_wal_bytes :: nat where
  "max_unpublished_wal_bytes = 1024 * 1024 * 1024"

datatype writer_request =
    AppendRequest captured_batch nat nat
  | EraseRequest string string
  | ShutdownRequest

record durable_sink =
  ds_queue :: "writer_request list"
  ds_free :: nat
  ds_wal :: wal_writer
  ds_stats :: pipeline_stats

definition encoded_estimate :: "captured_event list \<Rightarrow> nat" where
  "encoded_estimate es =
     sum_list (map (\<lambda>e. 256 + length (event e) + length (distinct_id e) + length (properties e) * 64) es)"

text \<open>\<open>None\<close>: the batch waits for its acknowledgement.\<close>

definition durable_admit :: "int \<Rightarrow> authorized_batch \<Rightarrow> durable_sink \<Rightarrow> sink_error option \<times> durable_sink" where
  "durable_admit now_ms ab ds =
     (case batch_authorized (ab_events ab) (ab_projects ab) (ab_historical ab) now_ms of
        Inl _ \<Rightarrow> (Some Fatal, ds)
      | Inr b \<Rightarrow>
          (let n = encoded_estimate (events b); permits = min n queue_bytes in
           if ds_free ds < permits then (Some Retryable, ds)
           else if queue_batches \<le> length (ds_queue ds) then (Some Retryable, ds)
           else (None, ds\<lparr>ds_queue := ds_queue ds @ [AppendRequest b n permits], ds_free := ds_free ds - permits\<rparr>)))"

definition request_erasure :: "string \<Rightarrow> string \<Rightarrow> durable_sink \<Rightarrow> bool \<times> durable_sink" where
  "request_erasure pid person ds =
     (if queue_batches \<le> length (ds_queue ds) then (False, ds)
      else (True, ds\<lparr>ds_queue := ds_queue ds @ [EraseRequest pid person]\<rparr>))"

section \<open>The writer\<close>

fun map_wal_error :: "wal_error \<Rightarrow> sink_error" where
  "map_wal_error EmptyBatch = Fatal"
| "map_wal_error InvalidProjectBinding = Fatal"
| "map_wal_error (RecordTooLarge _ _) = Fatal"
| "map_wal_error _ = Retryable"

fun map_error :: "('e \<Rightarrow> 'f) \<Rightarrow> 'e + 'a \<Rightarrow> 'f + 'a" where
  "map_error f (Inl e) = Inl (f e)"
| "map_error f (Inr x) = Inr x"

definition write_request ::
    "disk_io \<Rightarrow> wal_codec \<Rightarrow> nat \<Rightarrow> captured_batch \<Rightarrow> nat \<Rightarrow> wal_writer \<Rightarrow> (sink_error + unit) \<times> wal_writer" where
  "write_request dio cd backlog b n w =
     (if max_unpublished_wal_bytes < sat_add u64_max (sat_add u64_max backlog (w_bytes w)) n then (Inl Retryable, w)
      else case wal_write dio cd w b of (r, w1) \<Rightarrow> (map_error map_wal_error (and_then r (\<lambda>_. Inr ())), w1))"

record group =
  g_wal :: wal_writer
  g_pending :: "(captured_batch \<times> nat \<times> (sink_error + unit)) list"
  g_bytes :: nat
  g_erasures :: "(string \<times> string) list"
  g_shutdown :: bool

definition group_full :: "group \<Rightarrow> bool" where
  "group_full g \<longleftrightarrow> group_max_batches \<le> length (g_pending g) \<or> group_max_bytes \<le> g_bytes g"

text \<open>Drain the requests that wait, until the group is full or a shutdown comes. The rest stays queued.\<close>

definition take_request :: "(nat \<Rightarrow> disk_io) \<Rightarrow> (nat \<Rightarrow> nat) \<Rightarrow> wal_codec \<Rightarrow> writer_request \<Rightarrow> group \<Rightarrow> group" where
  "take_request io backlog cd rq g =
     (case rq of
        AppendRequest b n permits \<Rightarrow>
          (let i = length (g_pending g) in
           case write_request (io i) cd (backlog i) b n (g_wal g) of
             (r, w) \<Rightarrow>
               g\<lparr>g_wal := w, g_bytes := sat_add u64_max (g_bytes g) n, g_pending := g_pending g @ [(b, permits, r)]\<rparr>)
      | EraseRequest pid person \<Rightarrow> g\<lparr>g_erasures := g_erasures g @ [(pid, person)]\<rparr>
      | ShutdownRequest \<Rightarrow> g\<lparr>g_shutdown := True\<rparr>)"

fun gather :: "(nat \<Rightarrow> disk_io) \<Rightarrow> (nat \<Rightarrow> nat) \<Rightarrow> wal_codec \<Rightarrow> writer_request list \<Rightarrow> group \<Rightarrow> group \<times> writer_request list" where
  "gather io backlog cd [] g = (g, [])"
| "gather io backlog cd (rq # rest) g =
     (let g1 = take_request io backlog cd rq g in
      if g_shutdown g1 \<or> group_full g1 then (g1, rest) else gather io backlog cd rest g1)"

definition note_acks :: "(captured_batch \<times> (sink_error + unit)) list \<Rightarrow> pipeline_stats \<Rightarrow> pipeline_stats" where
  "note_acks acks ps =
     foldl (\<lambda>s (b, r). if is_ok r then note_acked (received_at_ms b) (length (events b)) s else s) ps acks"

text \<open>One sync makes the whole group durable; nobody is acknowledged before.\<close>

definition commit_group ::
    "disk_io \<Rightarrow> group \<Rightarrow> pipeline_stats \<Rightarrow> (captured_batch \<times> (sink_error + unit)) list \<times> wal_writer \<times> pipeline_stats" where
  "commit_group sio g ps =
     (if g_pending g = [] then ([], g_wal g, ps)
      else case wal_sync sio (g_wal g) of
        (synced, w) \<Rightarrow>
          (let acks = map (\<lambda>(b, _, r). (b, and_then r (\<lambda>_. map_error map_wal_error synced))) (g_pending g) in
           (acks, w, (note_acks acks ps)\<lparr>active_bytes := w_bytes w\<rparr>)))"

text \<open>A turn up to the acknowledgements. The permits of the group's batches come back.\<close>

definition group_start :: "wal_writer \<Rightarrow> group" where
  "group_start w = \<lparr>g_wal = w, g_pending = [], g_bytes = 0, g_erasures = [], g_shutdown = False\<rparr>"

definition writer_commit ::
    "(nat \<Rightarrow> disk_io) \<Rightarrow> disk_io \<Rightarrow> (nat \<Rightarrow> nat) \<Rightarrow> wal_codec \<Rightarrow> durable_sink
     \<Rightarrow> (captured_batch \<times> (sink_error + unit)) list \<times> (string \<times> string) list \<times> bool \<times> durable_sink" where
  "writer_commit io sio backlog cd ds =
     (case gather io backlog cd (ds_queue ds) (group_start (ds_wal ds)) of
        (g, rest) \<Rightarrow>
          (case commit_group sio g (ds_stats ds) of
             (acks, w, ps) \<Rightarrow>
               (acks, g_erasures g, g_shutdown g,
                ds\<lparr>ds_queue := rest, ds_wal := w, ds_stats := ps,
                   ds_free := ds_free ds + sum_list (map (\<lambda>(_, n, _). n) (g_pending g))\<rparr>)))"

text \<open>The seal of a turn: when erasures wait or the interval is over (\<open>due\<close>). An error is only logged.\<close>

definition writer_seal :: "disk_io \<Rightarrow> bool \<Rightarrow> bool \<Rightarrow> durable_sink \<Rightarrow> durable_sink" where
  "writer_seal dio erasing due ds =
     (if (erasing \<or> due) \<and> 0 < w_bytes (ds_wal ds) then
        (case wal_seal dio (ds_wal ds) of
           (Inr c, w) \<Rightarrow>
             ds\<lparr>ds_wal := w,
                ds_stats := note_sealed (segment c - 1)
                  ((ds_stats ds)\<lparr>sealed_bytes := sealed_bytes (ds_stats ds) + w_bytes (ds_wal ds), active_bytes := 0\<rparr>)\<rparr>
         | (Inl _, w) \<Rightarrow> ds\<lparr>ds_wal := w\<rparr>)
      else ds)"

text \<open>After a shutdown request the loop ends with a last seal.\<close>

definition writer_drain :: "disk_io \<Rightarrow> durable_sink \<Rightarrow> durable_sink" where
  "writer_drain dio ds =
     (case wal_seal dio (ds_wal ds) of
        (Inr c, w) \<Rightarrow> ds\<lparr>ds_wal := w, ds_stats := note_sealed (segment c - 1) (ds_stats ds)\<rparr>
      | (Inl _, w) \<Rightarrow> ds\<lparr>ds_wal := w\<rparr>)"

text \<open>An erasure goes to the publisher with the last sealed segment.\<close>

definition through_segment :: "durable_sink \<Rightarrow> nat" where
  "through_segment ds = w_seq (ds_wal ds) - 1"

definition writer_turn ::
    "(nat \<Rightarrow> disk_io) \<Rightarrow> disk_io \<Rightarrow> disk_io \<Rightarrow> bool \<Rightarrow> (nat \<Rightarrow> nat) \<Rightarrow> wal_codec \<Rightarrow> durable_sink
     \<Rightarrow> (captured_batch \<times> (sink_error + unit)) list \<times> (string \<times> string \<times> nat) list \<times> bool \<times> durable_sink" where
  "writer_turn io sio dio due backlog cd ds =
     (case writer_commit io sio backlog cd ds of
        (acks, erasures, stop, ds1) \<Rightarrow>
          (let ds2 = (if stop then writer_drain dio ds1 else writer_seal dio (erasures \<noteq> []) due ds1) in
           (acks, if stop then [] else map (\<lambda>(pid, person). (pid, person, through_segment ds2)) erasures, stop, ds2)))"

end
