(* ===== verification/SinkCorrect.thy ===== *)
theory SinkCorrect
  imports Sink WalProperties
begin

text \<open>
  The durable sink keeps the promise behind an acknowledgement. \<open>sink_run\<close> is its life: admissions, group
  commits on any disk, seals, the publisher's changes of the counters, crashes. Its runs are runs of the log
  (\<open>wal_run\<close>) until the first disk error, after which nothing is acknowledged.
\<close>

section \<open>The writer on a disk that may fail\<close>

definition fine_io :: disk_io where
  "fine_io = \<lparr>write_ok = True, write_done = 0, sync_ok = True, seal_sync_ok = True, rename_ok = True,
     dirsync_ok = True, create_ok = True, create_dirsync_ok = True\<rparr>"

lemma io_fine_fine [simp]: "io_fine fine_io"
  by (simp add: io_fine_def fine_io_def)

lemma open_new_active_fine: "open_new_active io d s = (Inr u, d') \<Longrightarrow> open_new_active fine_io d s = (Inr u, d')"
  by (auto simp: open_new_active_def fine_io_def Let_def split: if_splits)

lemma seal_nonempty_fine: "seal_nonempty io w = (Inr u, w') \<Longrightarrow> seal_nonempty fine_io w = (Inr u, w')"
  by (auto simp: seal_nonempty_def split: if_splits option.splits prod.splits sum.splits)
    (auto simp: fine_io_def open_new_active_def Let_def split: if_splits)

lemma write_frame_fine: "write_frame io cd w p n = (Inr r, w') \<Longrightarrow> write_frame fine_io cd w p n = (Inr r, w')"
  by (auto simp: write_frame_def fine_io_def Let_def split: if_splits)

lemma wal_write_fine: "wal_write io cd w b = (Inr r, w') \<Longrightarrow> wal_write fine_io cd w b = (Inr r, w')"
  using seal_nonempty_fine [of io w] write_frame_fine [of io cd]
  by (fastforce simp: wal_write_def Let_def split: if_splits option.splits prod.splits sum.splits)

lemma wal_sync_fine: "wal_sync io w = (Inr u, w') \<Longrightarrow> wal_sync fine_io w = (Inr u, w')"
  by (auto simp: wal_sync_def fine_io_def split: if_splits)

lemma wal_seal_fine: "wal_seal io w = (Inr c, w') \<Longrightarrow> wal_seal fine_io w = (Inr c, w')"
  by (auto simp: wal_seal_def split: if_splits prod.splits sum.splits dest: seal_nonempty_fine)

text \<open>The sequence number only grows; an error that does not poison leaves the writer as it was.\<close>

lemma seal_nonempty_seq: "w_seq w \<le> w_seq (snd (seal_nonempty io w))"
  by (auto simp: seal_nonempty_def split: option.splits prod.splits sum.splits)

lemma write_frame_seq [simp]: "w_seq (snd (write_frame io cd w p n)) = w_seq w"
  by (simp add: write_frame_def Let_def)

lemma wal_write_seq: "w_seq w \<le> w_seq (snd (wal_write io cd w b))"
  using seal_nonempty_seq [of w io]
  by (auto simp: wal_write_def Let_def split: option.splits prod.splits sum.splits intro: order_trans)

lemma seal_nonempty_error:
  "seal_nonempty io w = (Inl e, w') \<Longrightarrow> w_seq w < u64_max \<Longrightarrow> w_poisoned w'"
  by (auto simp: seal_nonempty_def split: if_splits option.splits prod.splits sum.splits)

lemma write_frame_error: "write_frame io cd w p n = (Inl e, w') \<Longrightarrow> w_poisoned w'"
  by (auto simp: write_frame_def Let_def split: if_splits)

lemma wal_write_error:
  "wal_write io cd w b = (Inl e, w') \<Longrightarrow> w_seq w < u64_max \<Longrightarrow> w_poisoned w' \<or> w' = w"
  by (auto simp: wal_write_def Let_def split: if_splits option.splits prod.splits sum.splits
      dest: seal_nonempty_error write_frame_error)

lemma wal_sync_error: "wal_sync io w = (Inl e, w') \<Longrightarrow> w_poisoned w'"
  by (auto simp: wal_sync_def split: if_splits)

lemma wal_seal_error: "wal_seal io w = (Inl e, w') \<Longrightarrow> w_seq w < u64_max \<Longrightarrow> w_poisoned w'"
  by (auto simp: wal_seal_def split: if_splits prod.splits sum.splits dest: seal_nonempty_error)

lemma wal_write_poisoned: "w_poisoned w \<Longrightarrow> wal_write io cd w b = (Inl Poisoned, w)"
  by (simp add: wal_write_def)

text \<open>What the log needs of a batch, once \<open>write\<close> has taken it.\<close>

definition codec_ok :: "wal_codec \<Rightarrow> captured_batch \<Rightarrow> bool" where
  "codec_ok cd b \<longleftrightarrow> (case to_vec cd b of None \<Rightarrow> True | Some p \<Rightarrow> from_slice cd p = Some b)"

lemma wal_write_record_ok:
  "wal_write io cd w b = (Inr r, w') \<Longrightarrow> codec_ok cd b \<Longrightarrow> config_ok (w_config w)
    \<Longrightarrow> record_ok cd (max_record_bytes (w_config w)) b"
  by (auto simp: wal_write_def codec_ok_def config_ok_def record_ok_def split: if_splits option.splits)

section \<open>A group\<close>

definition acked_of :: "(captured_batch \<times> (sink_error + unit)) list \<Rightarrow> captured_batch list" where
  "acked_of acks = map fst (filter (\<lambda>(b, r). is_ok r) acks)"

definition written :: "group \<Rightarrow> captured_batch list" where
  "written g = map fst (filter (\<lambda>(b, n, r). is_ok r) (g_pending g))"

definition live :: "wal_codec \<Rightarrow> wal_config \<Rightarrow> wal_writer \<Rightarrow> captured_batch list \<Rightarrow> captured_batch list \<Rightarrow> bool" where
  "live cd cfg w acked grp \<longleftrightarrow> w_poisoned w \<or> wal_run cd cfg w acked grp"

lemma live_run_inv:
  "live cd cfg w acked grp \<Longrightarrow> \<not> w_poisoned w \<Longrightarrow> config_ok cfg \<Longrightarrow> \<exists>l. run_inv cd cfg w acked grp l"
  using wal_run_inv by (simp add: live_def)

lemma wal_run_config: "wal_run cd cfg w acked grp \<Longrightarrow> config_ok cfg \<Longrightarrow> w_config w = cfg"
  using wal_run_inv by (metis run_inv_def)

lemma write_request_live:
  assumes step: "write_request io cd backlog b n w = (r, w')" and live: "live cd cfg w acked grp"
    and ok: "codec_ok cd b" "config_ok cfg" and lim: "w_seq w' + 1 < seq_limit"
  shows "live cd cfg w' acked (if is_ok r then grp @ [b] else grp)"
proof (cases "w_poisoned w")
  case True
  then have "w' = w" "\<not> is_ok r" using step by (auto simp: write_request_def wal_write_poisoned split: if_splits)
  then show ?thesis using True by (simp add: live_def)
next
  case False
  then have run: "wal_run cd cfg w acked grp" using live by (simp add: live_def)
  show ?thesis
  proof (cases "max_unpublished_wal_bytes < sat_add u64_max (sat_add u64_max backlog (w_bytes w)) n")
    case True
    then show ?thesis using step live by (auto simp: write_request_def)
  next
    case fits: False
    obtain r0 where wr: "wal_write io cd w b = (r0, w')" and r: "r = map_error map_wal_error (and_then r0 (\<lambda>_. Inr ()))"
      using step fits by (auto simp: write_request_def split: prod.splits)
    have seq: "w_seq w + 1 < seq_limit" using wal_write_seq [of w io cd b] wr lim by simp
    show ?thesis
    proof (cases r0)
      case (Inl e)
      then show ?thesis
        using wal_write_error [of io cd w b e w'] wr r live seq_limit_le [of "w_seq w"] seq by (auto simp: live_def)
    next
      case (Inr x)
      have "record_ok cd (max_record_bytes cfg) b"
        using wal_write_record_ok [of io cd w b x w'] wr Inr ok wal_run_config [OF run ok(2)] by simp
      then have "wal_run cd cfg w' acked (grp @ [b])"
        using run_write [OF run io_fine_fine seq] wal_write_fine [of io cd w b x w'] wr Inr by blast
      then show ?thesis using r Inr by (simp add: live_def)
    qed
  qed
qed

lemma take_request_live:
  assumes "live cd cfg (g_wal g) acked (written g)" "config_ok cfg"
    and "\<And>b n p. rq = AppendRequest b n p \<Longrightarrow> codec_ok cd b"
    and "w_seq (g_wal (take_request io backlog cd rq g)) + 1 < seq_limit"
  shows "live cd cfg (g_wal (take_request io backlog cd rq g)) acked (written (take_request io backlog cd rq g))"
proof (cases rq)
  case (AppendRequest b n p)
  obtain r w where w: "write_request (io (length (g_pending g))) cd (backlog (length (g_pending g))) b n (g_wal g) = (r, w)"
    by fastforce
  show ?thesis
    using write_request_live [OF w assms(1) assms(3) [OF AppendRequest] assms(2)] assms(4) AppendRequest w
    by (auto simp: take_request_def Let_def written_def)
qed (use assms in \<open>auto simp: take_request_def written_def\<close>)

lemma take_request_seq: "w_seq (g_wal g) \<le> w_seq (g_wal (take_request io backlog cd rq g))"
  using wal_write_seq by (auto simp: take_request_def write_request_def Let_def split: writer_request.splits prod.splits)
    (metis snd_conv)+

lemma gather_seq: "gather io backlog cd rqs g = (g', rest) \<Longrightarrow> w_seq (g_wal g) \<le> w_seq (g_wal g')"
proof (induction rqs arbitrary: g)
  case (Cons rq rqs)
  show ?case
    using Cons.prems Cons.IH [of "take_request io backlog cd rq g"] take_request_seq [of g io backlog cd rq]
    by (auto simp: Let_def split: if_splits)
qed simp

lemma gather_live:
  "gather io backlog cd rqs g = (g', rest) \<Longrightarrow> live cd cfg (g_wal g) acked (written g) \<Longrightarrow> config_ok cfg
    \<Longrightarrow> (\<And>b n p. AppendRequest b n p \<in> set rqs \<Longrightarrow> codec_ok cd b) \<Longrightarrow> w_seq (g_wal g') + 1 < seq_limit
    \<Longrightarrow> live cd cfg (g_wal g') acked (written g')"
proof (induction rqs arbitrary: g)
  case (Cons rq rqs)
  let ?g = "take_request io backlog cd rq g"
  have seq: "w_seq (g_wal ?g) \<le> w_seq (g_wal g')"
    using Cons.prems(1) gather_seq by (auto simp: Let_def split: if_splits)
  then have l: "live cd cfg (g_wal ?g) acked (written ?g)"
    using take_request_live [OF Cons.prems(2,3), of rq io backlog] Cons.prems(4,5) by auto
  show ?case
  proof (cases "g_shutdown ?g \<or> group_full ?g")
    case True
    then show ?thesis using Cons.prems(1) l by (auto simp: Let_def)
  next
    case False
    then have "gather io backlog cd rqs ?g = (g', rest)" using Cons.prems(1) by (simp add: Let_def)
    then show ?thesis by (rule Cons.IH [OF _ l Cons.prems(3)]) (use Cons.prems(4,5) in auto)
  qed
qed simp

lemma commit_group_live:
  assumes c: "commit_group sio g ps = (acks, w, ps')" and l: "live cd cfg (g_wal g) acked (written g)"
  shows "live cd cfg w (acked @ acked_of acks) [] \<and> (acked_of acks \<noteq> [] \<longrightarrow> \<not> w_poisoned w)"
proof (cases "g_pending g = []")
  case True
  then show ?thesis using c l by (auto simp: commit_group_def acked_of_def written_def)
next
  case False
  obtain synced where s: "wal_sync sio (g_wal g) = (synced, w)"
    and acks: "acks = map (\<lambda>(b, _, r). (b, and_then r (\<lambda>_. map_error map_wal_error synced))) (g_pending g)"
    using c False by (auto simp: commit_group_def Let_def split: prod.splits)
  show ?thesis
  proof (cases synced)
    case (Inl e)
    have "\<not> is_ok (and_then r (\<lambda>_. map_error map_wal_error synced))" for r :: "sink_error + unit"
      using Inl by (cases r) auto
    then have "acked_of acks = []" by (auto simp: acks acked_of_def filter_empty_conv)
    then show ?thesis using wal_sync_error [of sio "g_wal g" e w] s Inl by (simp add: live_def)
  next
    case (Inr u)
    have np: "\<not> w_poisoned (g_wal g)" "\<not> w_poisoned w" using s Inr by (auto simp: wal_sync_def split: if_splits)
    then have "wal_run cd cfg (g_wal g) acked (written g)" using l by (simp add: live_def)
    then have "wal_run cd cfg w (acked @ written g) []"
      using run_sync wal_sync_fine [of sio "g_wal g" u w] s Inr io_fine_fine by blast
    moreover have "is_ok (and_then r (\<lambda>_. map_error map_wal_error synced)) = is_ok r" for r :: "sink_error + unit"
      using Inr by (cases r) auto
    then have "acked_of acks = written g"
      by (simp add: acks acked_of_def written_def filter_map comp_def case_prod_unfold)
    ultimately show ?thesis using np by (simp add: live_def)
  qed
qed

section \<open>Lives of the sink\<close>

definition durable_open :: "wal_writer \<Rightarrow> durable_sink" where
  "durable_open w = \<lparr>ds_queue = [], ds_free = queue_bytes, ds_wal = w, ds_stats = stats_new\<rparr>"

inductive sink_run :: "wal_codec \<Rightarrow> wal_config \<Rightarrow> durable_sink \<Rightarrow> captured_batch list \<Rightarrow> bool" for cd cfg where
  sink_start: "io_fine io \<Longrightarrow> wal_open io cd [] cfg False = Inr (w, t) \<Longrightarrow> sink_run cd cfg (durable_open w) []"
| sink_admit: "sink_run cd cfg ds acked \<Longrightarrow> sink_run cd cfg (snd (durable_admit now_ms ab ds)) acked"
| sink_erase: "sink_run cd cfg ds acked \<Longrightarrow> sink_run cd cfg (snd (request_erasure pid person ds)) acked"
| sink_commit: "sink_run cd cfg ds acked \<Longrightarrow> writer_commit io sio backlog cd ds = (acks, er, stop, ds')
    \<Longrightarrow> (\<And>b n p. AppendRequest b n p \<in> set (ds_queue ds) \<Longrightarrow> codec_ok cd b) \<Longrightarrow> w_seq (ds_wal ds') + 1 < seq_limit
    \<Longrightarrow> sink_run cd cfg ds' (acked @ acked_of acks)"
| sink_seal: "sink_run cd cfg ds acked \<Longrightarrow> w_seq (ds_wal ds) + 1 < seq_limit
    \<Longrightarrow> sink_run cd cfg (writer_seal dio erasing due ds) acked"
| sink_published: "sink_run cd cfg ds acked \<Longrightarrow> sink_run cd cfg (ds\<lparr>ds_stats := ps\<rparr>) acked"
| sink_crash: "sink_run cd cfg ds acked \<Longrightarrow> \<not> w_poisoned (ds_wal ds) \<Longrightarrow> crash (ds_wal ds) d
    \<Longrightarrow> wal_open io cd d cfg False = Inr (w, t) \<Longrightarrow> sink_run cd cfg (durable_open w) acked"

lemma wal_sync_seq: "w_seq (snd (wal_sync sio w)) = w_seq w"
  by (simp add: wal_sync_def)

lemma writer_commit_live:
  assumes c: "writer_commit io sio backlog cd ds = (acks, er, stop, ds')" and l: "live cd cfg (ds_wal ds) acked []"
    and ok: "config_ok cfg" "\<And>b n p. AppendRequest b n p \<in> set (ds_queue ds) \<Longrightarrow> codec_ok cd b"
    and lim: "w_seq (ds_wal ds') + 1 < seq_limit"
  shows "live cd cfg (ds_wal ds') (acked @ acked_of acks) [] \<and> (acked_of acks \<noteq> [] \<longrightarrow> \<not> w_poisoned (ds_wal ds'))"
proof -
  obtain g rest where g: "gather io backlog cd (ds_queue ds) (group_start (ds_wal ds)) = (g, rest)" by fastforce
  obtain ps where cg: "commit_group sio g (ds_stats ds) = (acks, ds_wal ds', ps)"
    using c g by (auto simp: writer_commit_def split: prod.splits)
  have "w_seq (ds_wal ds') = w_seq (g_wal g)"
    using cg wal_sync_seq [of sio "g_wal g"] by (auto simp: commit_group_def Let_def split: if_splits prod.splits)
  then have "live cd cfg (g_wal g) acked (written g)"
    using gather_live [OF g _ ok(1)] ok(2) lim l by (simp add: group_start_def written_def)
  then show ?thesis by (rule commit_group_live [OF cg])
qed

lemma writer_seal_wal:
  "ds_wal (writer_seal dio e due ds) = ds_wal ds \<or> ds_wal (writer_seal dio e due ds) = snd (wal_seal dio (ds_wal ds))"
  by (auto simp: writer_seal_def split: prod.splits sum.splits)

lemma wal_seal_live:
  assumes "live cd cfg w acked []" "w_seq w + 1 < seq_limit"
  shows "live cd cfg (snd (wal_seal dio w)) acked []"
proof (cases "w_poisoned w")
  case True
  then show ?thesis by (simp add: wal_seal_def live_def)
next
  case False
  then have run: "wal_run cd cfg w acked []" using assms(1) by (simp add: live_def)
  obtain r w' where s: "wal_seal dio w = (r, w')" by fastforce
  show ?thesis
  proof (cases r)
    case (Inl e)
    then show ?thesis using wal_seal_error [of dio w e w'] s assms(2) seq_limit_le [of "w_seq w"] by (simp add: live_def)
  next
    case (Inr c)
    then show ?thesis
      using run_seal [OF run io_fine_fine assms(2) wal_seal_fine [of dio w c w']] s by (simp add: live_def)
  qed
qed

lemma sink_run_live: "sink_run cd cfg ds acked \<Longrightarrow> config_ok cfg \<Longrightarrow> live cd cfg (ds_wal ds) acked []"
proof (induction rule: sink_run.induct)
  case (sink_start io w t)
  then show ?case using run_start by (auto simp: live_def durable_open_def)
next
  case (sink_admit ds acked now_ms ab)
  then show ?case by (auto simp: durable_admit_def Let_def split: sum.splits)
next
  case (sink_erase ds acked pid person)
  then show ?case by (auto simp: request_erasure_def)
next
  case (sink_commit ds acked io sio backlog acks er stop ds')
  then show ?case using writer_commit_live by blast
next
  case (sink_seal ds acked dio erasing due)
  then show ?case
    using writer_seal_wal [of dio erasing due ds] wal_seal_live [of cd cfg "ds_wal ds" acked dio] by auto
next
  case (sink_published ds acked ps)
  then show ?case by simp
next
  case (sink_crash ds acked d io w t)
  then show ?case using run_crash by (fastforce simp: live_def durable_open_def)
qed

end
