(* ===== verification/CaptureProperties.thy ===== *)
theory CaptureProperties
  imports SinkCorrect
begin

text \<open>
  What a capture response promises, across the handler, the authorizer and the sink.
\<close>

section \<open>The handler\<close>

text \<open>The events a request stands for, once decoded, parsed and enriched, with the historical mark.\<close>

definition request_events :: "surroundings \<Rightarrow> capture_request \<Rightarrow> (captured_event list \<times> bool) option" where
  "request_events sr rq =
     (case and_then (decode_request sr rq) (parse_request sr rq) of
        Inr (Inr b) \<Rightarrow> Some (enrich_all sr rq (pb_events b), pb_historical b)
      | _ \<Rightarrow> None)"

definition successful :: "response \<Rightarrow> bool" where
  "successful r \<longleftrightarrow> r = StatusOne \<or> r = NoContent"

definition stored_batch :: "captured_event list \<Rightarrow> (string \<times> string) list \<Rightarrow> authorized_batch" where
  "stored_batch es bindings = \<lparr>ab_events = es, ab_projects = bindings, ab_historical = False\<rparr>"

lemma successful_success [simp]: "successful (success rq)"
  by (simp add: successful_def success_def)

lemma successful_simps [simp]:
  "successful StatusOne" "successful NoContent" "\<not> successful BadRequest" "\<not> successful Unauthorized401"
  "\<not> successful PayloadTooLarge" "\<not> successful TooManyRequests" "\<not> successful ServiceUnavailable"
  by (simp_all add: successful_def)

lemma reject_simps [simp]:
  "fst (reject r st) = r" "cs_sink (snd (reject r st)) = cs_sink st"
  by (simp_all add: reject_def)

lemma store_batch_effect:
  assumes "store_batch sv rq es bindings h st = (r, st')"
  shows "\<exists>res. append sv (cs_sink st) (stored_batch es bindings) = (res, cs_sink st') \<and> (successful r \<longleftrightarrow> is_ok res)"
  using assms
  by (auto simp: store_batch_def stored_batch_def reject_def Let_def split: prod.splits sum.splits sink_error.splits)

lemma handle_events_effect:
  assumes "handle_events sv sr rq es h st = (r, st')"
  shows "(cs_sink st' = cs_sink st \<and> \<not> successful r)
    \<or> (\<exists>bindings a1 res. authorize_all (authorize sv) (cs_authorizer st) (map fst (token_counts es)) = (Inr bindings, a1)
         \<and> append sv (cs_sink st) (stored_batch es bindings) = (res, cs_sink st') \<and> (successful r \<longleftrightarrow> is_ok res))"
proof -
  obtain x a1 where x: "authorize_all (authorize sv) (cs_authorizer st) (map fst (token_counts es)) = (x, a1)" by fastforce
  show ?thesis
  proof (cases x)
    case (Inl u)
    then show ?thesis using assms x by (auto simp: handle_events_def reject_def Let_def)
  next
    case (Inr bindings)
    obtain allowed rl1 where l: "allow_tokens (cs_limiter st) (token_counts es) (clock sr div nanos_per_second) = (allowed, rl1)" by fastforce
    show ?thesis
    proof (cases allowed)
      case True
      then have "store_batch sv rq es bindings h (st\<lparr>cs_authorizer := a1, cs_limiter := rl1\<rparr>) = (r, st')"
        using assms x Inr l by (simp add: handle_events_def Let_def)
      then show ?thesis using store_batch_effect x Inr by fastforce
    next
      case False
      then show ?thesis using assms x Inr l by (auto simp: handle_events_def reject_def Let_def)
    qed
  qed
qed

lemma capture_effect:
  assumes "capture sv sr rq st = (r, st')"
  shows "(cs_sink st' = cs_sink st \<and> (successful r \<longrightarrow> (\<exists>h. request_events sr rq = Some ([], h))))
    \<or> (\<exists>es h bindings a1 res. request_events sr rq = Some (es, h) \<and> es \<noteq> []
         \<and> authorize_all (authorize sv) (cs_authorizer st) (map fst (token_counts es)) = (Inr bindings, a1)
         \<and> append sv (cs_sink st) (stored_batch es bindings) = (res, cs_sink st') \<and> (successful r \<longleftrightarrow> is_ok res))"
proof -
  consider (early) r0 where "and_then (decode_request sr rq) (parse_request sr rq) = Inl r0"
    | (refused) e where "and_then (decode_request sr rq) (parse_request sr rq) = Inr (Inl e)"
    | (parsed) b where "and_then (decode_request sr rq) (parse_request sr rq) = Inr (Inr b)"
    by (metis sum.exhaust)
  then show ?thesis
  proof cases
    case early
    have "\<not> successful r0"
      using early by (auto simp: decode_request_def parse_request_def Let_def split: if_splits sum.splits decode_error.splits
          dest!: and_then_Inl_cases)
    then show ?thesis using assms early by (auto simp: capture_def)
  next
    case refused
    then show ?thesis using assms by (cases e) (auto simp: capture_def reject_def)
  next
    case parsed
    let ?es = "enrich_all sr rq (pb_events b)"
    have re: "request_events sr rq = Some (?es, pb_historical b)" using parsed by (simp add: request_events_def)
    show ?thesis
    proof (cases "?es = []")
      case True
      then show ?thesis using assms parsed re by (auto simp: capture_def Let_def)
    next
      case False
      then have "handle_events sv sr rq ?es (pb_historical b) st = (r, st')"
        using assms parsed by (simp add: capture_def Let_def)
      from handle_events_effect [OF this] False re show ?thesis by blast
    qed
  qed
qed

text \<open>Every token of the batch is asked for.\<close>

lemma keys_update: "fst ` set (AList.update k v m) = insert k (fst ` set m)"
  by (simp add: dom_update)

lemma keys_bump: "fst ` set (foldl bump m es) = fst ` set m \<union> token ` set es"
  by (induction es arbitrary: m) (auto simp: bump_def keys_update)

lemma keys_token_counts: "set (map fst (token_counts es)) = token ` set es"
  by (simp add: token_counts_def keys_bump)

section \<open>Properties\<close>

text \<open>C34: The cached authorizer never decides on old grounds. In every life of it, a granted token was bound to
  the project by the control store less than 60 seconds before, and a rejected one was rejected by it less
  than 10 seconds before; an unavailable store grants nothing by itself; the cache holds at most 10,000
  decisions.\<close>

theorem token_decisions_fresh:
  assumes "auth_run pa h" and "project_authorize pa tok = (r, pa')"
  shows "(case r of
      Inr p \<Rightarrow> \<exists>since ps. (since, ps) \<in> set h \<and> since \<le> pa_now pa \<and> pa_now pa < since + token_cache_accept_ttl
        \<and> authorize_capture True ps tok = Inr p
    | Inl Rejected \<Rightarrow> \<exists>since ps. (since, ps) \<in> set h \<and> since \<le> pa_now pa \<and> pa_now pa < since + token_cache_reject_ttl
        \<and> (\<forall>p. authorize_capture True ps tok \<noteq> Inr p)
    | Inl Unavailable \<Rightarrow> \<not> pa_up pa)
    \<and> length (pa_cache pa') \<le> token_cache_entries"
proof -
  have inv: "auth_inv pa h" by (rule auth_run_inv [OF assms(1)])
  have "length (pa_cache pa') \<le> token_cache_entries"
    using auth_run_inv [OF auth_ask [OF assms]] by (simp add: auth_inv_def)
  moreover have "\<not> pa_up pa" if "r = Inl Unavailable"
    using assms(2) that by (auto simp: project_authorize_def authorize_capture_def ok_or_def
        split: option.splits sum.splits access_error.splits if_splits)
  moreover have "fresh h (pa_now pa) tok None" if "r = Inl Rejected"
    using project_authorize_fresh(2) [OF inv] assms(2) that by simp
  moreover have "fresh h (pa_now pa) tok (Some p)" if "r = Inr p" for p
    using project_authorize_fresh(1) [OF inv] assms(2) that by simp
  ultimately show ?thesis
    by (fastforce simp: fresh_def decided_def cache_ttl_def split: sum.splits authorization_error.splits)
qed

definition sample_authorizer :: project_authorizer where
  "sample_authorizer = project_authorizer_new [(''p'', ''t'')] True 5"

lemma sample_auth_run: "auth_run sample_authorizer [(5, [(''p'', ''t'')])]"
  unfolding sample_authorizer_def by (rule auth_start)

lemma sample_authorize: "project_authorize sample_authorizer ''t'' = (Inr ''p'', sample_authorizer\<lparr>pa_cache := [(''t'', Some ''p'', 5)]\<rparr>)"
  by (simp add: project_authorize_def sample_authorizer_def project_authorizer_new_def cached_def authorize_capture_def
      validate_t ok_or_def remember_def token_cache_entries_def)

theorem token_decisions_fresh_witness:
  "\<exists>since ps. (since, ps) \<in> set [(5, [(''p'', ''t'')])] \<and> since \<le> 5 \<and> 5 < since + token_cache_accept_ttl
     \<and> authorize_capture True ps ''t'' = Inr ''p''"
  using token_decisions_fresh [OF sample_auth_run sample_authorize]
  by (simp add: sample_authorizer_def project_authorizer_new_def)

text \<open>C6: Nothing is stored but by authority. With the cached authorizer, a capture request changes the sink
  only through one append of all its events (decoded, parsed, enriched), never marked historical, with a
  project for each event's token that the control store granted less than a minute before; a success is
  answered exactly when the sink took the batch. Otherwise the sink is untouched, and a success then means
  that the request had no events.\<close>

theorem capture_stores_authorized:
  assumes "auth_run pa h" and "cs_authorizer st = (pa, h)" and "authorize sv = authorize_logged"
    and "capture sv sr rq st = (r, st')"
  shows "(cs_sink st' = cs_sink st \<and> (successful r \<longrightarrow> (\<exists>hist. request_events sr rq = Some ([], hist))))
    \<or> (\<exists>es hist bindings res. request_events sr rq = Some (es, hist) \<and> es \<noteq> []
         \<and> append sv (cs_sink st) (stored_batch es bindings) = (res, cs_sink st') \<and> (successful r \<longleftrightarrow> is_ok res)
         \<and> (\<forall>e \<in> set es. \<exists>p since ps. map_of bindings (token e) = Some p \<and> (since, ps) \<in> set h
              \<and> since \<le> pa_now pa \<and> pa_now pa < since + token_cache_accept_ttl
              \<and> authorize_capture True ps (token e) = Inr p))"
  using capture_effect [OF assms(4)]
proof (elim disjE exE conjE)
  fix es hist bindings a1 res
  assume es: "request_events sr rq = Some (es, hist)" "es \<noteq> []"
    and au: "authorize_all (authorize sv) (cs_authorizer st) (map fst (token_counts es)) = (Inr bindings, a1)"
    and ap: "append sv (cs_sink st) (stored_batch es bindings) = (res, cs_sink st')" "successful r \<longleftrightarrow> is_ok res"
  have "\<exists>p. map_of bindings (token e) = Some p \<and> fresh h (pa_now pa) (token e) (Some p)" if "e \<in> set es" for e
    using project_auth.every_token_granted [of "(pa, h)" "map fst (token_counts es)" bindings a1 "token e"]
      keys_token_counts [of es] au assms(1-3) that by auto
  then show ?thesis using es ap by (fastforce simp: fresh_def decided_def cache_ttl_def)
qed blast

definition sample_request :: capture_request where
  "sample_request =
     \<lparr>rq_path = ''/e'', rq_sent_at = None, rq_compression = None, rq_beacon = None, rq_content_type = None,
      rq_user_agent = None, rq_forwarded_for = None, rq_real_ip = None, rq_body = ''{}''\<rparr>"

definition sample_surroundings :: surroundings where
  "sample_surroundings =
     \<lparr>gate_open = True, decode_joined = True, budget = (\<lambda>_. True), parse_joined = True, clock = 0, codec = sample_codecs,
      parsers = sample_capture (Array [sample_raw []]),
      enricher = \<lparr>parse_ua = (\<lambda>_. None), hash_str = (\<lambda>_. 0), today = ''''\<rparr>,
      enricher_config = \<lparr>user_agent_parse = False, cookieless_salt = None\<rparr>\<rparr>"

definition sample_services :: "(project_authorizer \<times> history, captured_event list) services" where
  "sample_services = \<lparr>authorize = authorize_logged, append = memory_append\<rparr>"

definition sample_state :: "(project_authorizer \<times> history, captured_event list) capture_state" where
  "sample_state =
     \<lparr>cs_authorizer = (sample_authorizer, [(5, [(''p'', ''t'')])]), cs_limiter = limiter_new 10,
      cs_metrics = \<lparr>m_captured = 0, m_acked = 0, m_rejected = 0, m_sink_errors = 0\<rparr>, cs_sink = [], cs_forwarder = None\<rparr>"

lemma sample_request_events: "request_events sample_surroundings sample_request = Some ([sample_captured 0], False)"
proof -
  have utf: "utf8_scalars ''{}'' = Some [123, 125]" by (simp add: utf8_scalars.simps scalar_at_def code_def)
  have d: "decode_request sample_surroundings sample_request = Inr ''{}''"
    by (simp add: decode_request_def sample_surroundings_def sample_request_def form_encoded_def may_expand_def Let_def
        starts_with_def gzip_magic_def looks_like_base64_def decode_limited_def unwrap_form_def unwrap_base64_def is_lz_def
        decode_raw_def decoded_limit_def max_event_decoded_bytes_def from_utf8_def utf)
  have "parse_body (sample_capture (Array [sample_raw []])) ''{}'' None 0 = Inr \<lparr>pb_events = [sample_captured 0], pb_historical = False\<rparr>"
    using sample_resolve [of "Array [sample_raw []]" 0 0]
    by (simp add: parse_body_def batch_shape_def sample_raw_def ok_or_def get_str_def sample_capture_def)
  then show ?thesis
    by (simp add: request_events_def d parse_request_def)
      (simp add: sample_surroundings_def sample_request_def enrich_all_def enrich_def enrich_user_agent_def enrich_device_id_def
        client_ip_def sample_captured_def)
qed

theorem capture_stores_authorized_witness:
  "\<exists>r st' since ps. capture sample_services sample_surroundings sample_request sample_state = (r, st')
     \<and> cs_sink st' = [sample_captured 0] \<and> successful r
     \<and> (since, ps) \<in> set [(5, [(''p'', ''t'')])] \<and> authorize_capture True ps ''t'' = Inr ''p''"
proof -
  let ?e = "sample_captured 0"
  have tok: "token ?e = ''t''" by (simp add: sample_captured_def)
  have counts: "token_counts [?e] = [(''t'', 1)]"
    by (simp add: token_counts_def bump_def tok sat_add_def u32_top_def)
  have parsed: "\<exists>b. and_then (decode_request sample_surroundings sample_request) (parse_request sample_surroundings sample_request) = Inr (Inr b)
      \<and> enrich_all sample_surroundings sample_request (pb_events b) = [?e] \<and> pb_historical b = False"
    using sample_request_events by (auto simp: request_events_def split: sum.splits)
  have "\<exists>st'. handle_events sample_services sample_surroundings sample_request [?e] False sample_state = (StatusOne, st') \<and> cs_sink st' = [?e]"
    by (simp add: handle_events_def counts sample_state_def sample_services_def authorize_logged_def sample_authorize Let_def
        allow_def limiter_new_def sat_add_def u32_top_def max_tracked_tokens_def store_batch_def memory_append_def
        memory_sink_max_events_def success_def sample_request_def sample_surroundings_def)
  then obtain st' where run: "capture sample_services sample_surroundings sample_request sample_state = (StatusOne, st')" "cs_sink st' = [?e]"
    using parsed by (auto simp: capture_def Let_def)
  have ac: "authorize_capture True [(''p'', ''t'')] ''t'' = Inr ''p''"
    by (simp add: authorize_capture_def validate_t ok_or_def)
  have "cs_sink sample_state = []" by (simp add: sample_state_def)
  with capture_stores_authorized [OF sample_auth_run, of sample_state sample_services sample_surroundings sample_request StatusOne st']
  have "\<exists>since ps. (since, ps) \<in> set [(5, [(''p'', ''t'')])] \<and> authorize_capture True ps ''t'' = Inr ''p''"
    using run sample_request_events tok ac
    by (auto simp: sample_state_def sample_services_def stored_batch_def memory_append_def memory_sink_max_events_def)
  then show ?thesis using run by auto
qed

end
