(* ===== verification/SinkProperties.thy ===== *)
theory SinkProperties
  imports CaptureProperties
begin

text \<open>
  What the acknowledgement of a batch promises, and which segments an erasure covers.
\<close>


definition sink_batch :: captured_batch where
  "sink_batch = sample_batch\<lparr>project_ids_by_token := [(''t'', ''p'')]\<rparr>"

definition sink_codec :: wal_codec where
  "sink_codec = sample_codec\<lparr>from_slice := (\<lambda>p. if p = [1, 2] then Some sink_batch else None)\<rparr>"

definition sink_group :: authorized_batch where
  "sink_group = \<lparr>ab_events = [WalProperties.sample_event], ab_projects = [(''t'', ''p'')], ab_historical = False\<rparr>"

lemma sink_batch_ok: "record_ok sink_codec 50 sink_batch" "codec_ok sink_codec sink_batch"
  by (simp_all add: record_ok_def codec_ok_def sink_codec_def sample_codec_def sink_batch_def sample_batch_def u32_max_def)

lemma trim_p: "trim ''p'' = ''p''"
  by (simp add: trim_def is_ws_def white_space_def)

lemma sink_admitted:
  "snd (durable_admit 0 sink_group (durable_open w))
     = (durable_open w)\<lparr>ds_queue := [AppendRequest sink_batch 258 258], ds_free := queue_bytes - 258\<rparr>"
  by (simp add: durable_admit_def sink_group_def batch_authorized_def WalProperties.sample_event_def trim_p encoded_estimate_def
      durable_open_def queue_bytes_def queue_batches_def sink_batch_def sample_batch_def Let_def)

lemma sink_sample_run:
  "\<exists>ds ds'. sink_run sink_codec sample_config ds [] \<and> writer_commit (\<lambda>_. sample_io) sample_io (\<lambda>_. 0) sink_codec ds
       = ([(sink_batch, Inr ())], [], False, ds')
     \<and> ds_queue ds = [AppendRequest sink_batch 258 258] \<and> w_seq (ds_wal ds') + 1 < seq_limit \<and> (\<exists>d. crash (ds_wal ds') d)"
proof -
  obtain w where w: "wal_open sample_io sink_codec [] sample_config False = Inr (w, False)" "w_seq w = 1"
    "w_config w = sample_config" "writer_inv sink_codec w (empty_log\<lparr>log_active := Some []\<rparr>)"
    using open_empty [OF dir_repr_nothing sample_config_ok sample_io_fine, of sink_codec] by blast
  let ?ds = "(durable_open w)\<lparr>ds_queue := [AppendRequest sink_batch 258 258], ds_free := queue_bytes - 258\<rparr>"
  have run: "sink_run sink_codec sample_config ?ds []"
    using sink_admit [OF sink_start [OF sample_io_fine w(1)], of 0 sink_group] by (simp only: sink_admitted)
  have lim: "w_seq w + 1 < seq_limit" using w(2) sample_limits by simp
  have ok: "record_ok sink_codec (max_record_bytes (w_config w)) sink_batch"
    using sink_batch_ok(1) w(3) by (simp add: sample_config_def)
  obtain r w1 l1 where w1: "wal_write sample_io sink_codec w sink_batch = (Inr r, w1)" "writer_inv sink_codec w1 l1"
    using wal_write_refines [OF w(4) sample_io_fine lim ok] by blast
  obtain w2 where w2: "wal_sync sample_io w1 = (Inr (), w2)" "writer_inv sink_codec w2 l1"
    using wal_sync_refines [OF w1(2) sample_io_fine] by blast
  have bytes: "w_bytes w = 0" using w(4) by (auto simp: writer_inv_def)
  have seq: "w_seq w2 = 1"
    using w1(1) w2(1) w(2) bytes by (auto simp: wal_write_def write_frame_def wal_sync_def Let_def split: if_splits option.splits)
  have wr: "write_request sample_io sink_codec 0 sink_batch 258 w = (Inr (), w1)"
    using w1(1) bytes by (simp add: write_request_def max_unpublished_wal_bytes_def sat_add_def u64_max_def)
  obtain ds' where "writer_commit (\<lambda>_. sample_io) sample_io (\<lambda>_. 0) sink_codec ?ds = ([(sink_batch, Inr ())], [], False, ds')" "ds_wal ds' = w2"
    using wr w2(1)
    by (simp add: writer_commit_def durable_open_def group_start_def take_request_def Let_def group_full_def
        group_max_batches_def group_max_bytes_def sat_add_def u64_max_def commit_group_def)
  moreover have "\<exists>d. crash w2 d" by (rule writer_crash [OF w2(2)])
  ultimately show ?thesis using run seq sample_limits by (intro exI [of _ ?ds] exI [of _ ds']) simp
qed


text \<open>C35: An erasure covers every event acknowledged before it. When the writer hands an erasure on after a
  seal that left it healthy, all acknowledged batches are in sealed segments, and the segment named to the
  publisher is the last of them.\<close>

theorem erasure_covers_acknowledged:
  assumes "config_ok cfg" and "sink_run cd cfg ds acked" and "w_seq (ds_wal ds) + 1 < seq_limit"
    and "\<not> w_poisoned (ds_wal (writer_seal dio True due ds))"
  shows "\<exists>l. writer_inv cd (ds_wal (writer_seal dio True due ds)) l \<and> subseq acked (concat (log_sealed l))
    \<and> through_segment (writer_seal dio True due ds) + 1 = log_first l + length (log_sealed l)"
proof -
  let ?w = "ds_wal ds" and ?ds' = "writer_seal dio True due ds"
  have np: "\<not> w_poisoned ?w"
    using assms(4) writer_seal_wal [of dio True due ds] by (auto simp: wal_seal_def)
  then obtain l where l: "run_inv cd cfg ?w acked [] l"
    using live_run_inv [OF sink_run_live [OF assms(2,1)]] assms(1) by blast
  then have inv: "writer_inv cd ?w l" and sub: "subseq acked (log_records l)" by (auto simp: run_inv_def)
  have "\<exists>l'. writer_inv cd (ds_wal ?ds') l' \<and> log_records l' = log_records l \<and> log_active l' = Some []"
  proof (cases "0 < w_bytes ?w")
    case True
    obtain r w' where s: "wal_seal dio ?w = (r, w')" by fastforce
    have w': "ds_wal ?ds' = w'" using True s by (auto simp: writer_seal_def split: sum.splits)
    obtain c where "r = Inr c"
      using wal_seal_error [of dio ?w _ w'] s assms(3,4) seq_limit_le [of "w_seq ?w"] w' by (cases r) auto
    then show ?thesis
      using wal_seal_refines [OF inv io_fine_fine assms(3)] wal_seal_fine [of dio ?w c w'] s w' by auto
  next
    case False
    obtain bs where bs: "log_active l = Some bs" "w_bytes ?w = length (frames cd bs)"
      "records_ok cd (max_record_bytes (w_config ?w)) bs"
      using inv by (auto simp: writer_inv_def dir_repr_def segment_ok_def)
    then have "bs = []" using frames_nonempty_iff [OF bs(3)] False by auto
    then show ?thesis using inv bs(1) False by (auto simp: writer_seal_def)
  qed
  then obtain l' where l': "writer_inv cd (ds_wal ?ds') l'" "log_records l' = log_records l" "log_active l' = Some []" by blast
  have "log_records l' = concat (log_sealed l')" using l'(3) by (simp add: log_records_def)
  moreover have "w_seq (ds_wal ?ds') = log_first l' + length (log_sealed l')" "1 \<le> log_first l'"
    using l'(1) by (auto simp: writer_inv_def log_next_def dir_repr_def)
  ultimately show ?thesis using l' sub by (auto simp: through_segment_def intro!: exI [of _ l'])
qed

theorem erasure_covers_acknowledged_witness:
  "\<exists>(ds :: durable_sink) (l :: log). through_segment (writer_seal sample_io True False ds) + 1 = log_first l + length (log_sealed l)
     \<and> subseq [sink_batch] (concat (log_sealed l))"
proof -
  obtain ds ds' where s: "sink_run sink_codec sample_config ds []"
    "writer_commit (\<lambda>_. sample_io) sample_io (\<lambda>_. 0) sink_codec ds = ([(sink_batch, Inr ())], [], False, ds')"
    "ds_queue ds = [AppendRequest sink_batch 258 258]" "w_seq (ds_wal ds') + 1 < seq_limit"
    using sink_sample_run by blast
  have "codec_ok sink_codec b'" if "AppendRequest b' n p \<in> set (ds_queue ds)" for b' n p
    using that s(3) sink_batch_ok(2) by simp
  then have run: "sink_run sink_codec sample_config ds' [sink_batch]"
    using sink_commit [OF s(1,2) _ s(4)] by (simp add: acked_of_def)
  have "live sink_codec sample_config (ds_wal ds') [sink_batch] []" by (rule sink_run_live [OF run sample_config_ok])
  moreover have "\<not> w_poisoned (ds_wal ds')"
    using writer_commit_live [OF s(2) sink_run_live [OF s(1) sample_config_ok] sample_config_ok _ s(4)] s(3) sink_batch_ok(2)
    by (simp add: acked_of_def)
  ultimately obtain l where "run_inv sink_codec sample_config (ds_wal ds') [sink_batch] [] l"
    using live_run_inv sample_config_ok by blast
  then have "writer_inv sink_codec (ds_wal ds') l" by (simp add: run_inv_def)
  then have "\<not> w_poisoned (ds_wal (writer_seal sample_io True False ds'))"
    using wal_seal_refines [OF _ sample_io_fine s(4)] writer_seal_wal [of sample_io True False ds']
    by (fastforce simp: writer_inv_def)
  from erasure_covers_acknowledged [OF sample_config_ok run s(4) this] show ?thesis by blast
qed

text \<open>When the seal fails, the erasure is handed on all the same, with the segment before the active one, while
  the active segment still holds its records: the person's events there are published again later.\<close>

lemma erasure_after_failed_seal:
  assumes "ds_queue ds = [EraseRequest pid person]" and "0 < w_bytes (ds_wal ds)" and "\<not> w_poisoned (ds_wal ds)"
    and "\<not> seal_sync_ok dio"
  shows "\<exists>ds'. writer_turn io sio dio due backlog cd ds = ([], [(pid, person, w_seq (ds_wal ds) - 1)], False, ds')
    \<and> w_dir (ds_wal ds') = w_dir (ds_wal ds) \<and> w_bytes (ds_wal ds') = w_bytes (ds_wal ds) \<and> w_seq (ds_wal ds') = w_seq (ds_wal ds)"
  using assms
  by (simp add: writer_turn_def writer_commit_def group_start_def take_request_def Let_def group_full_def
      group_max_batches_def group_max_bytes_def commit_group_def writer_seal_def wal_seal_def seal_nonempty_def through_segment_def)

end
