(* ===== verification/Formula.thy ===== *)
theory Formula
  imports Utf8 Float64
begin

text \<open>
  \<open>query/formula.rs\<close>: the arithmetic over series letters of a trends query - its tokenizer, its
  recursive-descent parser and its evaluation - and the error type of \<open>query/mod.rs\<close>.

  The parser's state is the list of the tokens from \<open>position\<close> on. Its functions call each other
  with a fuel that the number of tokens bounds (\<open>FormulaCorrect\<close>); \<open>None\<close> is a parser that has not
  answered yet.
\<close>

section \<open>Errors of queries\<close>

datatype query_error = Invalid string | TooLarge string | Busy | Timeout | Internal string

fun query_status :: "query_error \<Rightarrow> nat" where
  "query_status (Invalid _) = 400"
| "query_status (TooLarge _) = 400"
| "query_status Busy = 503"
| "query_status Timeout = 504"
| "query_status (Internal _) = 500"

section \<open>Data\<close>

definition max_depth :: nat where
  "max_depth = 32"

definition max_tokens :: nat where
  "max_tokens = 500"

datatype fnode = Number f64 | Series nat | Negate fnode | Binary fnode char fnode

record formula =
  root :: fnode

datatype ftoken = TNumber f64 | TLetter nat | TOp char | TOpen | TClose

section \<open>Tokens\<close>

text \<open>\<open>f64::from_str\<close> on a text of digits and dots: at most one dot, at least one digit, and the
  nearest double.\<close>

definition parse_literal :: "string \<Rightarrow> f64 option" where
  "parse_literal s =
     (let i = takeWhile is_digit s; r = dropWhile is_digit s in
      if r = [] then (if i = [] then None else Some (f64_round (of_nat (digits_value i))))
      else if \<not> list_all is_digit (tl r) \<or> (i = [] \<and> tl r = []) then None
      else Some (f64_round (of_nat (digits_value (i @ tl r)) / 10 ^ length (tl r))))"

definition literal_char :: "string \<Rightarrow> bool" where
  "literal_char c \<longleftrightarrow> length c = 1 \<and> (is_digit (hd c) \<or> hd c = CHR ''.'')"

definition blank_char :: "string \<Rightarrow> bool" where
  "blank_char c \<longleftrightarrow> c \<in> {'' '', [CHR 0x09], [CHR 0x0A], [CHR 0x0D]}"

definition op_char :: "string \<Rightarrow> bool" where
  "op_char c \<longleftrightarrow> c \<in> {''+'', ''-'', ''*'', ''/''}"

text \<open>The index of an ASCII letter, either case.\<close>

definition letter_index :: "string \<Rightarrow> nat option" where
  "letter_index c =
     (if length c = 1 \<and> 65 \<le> code (hd c) \<and> code (hd c) \<le> 90 then Some (code (hd c) - 65)
      else if length c = 1 \<and> 97 \<le> code (hd c) \<and> code (hd c) \<le> 122 then Some (code (hd c) - 97)
      else None)"

function tokenize_chars :: "nat \<Rightarrow> string list \<Rightarrow> ftoken list \<Rightarrow> query_error + ftoken list" where
  "tokenize_chars series [] tokens = Inr tokens"
| "tokenize_chars series (c # cs) tokens =
     (if max_tokens < length tokens then Inl (Invalid ''formula is too long'')
      else if blank_char c then tokenize_chars series cs tokens
      else if op_char c then tokenize_chars series cs (tokens @ [TOp (hd c)])
      else if c = ''('' then tokenize_chars series cs (tokens @ [TOpen])
      else if c = '')'' then tokenize_chars series cs (tokens @ [TClose])
      else if literal_char c then
        (let literal = concat (takeWhile literal_char (c # cs)) in
         case parse_literal literal of
           None \<Rightarrow> Inl (Invalid (''invalid number `'' @ literal @ ''` in formula''))
         | Some x \<Rightarrow> tokenize_chars series (dropWhile literal_char (c # cs)) (tokens @ [TNumber x]))
      else case letter_index c of
          Some i \<Rightarrow>
            if series \<le> i
            then Inl (Invalid (''formula refers to series '' @ c @ '', but the query has '' @ decimal series @ '' series''))
            else tokenize_chars series cs (tokens @ [TLetter i])
        | None \<Rightarrow> Inl (Invalid (''unexpected `'' @ c @ ''` in formula'')))"
  by pat_completeness auto
termination
  by (relation "measure (\<lambda>(_, cs, _). length cs)") (auto simp: less_Suc_eq_le length_dropWhile_le)

definition tokenize :: "string \<Rightarrow> nat \<Rightarrow> query_error + ftoken list" where
  "tokenize text series = tokenize_chars series (utf8_chars text) []"

section \<open>The parser\<close>

type_synonym parsed = "(query_error + fnode \<times> ftoken list) option"

text \<open>Go on with the node and the tokens after it.\<close>

fun parsed_then :: "parsed \<Rightarrow> (fnode \<Rightarrow> ftoken list \<Rightarrow> parsed) \<Rightarrow> parsed" where
  "parsed_then (Some (Inr (node, ts))) k = k node ts"
| "parsed_then r _ = r"

definition sum_op :: "char \<Rightarrow> bool" where
  "sum_op op \<longleftrightarrow> op = CHR ''+'' \<or> op = CHR ''-''"

definition product_op :: "char \<Rightarrow> bool" where
  "product_op op \<longleftrightarrow> op = CHR ''*'' \<or> op = CHR ''/''"

text \<open>\<open>expression_rest\<close> and \<open>product_rest\<close> are the \<open>while let\<close> loops, with the node built so far.\<close>

function (sequential) expression :: "nat \<Rightarrow> nat \<Rightarrow> ftoken list \<Rightarrow> parsed"
  and expression_rest :: "nat \<Rightarrow> nat \<Rightarrow> fnode \<Rightarrow> ftoken list \<Rightarrow> parsed"
  and product :: "nat \<Rightarrow> nat \<Rightarrow> ftoken list \<Rightarrow> parsed"
  and product_rest :: "nat \<Rightarrow> nat \<Rightarrow> fnode \<Rightarrow> ftoken list \<Rightarrow> parsed"
  and unary :: "nat \<Rightarrow> nat \<Rightarrow> ftoken list \<Rightarrow> parsed" where
  "expression 0 depth ts = None"
| "expression (Suc fuel) depth ts =
     (if max_depth < depth then Some (Inl (Invalid ''formula is nested too deeply''))
      else parsed_then (product fuel (depth + 1) ts) (\<lambda>left ts. expression_rest fuel depth left ts))"
| "expression_rest 0 depth left ts = None"
| "expression_rest (Suc fuel) depth left ts =
     (case ts of
        TOp op # ts' \<Rightarrow>
          if sum_op op
          then parsed_then (product fuel (depth + 1) ts')
                 (\<lambda>right ts. expression_rest fuel depth (Binary left op right) ts)
          else Some (Inr (left, ts))
      | _ \<Rightarrow> Some (Inr (left, ts)))"
| "product 0 depth ts = None"
| "product (Suc fuel) depth ts =
     parsed_then (unary fuel (depth + 1) ts) (\<lambda>left ts. product_rest fuel depth left ts)"
| "product_rest 0 depth left ts = None"
| "product_rest (Suc fuel) depth left ts =
     (case ts of
        TOp op # ts' \<Rightarrow>
          if product_op op
          then parsed_then (unary fuel (depth + 1) ts')
                 (\<lambda>right ts. product_rest fuel depth (Binary left op right) ts)
          else Some (Inr (left, ts))
      | _ \<Rightarrow> Some (Inr (left, ts)))"
| "unary 0 depth ts = None"
| "unary (Suc fuel) depth ts =
     (if max_depth < depth then Some (Inl (Invalid ''formula is nested too deeply''))
      else case ts of
          TOp op # ts' \<Rightarrow>
            if op = CHR ''-'' then parsed_then (unary fuel (depth + 1) ts') (\<lambda>inner ts. Some (Inr (Negate inner, ts)))
            else if op = CHR ''+'' then unary fuel (depth + 1) ts'
            else Some (Inl (Invalid ''incomplete formula''))
        | TNumber x # ts' \<Rightarrow> Some (Inr (Number x, ts'))
        | TLetter i # ts' \<Rightarrow> Some (Inr (Series i, ts'))
        | TOpen # ts' \<Rightarrow>
            parsed_then (expression fuel (depth + 1) ts')
              (\<lambda>inner ts. case ts of
                 TClose # ts'' \<Rightarrow> Some (Inr (inner, ts''))
               | _ \<Rightarrow> Some (Inl (Invalid ''unbalanced parentheses in formula'')))
        | _ \<Rightarrow> Some (Inl (Invalid ''incomplete formula'')))"
  by pat_completeness auto
termination
  by (relation "measure (\<lambda>c. case c of
        Inl (Inl (fuel, _)) \<Rightarrow> fuel | Inl (Inr (fuel, _)) \<Rightarrow> fuel
      | Inr (Inl (fuel, _)) \<Rightarrow> fuel | Inr (Inr (Inl (fuel, _))) \<Rightarrow> fuel | Inr (Inr (Inr (fuel, _))) \<Rightarrow> fuel)")
    simp_all

text \<open>Calls for one token that the parser can need, and three for the end of the text.\<close>

definition parse_fuel :: "ftoken list \<Rightarrow> nat" where
  "parse_fuel ts = 3 * length ts + 3"

definition parse_tokens :: "ftoken list \<Rightarrow> (query_error + formula) option" where
  "parse_tokens tokens =
     (if tokens = [] then Some (Inl (Invalid ''formula is empty''))
      else case expression (parse_fuel tokens) 0 tokens of
          None \<Rightarrow> None
        | Some (Inl e) \<Rightarrow> Some (Inl e)
        | Some (Inr (node, ts)) \<Rightarrow>
            if ts \<noteq> [] then Some (Inl (Invalid ''unexpected trailing input in formula''))
            else Some (Inr \<lparr>root = node\<rparr>))"

definition formula_parse :: "string \<Rightarrow> nat \<Rightarrow> (query_error + formula) option" where
  "formula_parse text series =
     (case tokenize text series of
        Inl e \<Rightarrow> Some (Inl e)
      | Inr tokens \<Rightarrow> parse_tokens tokens)"

section \<open>Evaluation\<close>

text \<open>A division by zero is zero; any operator but \<open>+\<close>, \<open>-\<close> and \<open>*\<close> divides.\<close>

fun eval_node :: "fnode \<Rightarrow> f64 list \<Rightarrow> f64" where
  "eval_node (Number x) values = x"
| "eval_node (Series i) values = (if i < length values then values ! i else Fin 0)"
| "eval_node (Negate inner) values = f64_neg (eval_node inner values)"
| "eval_node (Binary left op right) values =
     (let l = eval_node left values; r = eval_node right values in
      if op = CHR ''+'' then f64_add l r
      else if op = CHR ''-'' then f64_sub l r
      else if op = CHR ''*'' then f64_mul l r
      else if f64_eq r (Fin 0) then Fin 0
      else f64_div l r)"

definition formula_evaluate :: "formula \<Rightarrow> f64 list \<Rightarrow> f64" where
  "formula_evaluate f values =
     (let value = eval_node (root f) values in if f64_finite value then value else Fin 0)"

end
