(* ===== verification/FormulaCorrect.thy ===== *)
theory FormulaCorrect
  imports Formula
begin

text \<open>
  The formula parser against a grammar: fuel in the number of tokens is enough, the parser's
  functions satisfy fuel-free equations, and what they accept is what the grammar derives within
  the nesting bound. Then what the tokenizer's answers name.
\<close>

section \<open>The fuel is enough\<close>

text \<open>The parser has answered, and an accepted node used up at least \<open>k\<close> of \<open>n\<close> tokens.\<close>

fun answered :: "nat \<Rightarrow> nat \<Rightarrow> parsed \<Rightarrow> bool" where
  "answered k n None = False"
| "answered k n (Some (Inl e)) = True"
| "answered k n (Some (Inr (node, rest))) = (length rest + k \<le> n)"

lemma parsed_cases:
  obtains "r = None" | e where "r = Some (Inl e)" | node rest where "r = Some (Inr (node, rest))"
  by (metis option.exhaust sum.exhaust prod.exhaust)

lemma answered_then:
  assumes "answered j m r" and "\<And>node rest. length rest + j \<le> m \<Longrightarrow> answered k n (f node rest)"
  shows "answered k n (parsed_then r f)"
  using assms by (cases r rule: parsed_cases) auto

lemma answered_mono: "answered k n r \<Longrightarrow> n + j \<le> m + k \<Longrightarrow> answered j m r"
  by (cases r rule: parsed_cases) auto

text \<open>What a loop needs of the function it calls, for any of the two levels.\<close>

lemma parser_answers:
  "(3 * length ts + 3 \<le> fuel \<longrightarrow> answered 1 (length ts) (expression fuel depth ts))
   \<and> (3 * length ts + 1 \<le> fuel \<longrightarrow> answered 0 (length ts) (expression_rest fuel depth left ts))
   \<and> (3 * length ts + 2 \<le> fuel \<longrightarrow> answered 1 (length ts) (product fuel depth ts))
   \<and> (3 * length ts + 1 \<le> fuel \<longrightarrow> answered 0 (length ts) (product_rest fuel depth left ts))
   \<and> (3 * length ts + 1 \<le> fuel \<longrightarrow> answered 1 (length ts) (unary fuel depth ts))"
proof (induction fuel arbitrary: depth left ts)
  case (Suc fuel)
  have e: "answered 1 n (expression fuel d us)" if "3 * length us + 3 \<le> fuel" "length us \<le> n" for d us n
    using Suc.IH that answered_mono by (metis add_le_mono1)
  have er: "answered k n (expression_rest fuel d l us)" if "3 * length us + 1 \<le> fuel" "length us + k \<le> n" for d l us n k
    using Suc.IH that answered_mono by (metis add.right_neutral)
  have p: "answered 1 n (product fuel d us)" if "3 * length us + 2 \<le> fuel" "length us \<le> n" for d us n
    using Suc.IH that answered_mono by (metis add_le_mono1)
  have pr: "answered k n (product_rest fuel d l us)" if "3 * length us + 1 \<le> fuel" "length us + k \<le> n" for d l us n k
    using Suc.IH that answered_mono by (metis add.right_neutral)
  have u: "answered 1 n (unary fuel d us)" if "3 * length us + 1 \<le> fuel" "length us \<le> n" for d us n
    using Suc.IH that answered_mono by (metis add_le_mono1)
  show ?case
  proof (intro conjI impI)
    assume "3 * length ts + 3 \<le> Suc fuel"
    then show "answered 1 (length ts) (expression (Suc fuel) depth ts)"
      by (auto intro!: answered_then [OF p [of ts _ _, OF _ order_refl]] er)
  next
    assume "3 * length ts + 1 \<le> Suc fuel"
    then show "answered 0 (length ts) (expression_rest (Suc fuel) depth left ts)"
      by (auto intro!: answered_then [OF p [OF _ order_refl]] er split: list.split ftoken.split)
  next
    assume "3 * length ts + 2 \<le> Suc fuel"
    then show "answered 1 (length ts) (product (Suc fuel) depth ts)"
      by (auto intro!: answered_then [OF u [OF _ order_refl]] pr)
  next
    assume "3 * length ts + 1 \<le> Suc fuel"
    then show "answered 0 (length ts) (product_rest (Suc fuel) depth left ts)"
      by (auto intro!: answered_then [OF u [OF _ order_refl]] pr split: list.split ftoken.split)
  next
    assume "3 * length ts + 1 \<le> Suc fuel"
    then show "answered 1 (length ts) (unary (Suc fuel) depth ts)"
      by (auto intro!: answered_then [OF u [OF _ order_refl]] answered_then [OF e [OF _ order_refl]] u [simplified]
          split: list.split ftoken.split)
  qed
qed simp

text \<open>More fuel does not change an answer.\<close>

definition extended :: "parsed \<Rightarrow> parsed \<Rightarrow> bool" where
  "extended r r' \<longleftrightarrow> r = None \<or> r' = r"

lemma extended_refl [simp]: "extended r r"
  by (simp add: extended_def)

lemma extended_then:
  assumes "extended r r'" and "\<And>node ts. extended (f node ts) (g node ts)"
  shows "extended (parsed_then r f) (parsed_then r' g)"
  using assms by (cases r rule: parsed_cases) (auto simp: extended_def)

lemma fuel_mono:
  "fuel \<le> fuel' \<Longrightarrow>
     extended (expression fuel depth ts) (expression fuel' depth ts)
   \<and> extended (expression_rest fuel depth left ts) (expression_rest fuel' depth left ts)
   \<and> extended (product fuel depth ts) (product fuel' depth ts)
   \<and> extended (product_rest fuel depth left ts) (product_rest fuel' depth left ts)
   \<and> extended (unary fuel depth ts) (unary fuel' depth ts)"
proof (induction fuel arbitrary: fuel' depth left ts)
  case (Suc fuel)
  then obtain f' where f': "fuel' = Suc f'" "fuel \<le> f'" by (cases fuel') auto
  note IH = Suc.IH [OF f'(2)]
  have IHs: "extended (expression fuel d us) (expression f' d us)"
    "extended (expression_rest fuel d l us) (expression_rest f' d l us)"
    "extended (product fuel d us) (product f' d us)"
    "extended (product_rest fuel d l us) (product_rest f' d l us)"
    "extended (unary fuel d us) (unary f' d us)" for d l us
    using IH by blast+
  show ?case
    unfolding f'(1) using IHs
    by (intro conjI; auto intro!: extended_then split: list.split ftoken.split)
qed (simp add: extended_def)

section \<open>The parser without fuel\<close>

definition expr :: "nat \<Rightarrow> ftoken list \<Rightarrow> parsed" where
  "expr depth ts = expression (parse_fuel ts) depth ts"

definition expr_rest :: "nat \<Rightarrow> fnode \<Rightarrow> ftoken list \<Rightarrow> parsed" where
  "expr_rest depth left ts = expression_rest (parse_fuel ts) depth left ts"

definition prod :: "nat \<Rightarrow> ftoken list \<Rightarrow> parsed" where
  "prod depth ts = product (parse_fuel ts) depth ts"

definition prod_rest :: "nat \<Rightarrow> fnode \<Rightarrow> ftoken list \<Rightarrow> parsed" where
  "prod_rest depth left ts = product_rest (parse_fuel ts) depth left ts"

definition un :: "nat \<Rightarrow> ftoken list \<Rightarrow> parsed" where
  "un depth ts = unary (parse_fuel ts) depth ts"

lemmas parser_defs = expr_def expr_rest_def prod_def prod_rest_def un_def

lemmas fuel_monos =
  fuel_mono [THEN conjunct1] fuel_mono [THEN conjunct2, THEN conjunct1]
  fuel_mono [THEN conjunct2, THEN conjunct2, THEN conjunct1]
  fuel_mono [THEN conjunct2, THEN conjunct2, THEN conjunct2, THEN conjunct1]
  fuel_mono [THEN conjunct2, THEN conjunct2, THEN conjunct2, THEN conjunct2]

lemmas answers =
  parser_answers [THEN conjunct1, rule_format]
  parser_answers [THEN conjunct2, THEN conjunct1, rule_format]
  parser_answers [THEN conjunct2, THEN conjunct2, THEN conjunct1, rule_format]
  parser_answers [THEN conjunct2, THEN conjunct2, THEN conjunct2, THEN conjunct1, rule_format]
  parser_answers [THEN conjunct2, THEN conjunct2, THEN conjunct2, THEN conjunct2, rule_format]

lemma fuel_irrelevant:
  fixes g :: "nat \<Rightarrow> parsed"
  assumes "\<And>a b. a \<le> b \<Longrightarrow> extended (g a) (g b)" and "\<And>a. m \<le> a \<Longrightarrow> answered k n (g a)" and "m \<le> a" and "m \<le> b"
  shows "g a = g b"
proof -
  have "answered k n (g m)" by (rule assms(2)) simp
  then show ?thesis
    using assms(1) [OF assms(3)] assms(1) [OF assms(4)] by (cases "g m") (auto simp: extended_def)
qed

lemma enough_fuel_expr: "3 * length ts + 3 \<le> fuel \<Longrightarrow> expression fuel depth ts = expr depth ts"
  unfolding parser_defs parse_fuel_def
  by (rule fuel_irrelevant [OF fuel_monos(1) answers(1)]; assumption?) simp_all

lemma enough_fuel_expr_rest: "3 * length ts + 1 \<le> fuel \<Longrightarrow> expression_rest fuel depth left ts = expr_rest depth left ts"
  unfolding parser_defs parse_fuel_def
  by (rule fuel_irrelevant [OF fuel_monos(2) answers(2)]; assumption?) simp_all

lemma enough_fuel_prod: "3 * length ts + 2 \<le> fuel \<Longrightarrow> product fuel depth ts = prod depth ts"
  unfolding parser_defs parse_fuel_def
  by (rule fuel_irrelevant [OF fuel_monos(3) answers(3)]; assumption?) simp_all

lemma enough_fuel_prod_rest: "3 * length ts + 1 \<le> fuel \<Longrightarrow> product_rest fuel depth left ts = prod_rest depth left ts"
  unfolding parser_defs parse_fuel_def
  by (rule fuel_irrelevant [OF fuel_monos(4) answers(4)]; assumption?) simp_all

lemma enough_fuel_un: "3 * length ts + 1 \<le> fuel \<Longrightarrow> unary fuel depth ts = un depth ts"
  unfolding parser_defs parse_fuel_def
  by (rule fuel_irrelevant [OF fuel_monos(5) answers(5)]; assumption?) simp_all

lemmas enough_fuel =
  enough_fuel_expr enough_fuel_expr_rest enough_fuel_prod enough_fuel_prod_rest enough_fuel_un

text \<open>The functions as the code has them.\<close>

lemma answered_free:
  "answered 1 (length ts) (expr depth ts)" "answered 0 (length ts) (expr_rest depth left ts)"
  "answered 1 (length ts) (prod depth ts)" "answered 0 (length ts) (prod_rest depth left ts)"
  "answered 1 (length ts) (un depth ts)"
  unfolding parser_defs parse_fuel_def using answers by simp_all

lemma then_cong:
  assumes "answered 1 n r" and "\<And>node rest. length rest < n \<Longrightarrow> f node rest = g node rest"
  shows "parsed_then r f = parsed_then r g"
  using assms by (cases r rule: parsed_cases) auto

declare expression.simps [simp del] expression_rest.simps [simp del] product.simps [simp del]
  product_rest.simps [simp del] unary.simps [simp del]

lemma expr_unfold:
  "expr depth ts =
     (if max_depth < depth then Some (Inl (Invalid ''formula is nested too deeply''))
      else parsed_then (prod (depth + 1) ts) (expr_rest depth))"
proof -
  have "expression (Suc f) depth ts = (if max_depth < depth then Some (Inl (Invalid ''formula is nested too deeply''))
      else parsed_then (prod (depth + 1) ts) (expr_rest depth))" if "3 * length ts + 2 \<le> f" for f
    using that by (auto simp: expression.simps enough_fuel intro!: then_cong [OF answered_free(3)])
  from this [OF order_refl] show ?thesis using enough_fuel(1) [of ts "Suc (3 * length ts + 2)"] by simp
qed

lemma prod_unfold: "prod depth ts = parsed_then (un (depth + 1) ts) (prod_rest depth)"
proof -
  have "product (Suc f) depth ts = parsed_then (un (depth + 1) ts) (prod_rest depth)" if "3 * length ts + 2 \<le> f" for f
    using that by (auto simp: product.simps enough_fuel intro!: then_cong [OF answered_free(5)])
  from this [OF order_refl] show ?thesis using enough_fuel(3) [of ts "Suc (3 * length ts + 2)"] by simp
qed

lemma expr_rest_unfold:
  "expr_rest depth left ts =
     (case ts of
        TOp op # ts' \<Rightarrow>
          if sum_op op then parsed_then (prod (depth + 1) ts') (\<lambda>right. expr_rest depth (Binary left op right))
          else Some (Inr (left, ts))
      | _ \<Rightarrow> Some (Inr (left, ts)))"
proof -
  have "expression_rest (Suc f) depth left ts = (case ts of
        TOp op # ts' \<Rightarrow>
          if sum_op op then parsed_then (prod (depth + 1) ts') (\<lambda>right. expr_rest depth (Binary left op right))
          else Some (Inr (left, ts))
      | _ \<Rightarrow> Some (Inr (left, ts)))" if "3 * length ts + 2 \<le> f" for f
    using that
    by (auto simp: expression_rest.simps enough_fuel intro!: then_cong [OF answered_free(3)] split: list.split ftoken.split)
  from this [OF order_refl] show ?thesis using enough_fuel(2) [of ts "Suc (3 * length ts + 2)"] by simp
qed

lemma prod_rest_unfold:
  "prod_rest depth left ts =
     (case ts of
        TOp op # ts' \<Rightarrow>
          if product_op op then parsed_then (un (depth + 1) ts') (\<lambda>right. prod_rest depth (Binary left op right))
          else Some (Inr (left, ts))
      | _ \<Rightarrow> Some (Inr (left, ts)))"
proof -
  have "product_rest (Suc f) depth left ts = (case ts of
        TOp op # ts' \<Rightarrow>
          if product_op op then parsed_then (un (depth + 1) ts') (\<lambda>right. prod_rest depth (Binary left op right))
          else Some (Inr (left, ts))
      | _ \<Rightarrow> Some (Inr (left, ts)))" if "3 * length ts + 2 \<le> f" for f
    using that
    by (auto simp: product_rest.simps enough_fuel intro!: then_cong [OF answered_free(5)] split: list.split ftoken.split)
  from this [OF order_refl] show ?thesis using enough_fuel(4) [of ts "Suc (3 * length ts + 2)"] by simp
qed

text \<open>The end of a group in parentheses.\<close>

fun close_group :: "fnode \<Rightarrow> ftoken list \<Rightarrow> parsed" where
  "close_group inner (TClose # ts) = Some (Inr (inner, ts))"
| "close_group inner _ = Some (Inl (Invalid ''unbalanced parentheses in formula''))"

lemma close_group_case:
  "(\<lambda>inner ts. case ts of TClose # ts'' \<Rightarrow> Some (Inr (inner, ts''))
      | _ \<Rightarrow> Some (Inl (Invalid ''unbalanced parentheses in formula''))) = close_group"
  by (intro ext) (auto split: list.split ftoken.split)

lemma un_unfold:
  "un depth ts =
     (if max_depth < depth then Some (Inl (Invalid ''formula is nested too deeply''))
      else case ts of
          TOp op # ts' \<Rightarrow>
            if op = CHR ''-'' then parsed_then (un (depth + 1) ts') (\<lambda>inner ts. Some (Inr (Negate inner, ts)))
            else if op = CHR ''+'' then un (depth + 1) ts'
            else Some (Inl (Invalid ''incomplete formula''))
        | TNumber x # ts' \<Rightarrow> Some (Inr (Number x, ts'))
        | TLetter i # ts' \<Rightarrow> Some (Inr (Series i, ts'))
        | TOpen # ts' \<Rightarrow> parsed_then (expr (depth + 1) ts') close_group
        | _ \<Rightarrow> Some (Inl (Invalid ''incomplete formula'')))"
    (is "_ = ?rhs")
proof -
  have "unary (Suc f) depth ts = ?rhs" if "3 * length ts + 2 \<le> f" for f
    using that by (auto simp: unary.simps enough_fuel close_group_case split: list.split ftoken.split)
  from this [OF order_refl] show ?thesis using enough_fuel(5) [of ts "Suc (3 * length ts + 2)"] by simp
qed

lemmas parser_unfolds = expr_unfold prod_unfold un_unfold expr_rest_unfold prod_rest_unfold

section \<open>The grammar\<close>

text \<open>Sums of products of signed primaries, left-associative, with the level at which each part
  stands.\<close>

inductive sum_of :: "nat \<Rightarrow> ftoken list \<Rightarrow> fnode \<Rightarrow> bool"
  and product_of :: "nat \<Rightarrow> ftoken list \<Rightarrow> fnode \<Rightarrow> bool"
  and primary_of :: "nat \<Rightarrow> ftoken list \<Rightarrow> fnode \<Rightarrow> bool" where
  sum_one: "d \<le> max_depth \<Longrightarrow> product_of (d + 1) ts n \<Longrightarrow> sum_of d ts n"
| sum_more: "sum_of d ts l \<Longrightarrow> sum_op op \<Longrightarrow> product_of (d + 1) us r
    \<Longrightarrow> sum_of d (ts @ TOp op # us) (Binary l op r)"
| product_one: "primary_of (d + 1) ts n \<Longrightarrow> product_of d ts n"
| product_more: "product_of d ts l \<Longrightarrow> product_op op \<Longrightarrow> primary_of (d + 1) us r
    \<Longrightarrow> product_of d (ts @ TOp op # us) (Binary l op r)"
| number: "d \<le> max_depth \<Longrightarrow> primary_of d [TNumber x] (Number x)"
| letter: "d \<le> max_depth \<Longrightarrow> primary_of d [TLetter i] (Series i)"
| minus: "d \<le> max_depth \<Longrightarrow> primary_of (d + 1) ts n \<Longrightarrow> primary_of d (TOp (CHR ''-'') # ts) (Negate n)"
| plus: "d \<le> max_depth \<Longrightarrow> primary_of (d + 1) ts n \<Longrightarrow> primary_of d (TOp (CHR ''+'') # ts) n"
| parens: "d \<le> max_depth \<Longrightarrow> sum_of (d + 1) ts n \<Longrightarrow> primary_of d (TOpen # ts @ [TClose]) n"

text \<open>Everything the grammar derives is parsed so.\<close>

definition no_product :: "ftoken list \<Rightarrow> bool" where
  "no_product rest \<longleftrightarrow> (\<forall>op ts. rest = TOp op # ts \<longrightarrow> \<not> product_op op)"

lemma prod_rest_stops: "no_product rest \<Longrightarrow> prod_rest d n rest = Some (Inr (n, rest))"
  by (auto simp: prod_rest_unfold [of d n rest] no_product_def split: list.split ftoken.split)

lemma no_product_sum_op [simp]: "sum_op op \<Longrightarrow> no_product (TOp op # ts)"
  by (auto simp: no_product_def sum_op_def product_op_def)

lemma no_product_others [simp]: "no_product []" "no_product (TClose # ts)"
  by (simp_all add: no_product_def)

lemma rest_at_end: "expr_rest d n [] = Some (Inr (n, []))" "expr_rest d n (TClose # ts) = Some (Inr (n, TClose # ts))"
  by (simp_all add: expr_rest_unfold)

lemma derived_is_parsed:
  "sum_of d ts n \<Longrightarrow> no_product rest \<Longrightarrow> expr d (ts @ rest) = expr_rest d n rest"
  "product_of d ts n \<Longrightarrow> prod d (ts @ rest) = prod_rest d n rest"
  "primary_of d ts n \<Longrightarrow> un d (ts @ rest) = Some (Inr (n, rest))"
proof (induction arbitrary: rest and rest and rest rule: sum_of_product_of_primary_of.inducts)
  case (sum_one d ts n)
  then show ?case by (simp add: expr_unfold prod_rest_stops)
next
  case (sum_more d ts l op us r)
  then show ?case by (simp add: expr_rest_unfold [of d l "TOp op # us @ rest"] prod_rest_stops)
next
  case (product_one d ts n)
  then show ?case by (simp add: prod_unfold)
next
  case (product_more d ts l op us r)
  then show ?case by (simp add: prod_rest_unfold [of d l "TOp op # us @ rest"])
next
  case (parens d ts n)
  then show ?case by (simp add: un_unfold [of d "TOpen # ts @ TClose # rest"] rest_at_end)
qed (simp_all add: un_unfold [of _ "_ # _"])

text \<open>Everything that is parsed is derived.\<close>

lemma then_accepts [simp]:
  "parsed_then r f = Some (Inr y) \<longleftrightarrow> (\<exists>n ts. r = Some (Inr (n, ts)) \<and> f n ts = Some (Inr y))"
  by (cases r rule: parsed_cases) auto

lemma close_group_accepts [simp]: "close_group n ts = Some (Inr (m, us)) \<longleftrightarrow> m = n \<and> ts = TClose # us"
  by (cases "(n, ts)" rule: close_group.cases) auto

lemma parsed_is_derived:
  "(expression fuel d ts = Some (Inr (n, rest)) \<longrightarrow> (\<exists>u. ts = u @ rest \<and> sum_of d u n))
   \<and> (expression_rest fuel d l ts = Some (Inr (n, rest)) \<longrightarrow> sum_of d v l \<longrightarrow> (\<exists>u. ts = u @ rest \<and> sum_of d (v @ u) n))
   \<and> (product fuel d ts = Some (Inr (n, rest)) \<longrightarrow> (\<exists>u. ts = u @ rest \<and> product_of d u n))
   \<and> (product_rest fuel d l ts = Some (Inr (n, rest)) \<longrightarrow> product_of d v l \<longrightarrow> (\<exists>u. ts = u @ rest \<and> product_of d (v @ u) n))
   \<and> (unary fuel d ts = Some (Inr (n, rest)) \<longrightarrow> (\<exists>u. ts = u @ rest \<and> primary_of d u n))"
proof (induction fuel arbitrary: d l ts n rest v)
  case 0
  then show ?case
    by (simp add: expression.simps expression_rest.simps product.simps product_rest.simps unary.simps)
next
  case (Suc fuel)
  note e = Suc.IH [THEN conjunct1, rule_format]
    and er = Suc.IH [THEN conjunct2, THEN conjunct1, rule_format]
    and p = Suc.IH [THEN conjunct2, THEN conjunct2, THEN conjunct1, rule_format]
    and pr = Suc.IH [THEN conjunct2, THEN conjunct2, THEN conjunct2, THEN conjunct1, rule_format]
    and u = Suc.IH [THEN conjunct2, THEN conjunct2, THEN conjunct2, THEN conjunct2, rule_format]
  have "\<exists>u. ts = u @ rest \<and> sum_of d u n" if r: "expression (Suc fuel) d ts = Some (Inr (n, rest))"
  proof -
    obtain m us where "product fuel (d + 1) ts = Some (Inr (m, us))"
        "expression_rest fuel d m us = Some (Inr (n, rest))" "d \<le> max_depth"
      using r by (auto simp: expression.simps split: if_splits)
    then show ?thesis using p [of "d + 1" ts m us] er [of d m us n rest] sum_one [of d _ m] by fastforce
  qed
  moreover have "\<exists>u. ts = u @ rest \<and> sum_of d (v @ u) n"
    if r: "expression_rest (Suc fuel) d l ts = Some (Inr (n, rest))" and v: "sum_of d v l"
  proof (cases "\<exists>op ts'. ts = TOp op # ts' \<and> sum_op op")
    case True
    then obtain op ts' m us where "ts = TOp op # ts'" "sum_op op" "product fuel (d + 1) ts' = Some (Inr (m, us))"
        "expression_rest fuel d (Binary l op m) us = Some (Inr (n, rest))"
      using r by (auto simp: expression_rest.simps)
    then show ?thesis
      using p [of "d + 1" ts' m us] er [of d "Binary l op m" us n rest] sum_more [OF v] by fastforce
  next
    case False
    then show ?thesis using r v by (auto simp: expression_rest.simps split: list.splits ftoken.splits if_splits)
  qed
  moreover have "\<exists>u. ts = u @ rest \<and> product_of d u n" if r: "product (Suc fuel) d ts = Some (Inr (n, rest))"
  proof -
    obtain m us where "unary fuel (d + 1) ts = Some (Inr (m, us))" "product_rest fuel d m us = Some (Inr (n, rest))"
      using r by (auto simp: product.simps)
    then show ?thesis using u [of "d + 1" ts m us] pr [of d m us n rest] product_one [of d _ m] by fastforce
  qed
  moreover have "\<exists>u. ts = u @ rest \<and> product_of d (v @ u) n"
    if r: "product_rest (Suc fuel) d l ts = Some (Inr (n, rest))" and v: "product_of d v l"
  proof (cases "\<exists>op ts'. ts = TOp op # ts' \<and> product_op op")
    case True
    then obtain op ts' m us where "ts = TOp op # ts'" "product_op op" "unary fuel (d + 1) ts' = Some (Inr (m, us))"
        "product_rest fuel d (Binary l op m) us = Some (Inr (n, rest))"
      using r by (auto simp: product_rest.simps)
    then show ?thesis
      using u [of "d + 1" ts' m us] pr [of d "Binary l op m" us n rest] product_more [OF v] by fastforce
  next
    case False
    then show ?thesis using r v by (auto simp: product_rest.simps split: list.splits ftoken.splits if_splits)
  qed
  moreover have "\<exists>u. ts = u @ rest \<and> primary_of d u n" if r: "unary (Suc fuel) d ts = Some (Inr (n, rest))"
  proof -
    have d: "d \<le> max_depth" using r by (auto simp: unary.simps split: if_splits)
    show ?thesis
      using r d
      by (auto simp: unary.simps close_group_case split: if_splits list.splits ftoken.splits
          dest!: e u intro!: number letter minus [simplified] plus [simplified] parens [simplified])
  qed
  ultimately show ?case by blast
qed

lemma accepted_iff: "expr 0 ts = Some (Inr (n, [])) \<longleftrightarrow> sum_of 0 ts n"
proof
  assume "expr 0 ts = Some (Inr (n, []))"
  then show "sum_of 0 ts n" using parsed_is_derived [THEN conjunct1] unfolding expr_def by fastforce
next
  assume "sum_of 0 ts n"
  from derived_is_parsed(1) [OF this, of "[]"] show "expr 0 ts = Some (Inr (n, []))" by (simp add: rest_at_end)
qed

lemma derived_nonempty:
  "sum_of d ts n \<Longrightarrow> ts \<noteq> []" "product_of d ts n \<Longrightarrow> ts \<noteq> []" "primary_of d ts n \<Longrightarrow> ts \<noteq> []"
  by (induction rule: sum_of_product_of_primary_of.inducts) auto

lemma parse_tokens_expr:
  "parse_tokens ts =
     (if ts = [] then Some (Inl (Invalid ''formula is empty''))
      else case expr 0 ts of
          None \<Rightarrow> None
        | Some (Inl e) \<Rightarrow> Some (Inl e)
        | Some (Inr (node, rest)) \<Rightarrow>
            if rest \<noteq> [] then Some (Inl (Invalid ''unexpected trailing input in formula''))
            else Some (Inr \<lparr>root = node\<rparr>))"
  by (simp add: parse_tokens_def expr_def)

lemma parse_tokens_accepts: "parse_tokens ts = Some (Inr f) \<longleftrightarrow> sum_of 0 ts (root f)"
proof -
  have "parse_tokens ts = Some (Inr f) \<longleftrightarrow> ts \<noteq> [] \<and> expr 0 ts = Some (Inr (root f, []))"
    by (cases f) (auto simp: parse_tokens_expr split: option.splits sum.splits)
  then show ?thesis using accepted_iff derived_nonempty(1) by blast
qed

lemma parse_tokens_answers: "parse_tokens ts \<noteq> None"
  using answered_free(1) [of ts 0]
  by (cases "expr 0 ts" rule: parsed_cases) (auto simp: parse_tokens_expr)

section \<open>What the tokens name\<close>

fun series_of :: "fnode \<Rightarrow> nat set" where
  "series_of (Number x) = {}"
| "series_of (Series i) = {i}"
| "series_of (Negate n) = series_of n"
| "series_of (Binary l op r) = series_of l \<union> series_of r"

definition letters_of :: "ftoken list \<Rightarrow> nat set" where
  "letters_of ts = {i. TLetter i \<in> set ts}"

lemma letters_of_simps [simp]:
  "letters_of [] = {}" "letters_of (ts @ us) = letters_of ts \<union> letters_of us"
  "letters_of (t # ts) = (case t of TLetter i \<Rightarrow> {i} | _ \<Rightarrow> {}) \<union> letters_of ts"
  by (auto simp: letters_of_def split: ftoken.split)

lemma derived_series:
  "sum_of d ts n \<Longrightarrow> series_of n = letters_of ts" "product_of d ts n \<Longrightarrow> series_of n = letters_of ts"
  "primary_of d ts n \<Longrightarrow> series_of n = letters_of ts"
  by (induction rule: sum_of_product_of_primary_of.inducts) auto

lemma tokenize_chars_bounds:
  "tokenize_chars series cs tokens = Inr ts \<Longrightarrow> length tokens \<le> max_tokens + 1 \<Longrightarrow> \<forall>i \<in> letters_of tokens. i < series
   \<Longrightarrow> length ts \<le> max_tokens + 1 \<and> (\<forall>i \<in> letters_of ts. i < series)"
proof (induction series cs tokens rule: tokenize_chars.induct)
  case (2 series c cs tokens)
  then show ?case by (auto simp: Let_def split: if_splits option.splits)
qed simp

lemma tokenize_bounds:
  assumes "tokenize text series = Inr ts"
  shows "length ts \<le> max_tokens + 1" and "\<forall>i \<in> letters_of ts. i < series"
  using tokenize_chars_bounds [of series "utf8_chars text" "[]" ts] assms by (auto simp: tokenize_def)

lemma eval_series:
  "(\<And>i. i \<in> series_of n \<Longrightarrow> i < k) \<Longrightarrow> k \<le> length values \<Longrightarrow> eval_node n values = eval_node n (take k values)"
  by (induction n) auto

end
