(* ===== verification/QueryProperties.thy ===== *)
theory QueryProperties
  imports FormulaCorrect
begin

text \<open>
  The properties of the query side: formulas of trends queries.
\<close>

section \<open>Formulas\<close>

text \<open>C36: A formula is accepted exactly when its tokens are a sum of products of signed primaries within the
  nesting bound, and the tree it gives is the grammar's one: products bind tighter than sums, both associate to
  the left, a sign binds tightest.\<close>

theorem formula_parse_grammar:
  "formula_parse text series = Some (Inr f) \<longleftrightarrow> (\<exists>ts. tokenize text series = Inr ts \<and> sum_of 0 ts (root f))"
  by (cases "tokenize text series") (auto simp: formula_parse_def parse_tokens_accepts)


text \<open>An accepted formula has at most one token more than \<open>MAX_TOKENS\<close> and names only series of the
  query, its value reads no others, and the value is a finite number whatever the series are.\<close>

theorem formula_names_series:
  assumes "formula_parse text series = Some (Inr f)" and "series \<le> length values"
  shows "(\<exists>ts. tokenize text series = Inr ts \<and> length ts \<le> max_tokens + 1)
    \<and> series_of (root f) \<subseteq> {..<series}
    \<and> formula_evaluate f values = formula_evaluate f (take series values)
    \<and> f64_finite (formula_evaluate f values)"
proof -
  obtain ts where ts: "tokenize text series = Inr ts" "sum_of 0 ts (root f)"
    using assms(1) by (cases "tokenize text series") (auto simp: formula_parse_def parse_tokens_accepts)
  have named: "i < series" if "i \<in> series_of (root f)" for i
    using that tokenize_bounds(2) [OF ts(1)] derived_series(1) [OF ts(2)] by blast
  show ?thesis
    using ts(1) tokenize_bounds(1) [OF ts(1)] named eval_series [OF named assms(2)]
    by (auto simp: formula_evaluate_def Let_def)
qed

lemma formula_names_series_witness:
  "\<exists>f. formula_parse ''(A + c)/-b'' 3 = Some (Inr f)
     \<and> formula_evaluate f [Fin 4, Fin (- 2), Fin 2, Fin 9] = Fin 3
     \<and> formula_evaluate f [Fin 4, Fin (- 2), Fin 2, Fin 9] = formula_evaluate f [Fin 4, Fin (- 2), Fin 2]"
proof -
  let ?f = "\<lparr>root = Binary (Binary (Series 0) (CHR ''+'') (Series 2)) (CHR ''/'') (Negate (Series 1))\<rparr>"
  have p: "formula_parse ''(A + c)/-b'' 3 = Some (Inr ?f)" by code_simp
  have "formula_evaluate ?f [Fin 4, Fin (- 2), Fin 2, Fin 9] = Fin 3"
    using f64_round_int [of 6] f64_round_int [of 3] by (simp add: formula_evaluate_def)
  then show ?thesis using p formula_names_series [OF p, of "[Fin 4, Fin (- 2), Fin 2, Fin 9]"] by auto
qed

end
