(* ===== verification/Throttle.thy ===== *)
theory Throttle
  imports Utf8 Types
begin

text \<open>
  The login throttle of \<open>security.rs\<close> and the login handler of \<open>routes/workspace.rs\<close> around it.

  Instants and durations are nanoseconds. The order of an association list is the iteration order of
  the hash map, which decides between entries of the same age. The verification of the password
  (\<open>access.login\<close>) is an input of the handler; each call of the throttle is one step under its mutex.
\<close>

section \<open>State\<close>

definition second :: int where
  "second = 10 ^ 9"

definition email_free_failures :: nat where
  "email_free_failures = 5"

definition email_max_delay :: int where
  "email_max_delay = 60 * second"

definition email_window :: int where
  "email_window = 15 * 60 * second"

definition source_max_failures :: nat where
  "source_max_failures = 30"

definition source_window :: int where
  "source_window = 10 * 60 * second"

definition max_tracked :: nat where
  "max_tracked = 4096"

definition u32_max :: nat where
  "u32_max = 2 ^ 32 - 1"

record throttle_entry =
  failures :: nat
  since :: instant
  blocked_until :: "instant option"

record throttle_tables =
  emails :: "(string \<times> throttle_entry) list"
  sources :: "(string \<times> throttle_entry) list"

definition login_throttle :: throttle_tables where
  "login_throttle = \<lparr>emails = [], sources = []\<rparr>"

definition normalize_email :: "string \<Rightarrow> string" where
  "normalize_email email = ascii_lower (concat (take 254 (utf8_chars (trim email))))"

section \<open>Bounded insertion\<close>

text \<open>\<open>Instant::duration_since\<close>, which is zero for a later instant.\<close>

definition duration_since :: "instant \<Rightarrow> instant \<Rightarrow> int" where
  "duration_since now earlier = max 0 (now - earlier)"

definition still_relevant :: "instant \<Rightarrow> int \<Rightarrow> throttle_entry \<Rightarrow> bool" where
  "still_relevant now window x \<longleftrightarrow>
     duration_since now (since x) < window \<or> (\<exists>u \<in> set_option (blocked_until x). now < u)"

text \<open>\<open>min_by_key\<close>: the first entry of the least age mark.\<close>

fun oldest :: "(string \<times> throttle_entry) list \<Rightarrow> string option" where
  "oldest [] = None"
| "oldest ((k, x) # m) =
     (if \<forall>y \<in> snd ` set m. since x \<le> since y then Some k else oldest m)"

definition make_room :: "(string \<times> throttle_entry) list \<Rightarrow> instant \<Rightarrow> int \<Rightarrow> (string \<times> throttle_entry) list" where
  "make_room table now window =
     (let kept = filter (\<lambda>(_, x). still_relevant now window x) table in
      if max_tracked \<le> length kept
      then case oldest kept of Some k \<Rightarrow> AList.delete k kept | None \<Rightarrow> kept
      else kept)"

definition insert_bounded ::
  "(string \<times> throttle_entry) list \<Rightarrow> string \<Rightarrow> instant \<Rightarrow> int \<Rightarrow> (string \<times> throttle_entry) list" where
  "insert_bounded table key now window =
     (let room = (if map_of table key = None \<and> max_tracked \<le> length table
                  then make_room table now window else table) in
      if map_of room key = None
      then AList.update key \<lparr>failures = 0, since = now, blocked_until = None\<rparr> room
      else room)"

section \<open>The throttle\<close>

definition wait_of :: "instant \<Rightarrow> throttle_entry option \<Rightarrow> int" where
  "wait_of now x =
     (case Option.bind x blocked_until of
        Some u \<Rightarrow> if now < u then u - now else 0
      | None \<Rightarrow> 0)"

text \<open>\<open>Inl\<close> is the time after which to try again.\<close>

definition throttle_check :: "throttle_tables \<Rightarrow> string \<Rightarrow> string option \<Rightarrow> instant \<Rightarrow> int + unit" where
  "throttle_check t email source now =
     (let wait = max (max 0 (wait_of now (map_of (emails t) (normalize_email email))))
                     (wait_of now (Option.bind source (map_of (sources t)))) in
      if wait = 0 then Inr () else Inl wait)"

text \<open>The delay after the given number of failures: a second, doubled to a minute.\<close>

definition email_delay :: "nat \<Rightarrow> int" where
  "email_delay n = min (2 ^ min (n - email_free_failures) 6 * second) email_max_delay"

definition email_failure :: "instant \<Rightarrow> throttle_entry \<Rightarrow> throttle_entry" where
  "email_failure now x =
     (let x = (if email_window \<le> duration_since now (since x) then x\<lparr>failures := 0, since := now\<rparr> else x);
          x = x\<lparr>failures := sat_add u32_max (failures x) 1\<rparr> in
      if email_free_failures \<le> failures x
      then x\<lparr>blocked_until := Some (now + email_delay (failures x))\<rparr> else x)"

definition source_failure :: "instant \<Rightarrow> throttle_entry \<Rightarrow> throttle_entry" where
  "source_failure now x =
     (let x = (if source_window \<le> duration_since now (since x)
               then x\<lparr>failures := 0, since := now, blocked_until := None\<rparr> else x);
          x = x\<lparr>failures := sat_add u32_max (failures x) 1\<rparr> in
      if source_max_failures \<le> failures x
      then x\<lparr>blocked_until := Some (since x + source_window)\<rparr> else x)"

text \<open>\<open>table.get_mut(key)\<close> and a change of the entry.\<close>

definition change_entry ::
  "(string \<times> throttle_entry) list \<Rightarrow> string \<Rightarrow> (throttle_entry \<Rightarrow> throttle_entry) \<Rightarrow> (string \<times> throttle_entry) list" where
  "change_entry table key f = (case map_of table key of None \<Rightarrow> table | Some x \<Rightarrow> AList.update key (f x) table)"

definition record_failure :: "throttle_tables \<Rightarrow> string \<Rightarrow> string option \<Rightarrow> instant \<Rightarrow> throttle_tables" where
  "record_failure t email source now =
     (let key = normalize_email email;
          t = t\<lparr>emails := change_entry (insert_bounded (emails t) key now email_window) key (email_failure now)\<rparr> in
      case source of
        None \<Rightarrow> t
      | Some s \<Rightarrow> t\<lparr>sources := change_entry (insert_bounded (sources t) s now source_window) s (source_failure now)\<rparr>)"

definition record_success :: "throttle_tables \<Rightarrow> string \<Rightarrow> throttle_tables" where
  "record_success t email = t\<lparr>emails := AList.delete (normalize_email email) (emails t)\<rparr>"

section \<open>The login handler\<close>

datatype login_verdict = Signed_in | Invalid_credentials | Other_failure

datatype login_answer =
    Invalid_field string
  | Too_many_attempts int
  | Answered_by_access login_verdict

text \<open>The whole seconds of \<open>Retry-After\<close>: at least one, and one more for a fraction.\<close>

definition retry_after :: "int \<Rightarrow> int" where
  "retry_after wait = max (wait div second) 1 + (if 0 < wait mod second then 1 else 0)"

text \<open>An attempt that is checked at \<open>now\<close>, whose verdict arrives at \<open>later\<close>.\<close>

record login_attempt =
  at_email :: string
  at_password :: string
  at_source :: "string option"
  at_now :: instant
  at_later :: instant
  at_verdict :: login_verdict

text \<open>What the handler does with the verdict of \<open>access.login\<close>.\<close>

definition login_record :: "throttle_tables \<Rightarrow> login_attempt \<Rightarrow> throttle_tables" where
  "login_record t a =
     (case at_verdict a of
        Signed_in \<Rightarrow> record_success t (at_email a)
      | Invalid_credentials \<Rightarrow> record_failure t (at_email a) (at_source a) (at_later a)
      | Other_failure \<Rightarrow> t)"

text \<open>Before it awaits the verdict: the answer of a refusal.\<close>

definition login_check :: "throttle_tables \<Rightarrow> login_attempt \<Rightarrow> login_answer + unit" where
  "login_check t a =
     (if trim (at_email a) = [] then Inl (Invalid_field ''email'')
      else if at_password a = [] then Inl (Invalid_field ''password'')
      else case throttle_check t (at_email a) (at_source a) (at_now a) of
          Inl wait \<Rightarrow> Inl (Too_many_attempts (retry_after wait))
        | Inr _ \<Rightarrow> Inr ())"

definition login :: "throttle_tables \<Rightarrow> login_attempt \<Rightarrow> throttle_tables \<times> login_answer" where
  "login t a =
     (case login_check t a of
        Inl answer \<Rightarrow> (t, answer)
      | Inr _ \<Rightarrow> (login_record t a, Answered_by_access (at_verdict a)))"

text \<open>Several handlers at once: a handler that was let through waits for its verdict while others are
  checked and others record theirs. The state is the throttle, the handlers that wait, and the wrong
  guesses so far.\<close>

datatype login_event = Checked login_attempt | Verdict login_attempt

fun login_events ::
  "throttle_tables \<times> login_attempt list \<times> (string \<times> instant) list \<Rightarrow> login_event list
   \<Rightarrow> throttle_tables \<times> login_attempt list \<times> (string \<times> instant) list" where
  "login_events st [] = st"
| "login_events (t, waiting, g) (Checked a # es) =
     login_events (t, (case login_check t a of Inl _ \<Rightarrow> waiting | Inr _ \<Rightarrow> a # waiting), g) es"
| "login_events (t, waiting, g) (Verdict a # es) =
     login_events
       (if a \<in> set waiting
        then (login_record t a, remove1 a waiting,
              if at_verdict a = Invalid_credentials then (normalize_email (at_email a), at_later a) # g else g)
        else (t, waiting, g)) es"

end
