(* ===== verification/ThrottleCorrect.thy ===== *)
theory ThrottleCorrect
  imports Throttle
begin

text \<open>
  What the login throttle keeps: bounded tables, at most 24 failures in the window of an email, and,
  over a sequential history of attempts, a bound on the wrong guesses of any quarter of an hour.
\<close>

section \<open>The tables stay bounded\<close>

lemma oldest_member: "oldest m = Some k \<Longrightarrow> k \<in> fst ` set m"
  by (induction m rule: oldest.induct) (auto split: if_splits)

lemma oldest_None: "oldest m = None \<longleftrightarrow> m = []"
proof (induction m rule: oldest.induct)
  case (2 k x m)
  then show ?case by (cases m) auto
qed simp

lemma delete_member_length: "k \<in> fst ` set m \<Longrightarrow> length (AList.delete k m) < length m"
  by (auto simp: AList.delete_eq intro!: length_filter_less)

lemma make_room_length:
  assumes "length table \<le> max_tracked"
  shows "length (make_room table now window) < max_tracked"
proof -
  let ?kept = "filter (\<lambda>(_, x). still_relevant now window x) table"
  have le: "length ?kept \<le> max_tracked" using length_filter_le [of _ table] assms by (rule order_trans)
  show ?thesis
  proof (cases "max_tracked \<le> length ?kept")
    case True
    then have "?kept \<noteq> []" by (auto simp: max_tracked_def)
    then obtain k where k: "oldest ?kept = Some k" using oldest_None by (cases "oldest ?kept") auto
    then show ?thesis using True le delete_member_length [OF oldest_member [OF k]] by (simp add: make_room_def Let_def)
  qed (simp add: make_room_def Let_def)
qed

lemma make_room_keys: "distinct (map fst table) \<Longrightarrow> distinct (map fst (make_room table now window))"
  by (auto simp: make_room_def Let_def distinct_map_filter distinct_keys_delete split: option.split)

lemma insert_bounded_ok:
  assumes "length table \<le> max_tracked" and "distinct (map fst table)"
  shows "length (insert_bounded table key now window) \<le> max_tracked \<and> distinct (map fst (insert_bounded table key now window))"
  using assms make_room_length [OF assms(1), of now window] make_room_keys [OF assms(2), of now window]
  by (auto simp: insert_bounded_def Let_def alist_simps)

lemma change_entry_ok [simp]:
  "length (change_entry table key f) = length table" "distinct (map fst (change_entry table key f)) = distinct (map fst table)"
  by (auto simp: change_entry_def alist_simps split: option.split)

definition throttle_ok :: "throttle_tables \<Rightarrow> bool" where
  "throttle_ok t \<longleftrightarrow>
     length (emails t) \<le> max_tracked \<and> distinct (map fst (emails t))
     \<and> length (sources t) \<le> max_tracked \<and> distinct (map fst (sources t))"

lemma throttle_ok_new [simp]: "throttle_ok login_throttle"
  by (simp add: throttle_ok_def login_throttle_def)

lemma record_failure_ok: "throttle_ok t \<Longrightarrow> throttle_ok (record_failure t email source now)"
  using insert_bounded_ok by (auto simp: throttle_ok_def record_failure_def Let_def split: option.split)

lemma record_success_ok: "throttle_ok t \<Longrightarrow> throttle_ok (record_success t email)"
  by (auto simp: throttle_ok_def record_success_def distinct_keys_delete intro: order_trans [OF length_delete])

lemma login_ok: "throttle_ok t \<Longrightarrow> throttle_ok (fst (login t a))"
  by (auto simp: login_def login_check_def login_record_def record_failure_ok record_success_ok split: sum.split login_verdict.split)

section \<open>One entry\<close>

text \<open>The delays that the failures of a window imposed so far.\<close>

definition blocked_span :: "nat \<Rightarrow> int" where
  "blocked_span n = (\<Sum>k \<leftarrow> [5..<Suc n]. email_delay k)"

lemma blocked_span_Suc: "5 \<le> Suc n \<Longrightarrow> blocked_span (Suc n) = blocked_span n + email_delay (Suc n)"
  by (simp add: blocked_span_def)

lemma blocked_span_4: "blocked_span 4 = 0"
  by (simp add: blocked_span_def)

lemma email_delay_nonneg: "0 \<le> email_delay n"
  by (simp add: email_delay_def email_max_delay_def second_def)

lemma email_delay_le: "email_delay n \<le> email_max_delay"
  by (simp add: email_delay_def)

text \<open>Twenty-four failures fill a window with delays.\<close>

lemma blocked_span_24: "email_window < blocked_span 24"
  by (simp add: blocked_span_def email_delay_def email_free_failures_def email_max_delay_def email_window_def second_def
      upt_rec)

definition entry_ok :: "instant \<Rightarrow> throttle_entry \<Rightarrow> bool" where
  "entry_ok now x \<longleftrightarrow>
     since x \<le> now \<and> failures x \<le> 24
     \<and> (5 \<le> failures x \<longrightarrow> (\<exists>u. blocked_until x = Some u \<and> since x + blocked_span (failures x) \<le> u))
     \<and> (\<forall>u. blocked_until x = Some u \<longrightarrow> u \<le> now + email_max_delay)"

lemma entry_ok_later: "entry_ok now x \<Longrightarrow> now \<le> later \<Longrightarrow> entry_ok later x"
  by (fastforce simp: entry_ok_def)

lemma sat_add_small: "n \<le> 24 \<Longrightarrow> sat_add u32_max n (Suc 0) = Suc n"
  by (simp add: sat_add_def u32_max_def)

lemma wait_of_0 [simp]: "wait_of now (Some x) = 0 \<longleftrightarrow> (\<forall>u. blocked_until x = Some u \<longrightarrow> u \<le> now)"
  by (auto simp: wait_of_def split: option.split)

lemma wait_of_nonneg [simp]: "0 \<le> wait_of now x"
  by (auto simp: wait_of_def split: option.split)

text \<open>A failure of an email that was not blocked starts a new window or is one of the first 24 of its window.\<close>

definition new_window :: "instant \<Rightarrow> throttle_entry \<Rightarrow> bool" where
  "new_window later x \<longleftrightarrow> email_window \<le> later - since x"

lemma new_window_failure:
  assumes "new_window later x"
  shows "email_failure later x = x\<lparr>failures := 1, since := later\<rparr>"
  using assms sat_add_small [of 0]
  by (simp add: new_window_def email_failure_def duration_since_def email_free_failures_def Let_def max_def
      email_window_def second_def)

lemma same_window_room:
  assumes "entry_ok now x" and "wait_of now (Some x) = 0" and "now \<le> later" and "\<not> new_window later x"
  shows "failures x < 24"
proof (rule ccontr)
  assume "\<not> failures x < 24"
  then have "failures x = 24" using assms(1) by (simp add: entry_ok_def)
  then show False using assms blocked_span_24 by (auto simp: entry_ok_def new_window_def)
qed

lemma same_window_failure:
  assumes "entry_ok now x" and "wait_of now (Some x) = 0" and "now \<le> later" and "\<not> new_window later x"
  shows "email_failure later x =
    x\<lparr>failures := Suc (failures x),
      blocked_until := if 5 \<le> Suc (failures x) then Some (later + email_delay (Suc (failures x))) else blocked_until x\<rparr>"
proof -
  have "duration_since later (since x) < email_window"
    using assms(4) by (simp add: duration_since_def new_window_def email_window_def second_def)
  then show ?thesis
    using same_window_room [OF assms] by (simp add: email_failure_def sat_add_small email_free_failures_def Let_def)
qed

lemma email_failure_ok:
  assumes "entry_ok now x" and "wait_of now (Some x) = 0" and "now \<le> later"
  shows "entry_ok later (email_failure later x)"
proof (cases "new_window later x")
  case True
  then show ?thesis using entry_ok_later [OF assms(1,3)] by (auto simp: new_window_failure entry_ok_def)
next
  case False
  have "since x + blocked_span (Suc (failures x)) \<le> later + email_delay (Suc (failures x))" if "5 \<le> Suc (failures x)"
  proof (cases "failures x = 4")
    case True
    then show ?thesis using assms(1,3) blocked_span_Suc [of 4] blocked_span_4 by (simp add: entry_ok_def)
  next
    case False
    then show ?thesis using that assms blocked_span_Suc [OF that] by (auto simp: entry_ok_def)
  qed
  then show ?thesis
    using same_window_room [OF assms False] entry_ok_later [OF assms(1,3)] email_delay_le
    by (auto simp: same_window_failure [OF assms False] entry_ok_def)
qed

section \<open>Histories of attempts\<close>

text \<open>Attempts one after the other, and the wrong guesses that reached the password check.\<close>

fun login_run :: "throttle_tables \<Rightarrow> (string \<times> instant) list \<Rightarrow> login_attempt list \<Rightarrow> throttle_tables \<times> (string \<times> instant) list" where
  "login_run t g [] = (t, g)"
| "login_run t g (a # as) =
     (case login t a of
        (t, Answered_by_access Invalid_credentials) \<Rightarrow> login_run t ((normalize_email (at_email a), at_later a) # g) as
      | (t, _) \<Rightarrow> login_run t g as)"

lemma login_run_wrong:
  "login t a = (t', Answered_by_access Invalid_credentials)
   \<Longrightarrow> login_run t g (a # as) = login_run t' ((normalize_email (at_email a), at_later a) # g) as"
  by simp

lemma login_run_refused: "login t a = (t', Too_many_attempts s) \<Longrightarrow> login_run t g (a # as) = login_run t' g as"
  by simp

fun sequential :: "instant \<Rightarrow> login_attempt list \<Rightarrow> bool" where
  "sequential t0 [] = True"
| "sequential t0 (a # as) \<longleftrightarrow> t0 \<le> at_now a \<and> at_now a \<le> at_later a \<and> sequential (at_later a) as"

fun last_time :: "instant \<Rightarrow> login_attempt list \<Rightarrow> instant" where
  "last_time t0 [] = t0"
| "last_time t0 (a # as) = last_time (at_later a) as"

definition guesses :: "(string \<times> instant) list \<Rightarrow> string \<Rightarrow> instant \<Rightarrow> instant \<Rightarrow> nat" where
  "guesses g e a b = length (filter (\<lambda>(k, t). k = e \<and> a \<le> t \<and> t < b) g)"

lemma guesses_Cons: "guesses ((k, t) # g) e a b = (if k = e \<and> a \<le> t \<and> t < b then 1 else 0) + guesses g e a b"
  by (simp add: guesses_def)

lemma guesses_split: "a \<le> b \<Longrightarrow> b \<le> c \<Longrightarrow> guesses g e a c = guesses g e a b + guesses g e b c"
  by (induction g) (auto simp: guesses_def)

lemma guesses_mono: "a' \<le> a \<Longrightarrow> b \<le> b' \<Longrightarrow> guesses g e a b \<le> guesses g e a' b'"
  by (induction g) (auto simp: guesses_def)

lemma guesses_none: "(\<And>t. (e, t) \<in> set g \<Longrightarrow> \<not> (a \<le> t \<and> t < b)) \<Longrightarrow> guesses g e a b = 0"
  by (auto simp: guesses_def filter_empty_conv)

lemma guesses_upper:
  assumes "\<And>t. (e, t) \<in> set g \<Longrightarrow> t < b" and "b \<le> b'"
  shows "guesses g e a b' = guesses g e a b"
  using assms unfolding guesses_def by (intro arg_cong [of _ _ length] filter_cong) fastforce+

text \<open>With no more emails than the table holds, no entry is ever pushed out.\<close>

lemma room_for:
  assumes "distinct (map fst m)" and "fst ` set m \<subseteq> E" and "finite E" and "card E \<le> max_tracked" and "k \<in> E"
    and "map_of m k = None"
  shows "length m < max_tracked"
proof -
  have "fst ` set m \<subset> E" using assms(2,5,6) by (auto simp: map_of_eq_None_iff)
  then have "card (fst ` set m) < card E" using assms(3) psubset_card_mono by blast
  then show ?thesis using assms(1,4) distinct_card [of "map fst m"] by simp
qed

definition fresh_entry :: "instant \<Rightarrow> throttle_entry" where
  "fresh_entry now = \<lparr>failures = 0, since = now, blocked_until = None\<rparr>"

lemma emails_after_failure:
  assumes "map_of (emails t) k = None \<longrightarrow> length (emails t) < max_tracked" and "k = normalize_email email"
  shows "map_of (emails (record_failure t email source now)) =
    (map_of (emails t))(k \<mapsto> email_failure now (case map_of (emails t) k of None \<Rightarrow> fresh_entry now | Some x \<Rightarrow> x))"
  using assms
  by (auto simp: record_failure_def Let_def insert_bounded_def change_entry_def fresh_entry_def alist_simps
      split: option.split)

lemma fresh_failure:
  "since (email_failure now (fresh_entry now)) = now" "failures (email_failure now (fresh_entry now)) = 1"
  "entry_ok now (email_failure now (fresh_entry now))"
proof -
  have ok: "entry_ok now (fresh_entry now)" "wait_of now (Some (fresh_entry now)) = 0" "\<not> new_window now (fresh_entry now)"
    by (auto simp: entry_ok_def fresh_entry_def new_window_def email_window_def second_def)
  show "since (email_failure now (fresh_entry now)) = now" "failures (email_failure now (fresh_entry now)) = 1"
    using same_window_failure [OF ok(1,2) order_refl ok(3)] by (simp_all add: fresh_entry_def)
  show "entry_ok now (email_failure now (fresh_entry now))" by (rule email_failure_ok [OF ok(1,2) order_refl])
qed

section \<open>The invariant of a history\<close>

text \<open>The guesses at one email: none is missing from its entry, and the windows before are full of at most 24.\<close>

definition entry_counts :: "(string \<times> instant) list \<Rightarrow> string \<Rightarrow> instant \<Rightarrow> throttle_entry option \<Rightarrow> bool" where
  "entry_counts g e now entry \<longleftrightarrow>
     (case entry of
        None \<Rightarrow> \<forall>t. (e, t) \<notin> set g
      | Some x \<Rightarrow>
          guesses g e (since x) (now + 1) = failures x
          \<and> (\<forall>t. (e, t) \<in> set g \<longrightarrow> t < since x + email_window)
          \<and> (\<forall>a. since x - email_window \<le> a \<longrightarrow> guesses g e a (since x) \<le> 24))"

definition run_ok :: "string set \<Rightarrow> string \<Rightarrow> instant \<Rightarrow> throttle_tables \<Rightarrow> (string \<times> instant) list \<Rightarrow> bool" where
  "run_ok E e now t g \<longleftrightarrow>
     distinct (map fst (emails t)) \<and> fst ` set (emails t) \<subseteq> E
     \<and> (\<forall>k x. map_of (emails t) k = Some x \<longrightarrow> entry_ok now x)
     \<and> (\<forall>k u. (k, u) \<in> set g \<longrightarrow> u \<le> now)
     \<and> entry_counts g e now (map_of (emails t) e)
     \<and> (\<forall>a. guesses g e a (a + email_window) \<le> 48)"

lemma entry_counts_later:
  assumes "entry_counts g e now x" and "\<forall>k u. (k, u) \<in> set g \<longrightarrow> u \<le> now" and "now \<le> later"
  shows "entry_counts g e later x"
proof -
  have "guesses g e a (later + 1) = guesses g e a (now + 1)" for a
    by (rule guesses_upper) (use assms(2,3) in \<open>fastforce+\<close>)
  then show ?thesis using assms(1) by (auto simp: entry_counts_def split: option.splits)
qed

lemma run_ok_later: "run_ok E e now t g \<Longrightarrow> now \<le> later \<Longrightarrow> run_ok E e later t g"
  unfolding run_ok_def using entry_counts_later entry_ok_later by (meson order_trans)

text \<open>A wrong guess at the email itself.\<close>

lemma entry_counts_first:
  assumes "entry_counts g e now None"
  shows "entry_counts ((e, later) # g) e later (Some (email_failure later (fresh_entry later)))"
    and "guesses ((e, later) # g) e a b \<le> 1"
proof -
  have none: "guesses g e a b = 0" for a b using assms by (auto simp: entry_counts_def intro: guesses_none)
  have W: "0 < email_window" by (simp add: email_window_def second_def)
  show "entry_counts ((e, later) # g) e later (Some (email_failure later (fresh_entry later)))"
    using assms W by (auto simp: entry_counts_def fresh_failure guesses_Cons none)
  show "guesses ((e, later) # g) e a b \<le> 1" by (simp add: guesses_Cons none)
qed

lemma entry_counts_next:
  assumes c: "entry_counts g e now (Some x)" and ok: "entry_ok now x" and free: "wait_of now (Some x) = 0"
    and times: "\<forall>k u. (k, u) \<in> set g \<longrightarrow> u \<le> now" and le: "now \<le> later"
  shows "entry_counts ((e, later) # g) e later (Some (email_failure later x))"
    and "later < a + email_window \<Longrightarrow> a \<le> later \<Longrightarrow> guesses ((e, later) # g) e a (a + email_window) \<le> 48"
proof -
  have W: "0 < email_window" by (simp add: email_window_def second_def)
  have all: "guesses g e a b = guesses g e a (now + 1)" if "now < b" for a b
    by (rule guesses_upper) (use times that in \<open>fastforce+\<close>)
  have here: "guesses g e (since x) b = failures x" if "now < b" for b
    using c all [OF that] by (simp add: entry_counts_def)
  have before: "guesses g e a (since x) \<le> 24" if "since x - email_window \<le> a" for a
    using c that by (simp add: entry_counts_def)
  have old: "\<not> (later \<le> t \<and> new_window later x)" if "(e, t) \<in> set g" for t
    using c that by (auto simp: entry_counts_def new_window_def)
  have since: "since x \<le> now" and few: "failures x \<le> 24" using ok by (auto simp: entry_ok_def)
  have mono: "guesses g e a b \<le> failures x" if "since x \<le> a" for a b
    using here [of "max b (now + 1)"] guesses_mono [of "since x" a b "max b (now + 1)" g e] that by simp
  show "entry_counts ((e, later) # g) e later (Some (email_failure later x))"
  proof (cases "new_window later x")
    case True
    have "guesses g e later (later + 1) = 0" by (rule guesses_none) (use old True in blast)
    moreover have "guesses g e a later \<le> 24" if "later - email_window \<le> a" for a
      using mono [of a later] few that True by (simp add: new_window_def)
    moreover have "t < later + email_window" if "(e, t) \<in> set g" for t
      using times that le W by fastforce
    ultimately show ?thesis using W by (auto simp: entry_counts_def new_window_failure [OF True] guesses_Cons)
  next
    case False
    then show ?thesis
      using c here [of "later + 1"] since le
      by (auto simp: entry_counts_def same_window_failure [OF ok free le False] guesses_Cons new_window_def)
  qed
  assume a: "later < a + email_window" "a \<le> later"
  show "guesses ((e, later) # g) e a (a + email_window) \<le> 48"
  proof (cases "since x \<le> a")
    case True
    then show ?thesis using mono [of a "a + email_window"] few by (simp add: guesses_Cons)
  next
    case False
    then have "guesses g e a (a + email_window) = guesses g e a (since x) + guesses g e (since x) (a + email_window)"
      using since le a by (intro guesses_split) auto
    moreover have "guesses g e (since x) (a + email_window) \<le> failures x" using mono by blast
    moreover have "guesses g e a (since x) \<le> 24" using before a since le by simp
    moreover have "failures x < 24" if "\<not> new_window later x" using same_window_room [OF ok free le that] .
    moreover have "\<not> new_window later x" using False a by (simp add: new_window_def)
    ultimately show ?thesis by (simp add: guesses_Cons)
  qed
qed

lemma check_free:
  "throttle_check t email source now = Inr u \<Longrightarrow> wait_of now (map_of (emails t) (normalize_email email)) = 0"
  using wait_of_nonneg [of now "map_of (emails t) (normalize_email email)"]
    wait_of_nonneg [of now "Option.bind source (map_of (sources t))"]
  by (auto simp: throttle_check_def Let_def max_def simp del: wait_of_nonneg split: if_splits)

text \<open>One wrong guess, at this email or another.\<close>

lemma run_ok_guess:
  assumes run: "run_ok E e now t g" and E: "finite E" "card E \<le> max_tracked" "normalize_email email \<in> E"
    and free: "wait_of now (map_of (emails t) (normalize_email email)) = 0" and le: "now \<le> later"
  shows "run_ok E e later (record_failure t email source later) ((normalize_email email, later) # g)"
proof -
  let ?k = "normalize_email email" and ?t = "record_failure t email source later"
  have room: "map_of (emails t) ?k = None \<longrightarrow> length (emails t) < max_tracked"
    using room_for [OF _ _ E] run by (auto simp: run_ok_def)
  note look = emails_after_failure [OF room refl, of source later]
  have dist: "distinct (map fst (emails ?t))"
    using run room
    by (auto simp: run_ok_def record_failure_def Let_def insert_bounded_def alist_simps split: option.split)
  have keys: "fst ` set (emails ?t) \<subseteq> E"
    using run E(3) unfolding dom_map_of_conv_image_fst [symmetric] look
    by (auto simp: run_ok_def dest!: map_of_SomeD)
  have x: "entry_ok now x" "wait_of now (Some x) = 0" if "map_of (emails t) ?k = Some x" for x
    using run free that by (simp_all add: run_ok_def)
  have kept: "entry_ok later y" if "map_of (emails t) k = Some y" for k y
    by (rule entry_ok_later [OF _ le]) (use run that in \<open>simp add: run_ok_def\<close>)
  have entries: "\<forall>k x. map_of (emails ?t) k = Some x \<longrightarrow> entry_ok later x"
    using kept x email_failure_ok [OF _ _ le] fresh_failure(3)
    unfolding look by (auto split: option.splits)
  have times: "\<forall>k u. (k, u) \<in> set ((?k, later) # g) \<longrightarrow> u \<le> later"
    using run le by (fastforce simp: run_ok_def)
  have later: "run_ok E e later t g" using run_ok_later [OF run le] .
  have rest: "entry_counts ((?k, later) # g) e later (map_of (emails ?t) e)
      \<and> (\<forall>a. guesses ((?k, later) # g) e a (a + email_window) \<le> 48)"
  proof (cases "?k = e")
    case False
    then show ?thesis
      using later unfolding look
      by (auto simp: run_ok_def entry_counts_def guesses_Cons split: option.splits)
  next
    case True
    show ?thesis
    proof (cases "map_of (emails t) e")
      case None
      then have c: "entry_counts g e now None" using run by (simp add: run_ok_def)
      have "guesses ((e, later) # g) e a (a + email_window) \<le> 48" for a
        using entry_counts_first(2) [OF c, of later a "a + email_window"] by linarith
      then show ?thesis using entry_counts_first(1) [OF c] None True unfolding look by simp
    next
      case (Some x)
      then have c: "entry_counts g e now (Some x)" "\<forall>k u. (k, u) \<in> set g \<longrightarrow> u \<le> now"
        using run by (simp_all add: run_ok_def)
      note next_guess = entry_counts_next [OF c(1) x [folded True, unfolded True, OF Some] c(2) le]
      have "guesses ((e, later) # g) e a (a + email_window) \<le> 48" for a
        using next_guess(2) [of a] later by (cases "later < a + email_window \<and> a \<le> later") (auto simp: run_ok_def guesses_Cons)
      then show ?thesis using next_guess(1) Some True unfolding look by simp
    qed
  qed
  show ?thesis using dist keys entries times rest by (simp add: run_ok_def)
qed

lemma run_ok_success:
  assumes "run_ok E e now t g" and "normalize_email email \<noteq> e"
  shows "run_ok E e now (record_success t email) g"
proof -
  have "distinct (map fst (emails (record_success t email)))"
    using assms(1) by (simp add: run_ok_def record_success_def distinct_keys_delete)
  moreover have "fst ` set (emails (record_success t email)) \<subseteq> E"
    using assms(1) by (auto simp: run_ok_def record_success_def AList.delete_eq)
  ultimately show ?thesis using assms by (auto simp: run_ok_def record_success_def alist_simps)
qed

text \<open>The attempts of a history, none of which signs in with the email.\<close>

definition never_signed_in :: "string \<Rightarrow> login_attempt list \<Rightarrow> bool" where
  "never_signed_in e as \<longleftrightarrow> (\<forall>a \<in> set as. normalize_email (at_email a) = e \<longrightarrow> at_verdict a \<noteq> Signed_in)"

definition emails_of :: "login_attempt list \<Rightarrow> string set" where
  "emails_of as = (normalize_email \<circ> at_email) ` set as"

lemma login_cases:
  assumes "login t a = (t1, answer)"
  obtains (refused) "t1 = t" "\<And>v. answer \<noteq> Answered_by_access v"
  | (verdict) u where "throttle_check t (at_email a) (at_source a) (at_now a) = Inr u"
      "answer = Answered_by_access (at_verdict a)" "t1 = login_record t a"
proof (cases "login_check t a")
  case (Inl answer')
  then have "\<And>v. answer' \<noteq> Answered_by_access v" by (auto simp: login_check_def split: if_splits sum.splits)
  then show thesis using refused assms Inl by (simp add: login_def)
next
  case (Inr u)
  then have "throttle_check t (at_email a) (at_source a) (at_now a) = Inr ()"
    by (auto simp: login_check_def split: if_splits sum.splits)
  then show thesis using verdict assms Inr by (simp add: login_def)
qed

lemma run_ok_login:
  assumes run: "run_ok E e now t g" and E: "finite E" "card E \<le> max_tracked" "emails_of as \<subseteq> E"
    and seq: "sequential now as" and never: "never_signed_in e as" and res: "login_run t g as = (t', g')"
  shows "run_ok E e (last_time now as) t' g'"
  using run seq never res E(3)
proof (induction as arbitrary: now t g)
  case Nil
  then show ?case by auto
next
  case (Cons a as)
  let ?k = "normalize_email (at_email a)"
  have le: "now \<le> at_now a" "at_now a \<le> at_later a" and seq: "sequential (at_later a) as" using Cons.prems(2) by auto
  have "never_signed_in e as" "emails_of as \<subseteq> E" "?k \<in> E"
    using Cons.prems(3,5) by (auto simp: never_signed_in_def emails_of_def)
  note go_on = Cons.IH [OF _ seq this(1) _ this(2)]
  have here: "run_ok E e (at_now a) t g" and same: "run_ok E e (at_later a) t g"
    using run_ok_later [OF Cons.prems(1)] le by auto
  obtain t1 answer where step: "login t a = (t1, answer)" by fastforce
  from step show ?case
  proof (cases rule: login_cases)
    case refused
    then show ?thesis using go_on [OF same] Cons.prems(4) step by (auto split: login_answer.splits)
  next
    case (verdict u)
    show ?thesis
    proof (cases "at_verdict a")
      case Signed_in
      then have "run_ok E e (at_later a) t1 g"
        using run_ok_success [OF same] Cons.prems(3) verdict(3) by (simp add: login_record_def never_signed_in_def)
      then show ?thesis using go_on Cons.prems(4) step verdict(2) Signed_in by simp
    next
      case Invalid_credentials
      have "run_ok E e (at_later a) t1 ((?k, at_later a) # g)"
        using run_ok_guess [OF here E(1,2) \<open>?k \<in> E\<close> check_free [OF verdict(1)] le(2)] verdict(3) Invalid_credentials
        by (simp add: login_record_def)
      then show ?thesis using go_on Cons.prems(4) step verdict(2) Invalid_credentials by simp
    next
      case Other_failure
      then show ?thesis using go_on [OF same] Cons.prems(4) step verdict(2,3) by (simp add: login_record_def)
    qed
  qed
qed

lemma run_ok_new: "run_ok E e now login_throttle []"
  by (auto simp: run_ok_def login_throttle_def entry_counts_def guesses_def)

text \<open>Handlers that are checked before the first verdict.\<close>

lemma all_checked:
  assumes "login_check t a = Inr u"
  shows "login_events (t, waiting, g) (replicate n (Checked a) @ es) = login_events (t, replicate n a @ waiting, g) es"
  using assms by (induction n arbitrary: waiting) (simp_all add: replicate_app_Cons_same)

lemma all_answered:
  assumes "at_verdict a = Invalid_credentials"
  shows "snd (snd (login_events (t, replicate n a, g) (replicate n (Verdict a))))
    = replicate n (normalize_email (at_email a), at_later a) @ g"
  using assms by (induction n arbitrary: t g) (simp_all add: replicate_app_Cons_same)

lemma guesses_replicate: "a \<le> t \<Longrightarrow> t < b \<Longrightarrow> guesses (replicate n (e, t)) e a b = n"
  by (induction n) (simp_all add: guesses_def)

end
