(* ===== verification/Security.thy ===== *)
theory Security
  imports Utf8
begin

text \<open>
  The request and address policies of \<open>security.rs\<close>: the cross-site guard, the source key of the login
  throttle, the hardening headers and the outbound address policy.

  A header map is the list of its headers in order, names in lower case; the value is \<open>None\<close> when it
  is not text (\<open>to_str\<close> fails).
\<close>

type_synonym headers = "(string \<times> string option) list"

definition header_get :: "headers \<Rightarrow> string \<Rightarrow> string option option" where
  "header_get = map_of"

text \<open>\<open>headers.get(name).and_then(|v| v.to_str().ok())\<close>\<close>

definition header_text :: "headers \<Rightarrow> string \<Rightarrow> string option" where
  "header_text hs name = Option.bind (header_get hs name) id"

definition header_all :: "headers \<Rightarrow> string \<Rightarrow> string list" where
  "header_all hs name = [v. (n, Some v) \<leftarrow> hs, n = name]"

definition or_insert :: "headers \<Rightarrow> string \<Rightarrow> string \<Rightarrow> headers" where
  "or_insert hs name v = (if header_get hs name = None then hs @ [(name, Some v)] else hs)"

section \<open>The cross-site guard\<close>

definition has_session_cookie :: "headers \<Rightarrow> bool" where
  "has_session_cookie hs \<longleftrightarrow>
     (\<exists>cookies \<in> set (header_all hs ''cookie''). \<exists>cookie \<in> set (split_on (CHR '';'') cookies).
        starts_with ''hoglet_sid='' (trim cookie))"

text \<open>\<open>str::split_once\<close>: the texts before and after the first occurrence.\<close>

fun split_at_text :: "string \<Rightarrow> string \<Rightarrow> (string \<times> string) option" where
  "split_at_text sep [] = (if sep = [] then Some ([], []) else None)"
| "split_at_text sep (c # cs) =
     (if starts_with sep (c # cs) then Some ([], drop (length sep) (c # cs))
      else map_option (\<lambda>(a, b). (c # a, b)) (split_at_text sep cs))"

definition origin_authority :: "string \<Rightarrow> string option" where
  "origin_authority origin =
     (case split_at_text ''://'' origin of
        None \<Rightarrow> None
      | Some (_, rest) \<Rightarrow>
          (let authority = hd (split_on (CHR ''/'') rest) in
           if authority = [] then None else Some authority))"

definition is_cross_site :: "headers \<Rightarrow> bool" where
  "is_cross_site hs =
     (case header_text hs ''sec-fetch-site'' of
        Some site \<Rightarrow> \<not> (site = ''same-origin'' \<or> site = ''none'')
      | None \<Rightarrow>
          (case header_text hs ''origin'' of
             None \<Rightarrow> False
           | Some origin \<Rightarrow>
               (let host = Option.bind (or_else (header_get hs ''x-forwarded-host'') (header_get hs ''host'')) id in
                case (origin_authority origin, host) of
                  (Some a, Some h) \<Rightarrow> \<not> eq_ignore_ascii_case a (trim h)
                | _ \<Rightarrow> True)))"

text \<open>The status of the refusal, or the response of the handler behind the guard.\<close>

definition csrf_guard :: "string \<Rightarrow> headers \<Rightarrow> 'response \<Rightarrow> nat + 'response" where
  "csrf_guard method hs response =
     (let safe = (method = ''GET'' \<or> method = ''HEAD'' \<or> method = ''OPTIONS'') in
      if \<not> safe \<and> has_session_cookie hs \<and> is_cross_site hs then Inl 403 else Inr response)"

section \<open>Hardening headers\<close>

definition forwarded_https :: "headers \<Rightarrow> bool" where
  "forwarded_https hs =
     (case header_text hs ''x-forwarded-proto'' of
        None \<Rightarrow> False
      | Some v \<Rightarrow> eq_ignore_ascii_case (trim (last (split_on (CHR '','') v))) ''https'')"

text \<open>Single quotes are the character \<open>0x27\<close>.\<close>

definition default_csp :: string where
  "default_csp = ''default-src '' @ [CHR 0x27] @ ''none'' @ [CHR 0x27] @ ''; frame-ancestors '' @ [CHR 0x27] @ ''none'' @ [CHR 0x27]"

definition security_headers :: "string \<Rightarrow> headers \<Rightarrow> headers \<Rightarrow> headers" where
  "security_headers path request response =
     (let hs = or_insert (or_insert response ''x-content-type-options'' ''nosniff'') ''referrer-policy'' ''no-referrer'';
          html = (case header_text hs ''content-type'' of None \<Rightarrow> False | Some v \<Rightarrow> starts_with ''text/html'' v);
          hs = (if html
                then or_insert (or_insert hs ''x-frame-options'' ''DENY'')
                       ''content-security-policy'' default_csp
                else hs);
          hs = (if starts_with ''/api/'' path \<and> \<not> starts_with ''/api/feature_flag/'' path
                   \<and> header_get hs ''cache-control'' = None
                then hs @ [(''cache-control'', Some ''no-store'')] else hs) in
      if forwarded_https request then or_insert hs ''strict-transport-security'' ''max-age=31536000'' else hs)"

section \<open>Addresses\<close>

type_synonym ipv4 = "32 word"
type_synonym ipv6 = "128 word"

datatype ip_addr = V4 ipv4 | V6 ipv6

definition octet :: "nat \<Rightarrow> ipv4 \<Rightarrow> u8" where
  "octet i ip = ucast (drop_bit (24 - 8 * i) ip)"

definition segment16 :: "nat \<Rightarrow> ipv6 \<Rightarrow> u16" where
  "segment16 i ip = ucast (drop_bit (112 - 16 * i) ip)"

text \<open>The classifications of \<open>std::net::Ipv4Addr\<close>.\<close>

definition v4_private :: "ipv4 \<Rightarrow> bool" where
  "v4_private ip \<longleftrightarrow>
     octet 0 ip = 10
     \<or> (octet 0 ip = 172 \<and> 16 \<le> octet 1 ip \<and> octet 1 ip \<le> 31)
     \<or> (octet 0 ip = 192 \<and> octet 1 ip = 168)"

definition v4_link_local :: "ipv4 \<Rightarrow> bool" where
  "v4_link_local ip \<longleftrightarrow> octet 0 ip = 169 \<and> octet 1 ip = 254"

definition v4_multicast :: "ipv4 \<Rightarrow> bool" where
  "v4_multicast ip \<longleftrightarrow> 224 \<le> octet 0 ip \<and> octet 0 ip \<le> 239"

definition is_forbidden_v4 :: "ipv4 \<Rightarrow> bool" where
  "is_forbidden_v4 ip \<longleftrightarrow>
     (let a = octet 0 ip; b = octet 1 ip in
      a = 127 \<or> v4_private ip \<or> v4_link_local ip \<or> ip = 0 \<or> ip = - 1 \<or> v4_multicast ip
      \<or> a = 0
      \<or> (a = 100 \<and> 64 \<le> b \<and> b < 128)
      \<or> (a = 192 \<and> b = 0 \<and> octet 2 ip = 0)
      \<or> 240 \<le> a)"

text \<open>\<open>to_ipv4_mapped\<close>: the address behind \<open>::ffff:0:0/96\<close>.\<close>

definition to_ipv4_mapped :: "ipv6 \<Rightarrow> ipv4 option" where
  "to_ipv4_mapped ip = (if drop_bit 32 ip = 0xffff then Some (ucast ip) else None)"

definition is_forbidden_v6 :: "ipv6 \<Rightarrow> bool" where
  "is_forbidden_v6 ip =
     (case to_ipv4_mapped ip of
        Some v4 \<Rightarrow> is_forbidden_v4 v4
      | None \<Rightarrow>
          (let first = segment16 0 ip in
           ip = 1 \<or> ip = 0 \<or> first AND 0xff00 = 0xff00
           \<or> first AND 0xfe00 = 0xfc00
           \<or> first AND 0xffc0 = 0xfe80
           \<or> (first = 0x64 \<and> segment16 1 ip = 0xff9b)))"

definition is_local_or_private :: "ip_addr \<Rightarrow> bool" where
  "is_local_or_private ip = (case ip of V4 v4 \<Rightarrow> is_forbidden_v4 v4 | V6 v6 \<Rightarrow> is_forbidden_v6 v6)"

definition is_forbidden_address :: "ip_addr \<Rightarrow> bool" where
  "is_forbidden_address ip = is_local_or_private ip"

section \<open>The source of a request\<close>

text \<open>The text of an address (\<open>IpAddr::to_string\<close>) is a parameter.\<close>

definition source_key :: "(ip_addr \<Rightarrow> string) \<Rightarrow> ip_addr option \<Rightarrow> headers \<Rightarrow> bool \<Rightarrow> string option" where
  "source_key ip_text peer hs trust_proxy =
     (let forwarded =
        (if trust_proxy
         then case header_text hs ''x-forwarded-for'' of
             None \<Rightarrow> None
           | Some v \<Rightarrow> (let l = trim (last (split_on (CHR '','') v)) in
                        if l \<noteq> [] \<and> length l \<le> 64 then Some l else None)
         else None) in
      case forwarded of
        Some l \<Rightarrow> Some l
      | None \<Rightarrow>
          (case peer of
             None \<Rightarrow> None
           | Some p \<Rightarrow> if is_local_or_private p then None else Some (ip_text p)))"

end
