(* ===== verification/SecurityCorrect.thy ===== *)
theory SecurityCorrect
  imports Security
begin

text \<open>
  The outbound address policy as a list of address blocks: the numbers of octets and segments, and
  membership in a block by its prefix.
\<close>

section \<open>Octets and segments as numbers\<close>

lemma octet_unat: "unat (octet i ip) = (unat ip div 2 ^ (24 - 8 * i)) mod 256"
  unfolding octet_def unsigned_ucast_eq unat_drop_bit_eq by (simp add: drop_bit_eq_div take_bit_eq_mod)

lemma segment16_unat: "unat (segment16 i ip) = (unat ip div 2 ^ (112 - 16 * i)) mod 65536"
  unfolding segment16_def unsigned_ucast_eq unat_drop_bit_eq by (simp add: drop_bit_eq_div take_bit_eq_mod)

lemma u8_eq_iff: "(a :: u8) = b \<longleftrightarrow> unat a = unat b"
  by (simp add: word_unat_eq_iff)

lemma unat_bound4: "unat (ip :: ipv4) < 4294967296"
  using unsigned_less [of ip, where ?'a = nat] by simp

section \<open>Blocks\<close>

definition in_block4 :: "ipv4 \<Rightarrow> nat \<times> nat \<Rightarrow> bool" where
  "in_block4 ip b = (unat ip div 2 ^ (32 - snd b) = fst b div 2 ^ (32 - snd b))"

definition in_block6 :: "ipv6 \<Rightarrow> nat \<times> nat \<Rightarrow> bool" where
  "in_block6 ip b = (unat ip div 2 ^ (128 - snd b) = fst b div 2 ^ (128 - snd b))"

fun dotted :: "nat \<Rightarrow> nat \<Rightarrow> nat \<Rightarrow> nat \<Rightarrow> nat" where
  "dotted a b c d = ((a * 256 + b) * 256 + c) * 256 + d"

definition refused_blocks4 :: "(nat \<times> nat) list" where
  "refused_blocks4 =
     [(dotted 0 0 0 0, 8), (dotted 10 0 0 0, 8), (dotted 100 64 0 0, 10), (dotted 127 0 0 0, 8),
      (dotted 169 254 0 0, 16), (dotted 172 16 0 0, 12), (dotted 192 0 0 0, 24), (dotted 192 168 0 0, 16),
      (dotted 224 0 0 0, 4), (dotted 240 0 0 0, 4)]"

lemma div_iff: "(x :: nat) div numeral k = q \<longleftrightarrow> q * numeral k \<le> x \<and> x < q * numeral k + numeral k"
  using div_nat_eqI [of "numeral k" q x] times_div_less_eq_dividend [of "numeral k" x]
    dividend_less_times_div [of "numeral k" x]
  by (auto simp: mult.commute)

lemma in_octet:
  assumes "b < 256" and "h \<le> 256"
  shows "k * 256 + l \<le> a * 256 + b \<and> a * 256 + b < k * 256 + h \<longleftrightarrow> a = k \<and> l \<le> b \<and> b < (h :: nat)"
  using assms by (cases a k rule: linorder_cases) auto

lemma octet_eq: "b < 256 \<Longrightarrow> l < 256 \<Longrightarrow> a * 256 + b = k * 256 + l \<longleftrightarrow> a = k \<and> b = (l :: nat)"
  by (cases a k rule: linorder_cases) auto

text \<open>An address from its octets.\<close>

lemma dotted_div:
  assumes "b < 256" "c < 256" "d < 256"
  shows "dotted a b c d div 2 ^ 24 = a" "dotted a b c d div 2 ^ 16 = a * 256 + b"
    "dotted a b c d div 2 ^ 8 = (a * 256 + b) * 256 + c"
  using assms by (simp_all add: div_nat_eqI)

lemma mod_low: "c < 256 \<Longrightarrow> (m * 256 + c) mod 256 = (c :: nat)"
  by simp

lemma octets:
  obtains a b c d where "unat (ip :: ipv4) = dotted a b c d" "a < 256" "b < 256" "c < 256" "d < 256"
    "unat (octet 0 ip) = a" "unat (octet 1 ip) = b" "unat (octet 2 ip) = c"
proof -
  obtain n a b c d where n: "unat ip = n" "n = dotted a b c d" "b < 256" "c < 256" "d < 256"
  proof (rule that [of "unat ip" "unat ip div 2 ^ 24" "unat ip div 2 ^ 16 mod 256" "unat ip div 2 ^ 8 mod 256" "unat ip mod 256"])
    have "unat ip div 2 ^ 24 = unat ip div 2 ^ 8 div 2 ^ 8 div 2 ^ 8" "unat ip div 2 ^ 16 = unat ip div 2 ^ 8 div 2 ^ 8"
      by (simp_all add: div_mult2_eq [symmetric])
    then show "unat ip = dotted (unat ip div 2 ^ 24) (unat ip div 2 ^ 16 mod 256) (unat ip div 2 ^ 8 mod 256) (unat ip mod 256)"
      by simp
  qed simp_all
  moreover have "a < 256" using unat_bound4 [of ip] n by simp
  ultimately show thesis
    using that [of a b c d] dotted_div [of b c d a] mod_low [of c "a * 256 + b"] by (simp add: octet_unat del: dotted.simps)
qed

lemma forbidden4_blocks: "is_forbidden_v4 ip \<longleftrightarrow> list_ex (in_block4 ip) refused_blocks4"
proof -
  obtain a b c d where o: "unat ip = dotted a b c d" "a < 256" "b < 256" "c < 256" "d < 256"
      "unat (octet 0 ip) = a" "unat (octet 1 ip) = b" "unat (octet 2 ip) = c" by (rule octets)
  have zero: "ip = 0 \<longrightarrow> a = 0" using o(1) by auto
  have ones: "ip = - 1 \<longrightarrow> 240 \<le> a"
    using o(1-5) by (auto simp: unsigned_minus_1_eq_mask mask_eq_exp_minus_1)
  have eqs: "octet 0 ip = w \<longleftrightarrow> a = unat w" "octet 1 ip = w \<longleftrightarrow> b = unat w" "octet 2 ip = w \<longleftrightarrow> c = unat w"
    "w \<le> octet 0 ip \<longleftrightarrow> unat w \<le> a" "octet 0 ip \<le> w \<longleftrightarrow> a \<le> unat w"
    "w \<le> octet 1 ip \<longleftrightarrow> unat w \<le> b" "octet 1 ip \<le> w \<longleftrightarrow> b \<le> unat w" "octet 1 ip < w \<longleftrightarrow> b < unat w" for w
    using o(6-8) by (auto simp: word_unat_eq_iff word_le_nat_alt word_less_nat_alt)
  have top: "(224 \<le> a \<and> a \<le> 239) \<or> 240 \<le> a \<longleftrightarrow> 224 \<le> a" by linarith
  have "is_forbidden_v4 ip \<longleftrightarrow>
      a = 127 \<or> (a = 10 \<or> (a = 172 \<and> 16 \<le> b \<and> b \<le> 31) \<or> (a = 192 \<and> b = 168)) \<or> (a = 169 \<and> b = 254)
      \<or> ip = 0 \<or> ip = - 1 \<or> (224 \<le> a \<and> a \<le> 239) \<or> a = 0 \<or> (a = 100 \<and> 64 \<le> b \<and> b < 128)
      \<or> (a = 192 \<and> b = 0 \<and> c = 0) \<or> 240 \<le> a"
    unfolding is_forbidden_v4_def Let_def v4_private_def v4_link_local_def v4_multicast_def eqs by simp
  then have code: "is_forbidden_v4 ip \<longleftrightarrow> a = 0 \<or> a = 10 \<or> (a = 100 \<and> 64 \<le> b \<and> b < 128) \<or> a = 127
      \<or> (a = 169 \<and> b = 254) \<or> (a = 172 \<and> 16 \<le> b \<and> b \<le> 31) \<or> (a = 192 \<and> b = 0 \<and> c = 0)
      \<or> (a = 192 \<and> b = 168) \<or> 224 \<le> a"
    using zero ones top by blast
  have parts: "unat ip div 2 ^ 24 = a" "unat ip div 2 ^ 16 = a * 256 + b" "unat ip div 2 ^ 8 = (a * 256 + b) * 256 + c"
    using dotted_div [OF o(3-5), of a] o(1) by simp_all
  have finer: "unat ip div 2 ^ 28 = a div 16" "unat ip div 2 ^ 22 = (a * 256 + b) div 64" "unat ip div 2 ^ 20 = (a * 256 + b) div 16"
    using div_mult2_eq [of "unat ip" "2 ^ 24" "2 ^ 4"] div_mult2_eq [of "unat ip" "2 ^ 16" "2 ^ 6"]
      div_mult2_eq [of "unat ip" "2 ^ 16" "2 ^ 4"] parts by simp_all
  have blocks: "list_ex (in_block4 ip) refused_blocks4 \<longleftrightarrow>
      a = 0 \<or> a = 10 \<or> (a * 256 + b) div 64 = 401 \<or> a = 127 \<or> a * 256 + b = 43518 \<or> (a * 256 + b) div 16 = 2753
      \<or> (a * 256 + b) * 256 + c = 12582912 \<or> a * 256 + b = 49320 \<or> a div 16 = 14 \<or> a div 16 = 15"
    using parts finer by (simp add: refused_blocks4_def in_block4_def)
  have p1: "(a * 256 + b) div 64 = 401 \<longleftrightarrow> a = 100 \<and> 64 \<le> b \<and> b < 128"
    using in_octet [OF o(3), of 128 100 64 a] by (simp add: div_iff)
  have p2: "(a * 256 + b) div 16 = 2753 \<longleftrightarrow> a = 172 \<and> 16 \<le> b \<and> b \<le> 31"
    using in_octet [OF o(3), of 32 172 16 a] by (simp add: div_iff) linarith
  have p3: "a * 256 + b = 43518 \<longleftrightarrow> a = 169 \<and> b = 254" using octet_eq [OF o(3), of 254 a 169] by simp
  have p4: "a * 256 + b = 49320 \<longleftrightarrow> a = 192 \<and> b = 168" using octet_eq [OF o(3), of 168 a 192] by simp
  have p5: "(a * 256 + b) * 256 + c = 12582912 \<longleftrightarrow> a = 192 \<and> b = 0 \<and> c = 0"
    using octet_eq [OF o(4), of 0 "a * 256 + b" 49152] octet_eq [OF o(3), of 0 a 192] by simp
  have p6: "a div 16 = 14 \<or> a div 16 = 15 \<longleftrightarrow> 224 \<le> a" using o(2) by (simp add: div_iff) linarith
  show ?thesis unfolding code blocks p1 p2 p3 p4 p5 p6 ..
qed

section \<open>IPv6\<close>

lemma and_not_low: "x AND NOT (mask n) = push_bit n (drop_bit n (x :: 'a :: len word))"
  by (rule bit_word_eqI) (auto simp: bit_simps)

lemma prefix_mask:
  fixes x c :: "'a :: len word"
  assumes "drop_bit n (push_bit n c) = c"
  shows "x AND NOT (mask n) = push_bit n c \<longleftrightarrow> unat x div 2 ^ n = unat c"
proof -
  have "drop_bit n (push_bit n (drop_bit n x)) = drop_bit n x"
    by (rule bit_word_eqI) (auto simp: bit_simps dest: bit_imp_le_length)
  then have "x AND NOT (mask n) = push_bit n c \<longleftrightarrow> drop_bit n x = c"
    unfolding and_not_low using assms by metis
  also have "\<dots> \<longleftrightarrow> unat x div 2 ^ n = unat c"
    unfolding word_unat_eq_iff unat_drop_bit_eq by (simp add: drop_bit_eq_div)
  finally show ?thesis .
qed

lemma unat_bound6: "unat (ip :: ipv6) < 2 ^ 128"
  using unsigned_less [of ip, where ?'a = nat] by simp

lemma quotient_remainder_iff: "b < k \<Longrightarrow> m div k = a \<and> m mod k = b \<longleftrightarrow> m = a * k + (b :: nat)"
  using div_mult_mod_eq [of m k] by auto

text \<open>The blocks of \<open>is_forbidden_v6\<close>, and the IPv4-mapped block that stands for IPv4.\<close>

definition mapped_block :: "nat \<times> nat" where
  "mapped_block = (0xffff * 2 ^ 32, 96)"

definition refused_blocks6 :: "(nat \<times> nat) list" where
  "refused_blocks6 =
     [(0, 128), (1, 128), (0xff00 * 2 ^ 112, 8), (0xfc00 * 2 ^ 112, 7), (0xfe80 * 2 ^ 112, 10),
      (0x64 * 2 ^ 112 + 0xff9b * 2 ^ 96, 32)]"

lemma forbidden6_blocks:
  "is_forbidden_v6 ip =
     (if in_block6 ip mapped_block then is_forbidden_v4 (ucast ip) else list_ex (in_block6 ip) refused_blocks6)"
proof -
  let ?n = "unat ip" and ?x = "segment16 0 ip"
  have first: "unat ?x = ?n div 2 ^ 112"
    using unat_bound6 [of ip] by (simp add: segment16_unat less_mult_imp_div_less)
  have mapped: "drop_bit 32 ip = 0xffff \<longleftrightarrow> in_block6 ip mapped_block"
    unfolding word_unat_eq_iff unat_drop_bit_eq by (simp add: in_block6_def mapped_block_def drop_bit_eq_div)
  have masks: "(0xff00 :: u16) = NOT (mask 8)" "(0xfe00 :: u16) = NOT (mask 9)" "(0xffc0 :: u16) = NOT (mask 6)"
    by (simp_all add: mask_eq_exp_minus_1)
  have prefixes: "?x AND 0xff00 = 0xff00 \<longleftrightarrow> ?n div 2 ^ 120 = 0xff" "?x AND 0xfe00 = 0xfc00 \<longleftrightarrow> ?n div 2 ^ 121 = 0x7e"
    "?x AND 0xffc0 = 0xfe80 \<longleftrightarrow> ?n div 2 ^ 118 = 0x3fa"
    using prefix_mask [of 8 "0xff :: u16" ?x] prefix_mask [of 9 "0x7e :: u16" ?x] prefix_mask [of 6 "0x3fa :: u16" ?x]
      div_mult2_eq [of ?n "2 ^ 112" "2 ^ 8"] div_mult2_eq [of ?n "2 ^ 112" "2 ^ 9"] div_mult2_eq [of ?n "2 ^ 112" "2 ^ 6"]
      masks first
    by (simp_all add: push_bit_eq_mult drop_bit_eq_div)
  let ?m = "?n div 2 ^ 96"
  have "unat ?x = ?m div 65536" "unat (segment16 1 ip) = ?m mod 65536"
    using first div_mult2_eq [of ?n "2 ^ 96" "2 ^ 16"] by (simp_all add: segment16_unat)
  then have nat64: "?x = 0x64 \<and> segment16 1 ip = 0xff9b \<longleftrightarrow> ?m = 0x64 * 65536 + 0xff9b"
    using quotient_remainder_iff [of "0xff9b" 65536 ?m "0x64"] by (simp add: word_unat_eq_iff)
  have whole: "ip = 1 \<longleftrightarrow> ?n = 1" "ip = 0 \<longleftrightarrow> ?n = 0" by (simp_all add: word_unat_eq_iff)
  have blocks: "list_ex (in_block6 ip) refused_blocks6 \<longleftrightarrow>
      ?n = 0 \<or> ?n = 1 \<or> ?n div 2 ^ 120 = 0xff \<or> ?n div 2 ^ 121 = 0x7e \<or> ?n div 2 ^ 118 = 0x3fa
      \<or> ?m = 0x64 * 65536 + 0xff9b"
    by (simp add: refused_blocks6_def in_block6_def)
  show ?thesis
    unfolding is_forbidden_v6_def to_ipv4_mapped_def mapped Let_def prefixes nat64 whole blocks by auto
qed

end
