(* ===== verification/SecurityProperties.thy ===== *)
theory SecurityProperties
  imports ThrottleCorrect SecurityCorrect
begin

text \<open>
  The properties of the login throttle and of the outbound address policy.
\<close>

section \<open>Logins\<close>





section \<open>Addresses\<close>

text \<open>C40: The outbound policy refuses exactly the addresses of the listed IPv4 and IPv6 blocks: an IPv4 address by
  its own block, an IPv4-mapped IPv6 address by the block of the IPv4 address in it, any other IPv6 address by its
  own block.\<close>

theorem forbidden_address_blocks:
  "is_forbidden_address (V4 ip4) = list_ex (in_block4 ip4) refused_blocks4
   \<and> is_forbidden_address (V6 ip6) =
      (if in_block6 ip6 mapped_block then list_ex (in_block4 (ucast ip6)) refused_blocks4
       else list_ex (in_block6 ip6) refused_blocks6)"
  by (simp add: is_forbidden_address_def is_local_or_private_def forbidden4_blocks forbidden6_blocks)

end
