(* ===== verification/Spec2Isabelle.thy ===== *)
theory Spec2Isabelle
  imports Token WalProperties RateLimit Cache Catalog FlagProperties Decompress LakeProperties
    QueryProperties SecurityProperties
begin

text \<open>
  Hoglet (\<open>src/\<close>) is an analytics server in one binary: SDKs post events, the server writes them to a
  write-ahead log, a publisher turns the log into queryable files and tables, and dashboards and feature
  flags read those. This development models its core in HOL and proves what makes it correct.

  \<^bold>\<open>The parts and how they interact.\<close>
  A request body is decoded (\<open>capture/decompress.rs\<close>), parsed into events (\<open>capture/event.rs\<close>) and enriched
  (\<open>enrichment.rs\<close>). The handler (\<open>capture/mod.rs\<close>) authorizes every token against the control store through a
  short-lived cache, applies the per-token rate limits (\<open>ratelimit.rs\<close>) and gives the batch to the sink
  (\<open>sink.rs\<close>). The sink's writer thread collects waiting batches, writes them to the log
  (\<open>pipeline/wal.rs\<close>), syncs once and then acknowledges them; an acknowledged batch may be offered to the
  shadow forwarder (\<open>forward.rs\<close>). The publisher (\<open>lake/publisher.rs\<close>) reads windows of the sealed log, writes
  each day's first copies into an event file of the lake (\<open>lake/mod.rs\<close>), applies each event to the tables of
  \<open>projections.db\<close> (\<open>projections.rs\<close>) - persons, distinct ids, groups and the catalog of names and values - and
  records the window's end there. The compactor (\<open>lake/compactor.rs\<close>) merges the files of one day. Readers lease
  files, and a replaced file is unlinked by a later sweep once no reader holds it. The erasure of a person edits the
  tables and then rewrites the files, and resumes after a crash. Queries read through a result cache (\<open>cache.rs\<close>, \<open>query/mod.rs\<close>) and resolve persons through a
  mirror of the identity overrides (\<open>query/identity.rs\<close>, \<open>persons.rs\<close>). Feature flags are validated, stored,
  cached and evaluated (\<open>flags/\<close>). Trends queries compute formulas over their series (\<open>query/formula.rs\<close>). Sign-ins are
  held back by a throttle, and requests and outbound addresses pass the policies of \<open>security.rs\<close>.

  \<^bold>\<open>Theories and source.\<close>
  \<^item> \<open>Prelude\<close>, \<open>Utf8\<close>, \<open>Types\<close>, \<open>Float64\<close>: results as sums (\<open>Inl\<close> the error), association lists for maps, UTF-8
    byte strings, JSON values and captured events, \<open>f64\<close> rounding.
  \<^item> \<open>Token\<close> (\<open>token.rs\<close>), \<open>RateLimit\<close> (\<open>ratelimit.rs\<close>), \<open>Cache\<close> (\<open>cache.rs\<close>, its use in \<open>query/mod.rs\<close>).
  \<^item> \<open>WalFrame\<close>, \<open>WalSegment\<close>, \<open>WalDir\<close>, \<open>WalWriter\<close>, \<open>WalReader\<close>, \<open>WalReclaim\<close> (\<open>pipeline/wal.rs\<close>): frames, the
    scan of a segment and its tail repair, the directory, the writer with every disk failure as an input,
    windows, reclamation. \<open>WalLog\<close> is the abstract log (sealed and active lists of batches) that directories
    represent; \<open>WalCorrect\<close> and \<open>WalReaderCorrect\<close> prove that the operations refine it; \<open>WalRun\<close> is the life of
    a log with crashes as an inductive relation; \<open>WalProperties\<close> holds the properties.
  \<^item> \<open>Decompress\<close>, \<open>CaptureEvent\<close>, \<open>Enrichment\<close>, \<open>Capture\<close>, \<open>Authorizer\<close>, \<open>Forward\<close> (\<open>capture/\<close>, \<open>enrichment.rs\<close>,
    \<open>forward.rs\<close>, the counters of \<open>metrics.rs\<close>, \<open>authorize_capture\<close> of \<open>control.rs\<close>), with \<open>CaptureProperties\<close>.
  \<^item> \<open>Sink\<close> (\<open>sink.rs\<close>), \<open>SinkCorrect\<close> (its runs are runs of the log) and \<open>SinkProperties\<close>.
  \<^item> \<open>Lake\<close> (\<open>lake/mod.rs\<close>), \<open>Publisher\<close> (\<open>lake/publisher.rs\<close>), \<open>Compactor\<close> (\<open>lake/compactor.rs\<close>), \<open>LakeErasure\<close>
    (\<open>erase_person_data\<close> and \<open>resume_pending_erasures\<close> of \<open>sink.rs\<close>). \<open>LakeCorrect\<close> has the lake's invariant and what each
    change of its index keeps, \<open>PublisherCorrect\<close> and \<open>CompactorCorrect\<close> what a window and a merge do to the
    readable events, \<open>LakeRun\<close> the start of the lake and the sweeps, \<open>LakeLife\<close> its life as an inductive relation over
    publishing, compacting, leasing, sweeping and restarting; \<open>LakeProperties\<close> holds the properties.
  \<^item> \<open>Projections\<close>, \<open>Catalog\<close> (\<open>projections.rs\<close>), \<open>Overrides\<close>, \<open>SyncProgress\<close> (\<open>persons.rs\<close>, \<open>query/identity.rs\<close>),
    with \<open>ProjectionsCorrect\<close>, \<open>ProjectionsProperties\<close> and \<open>IdentityProperties\<close>; \<open>SampleJson\<close> is a JSON printer
    and parser for the witnesses.
  \<^item> \<open>Flags\<close> (\<open>flags/eval.rs\<close>, \<open>contract/flags.rs\<close>), \<open>FlagValidate\<close> (\<open>flags/validate.rs\<close>), \<open>FlagStore\<close>
    (\<open>flags/store.rs\<close>), \<open>FlagSubjects\<close> (\<open>flags/mod.rs\<close>), with \<open>FlagsCorrect\<close>, \<open>FlagStoreCorrect\<close> and \<open>FlagProperties\<close>.
  \<^item> \<open>Formula\<close> (\<open>query/formula.rs\<close>), \<open>FormulaCorrect\<close> (the parser without fuel, the grammar) and \<open>QueryProperties\<close>.
  \<^item> \<open>Throttle\<close> (the login throttle of \<open>security.rs\<close> and \<open>login\<close> of \<open>routes/workspace.rs\<close>), \<open>ThrottleCorrect\<close>; \<open>Security\<close> (the
    cross-site guard, headers and address policy of \<open>security.rs\<close>), \<open>SecurityCorrect\<close>; \<open>SecurityProperties\<close>.

  \<^bold>\<open>What the lemmas show.\<close>
  The log: frames round-trip, scans cut torn tails and report damage, the writer refines an append-only list,
  every acknowledged batch survives crashes, windows are prefixes of what is pending, reclamation keeps what
  is pending. Capture: decoding ends and respects its ceiling, accepted events are well-formed, decisions on
  tokens are fresh, and nothing reaches the sink but whole batches of granted projects. The sink: an
  acknowledgement means durability on any disk. Identity: the tables keep their invariant under all events,
  resolution changes only by admitted merges, erasure is exact, the mirror converges to the feed. Flags: the
  first match decides, rollouts are monotone, variants unique, validation exact, the cache coherent under
  any interleaving of readers and writers. The lake: a window is published exactly once however its runs fail
  and restart, a leased file is never unlinked, compaction and sweeps keep every readable event, an erasure
  reaches every file or is resumed. The result cache is a
  least-recently-used list. Formulas: the parser accepts a grammar and gives its trees, and always ends. Sign-ins:
  one after the other the throttle bounds the guesses, at once it does not; the address policy is a list of blocks.

  \<^bold>\<open>Interfaces.\<close>
  \<open>memo_store\<close> (\<open>Cache\<close>) is what the query engine relies on in a cache, interpreted by the result cache;
  \<open>capture_authorizer\<close> (\<open>Authorizer\<close>) is what the handler relies on, interpreted by the fixed map and by the
  cached control-store authorizer with its history.

  \<^bold>\<open>Bounds and fuel.\<close>
  Loops of the code are total functions with measures, with four exceptions, each bounded in the code too:
  the formula parser (three calls per token, proved enough),
  the layout race of the reader (\<open>layout_race_attempts\<close>), the window collection (fuel the number of records,
  proved enough) and the sync of overrides (\<open>max_sync_batches\<close>, enough for fifty million overrides). Segment
  numbers stay below \<open>seq_limit = 10 ^ 16\<close>, where the file names' sixteen digits end. Generations of the flag
  cache are \<open>u64\<close> and the coherence theorem bounds the number of invalidations below \<open>2 ^ 64\<close>. One evaluation
  of a flag uses one clock value. The sign of a floating-point zero is not kept.

  \<^bold>\<open>Parameters.\<close>
  Third-party code is an argument of the definitions: \<open>serde_json\<close>, \<open>crc32fast\<close>, \<open>chrono\<close>'s parsers and
  formats, \<open>uuid\<close>, \<open>base64\<close>, \<open>flate2\<close>, \<open>sha1\<close>, \<open>regex\<close>, \<open>woothee\<close>, the HTTP client, and the disk's answers. The
  lake's failures are the fields of an environment (\<open>lake_env\<close>), its calendar is \<open>chrono\<close>'s, and the selection of the
  rows a merge keeps is DuckDB's, with the contract \<open>keeps_first_copies\<close> of the query's text. What a
  theorem needs of them is a named hypothesis (\<open>record_ok\<close>, \<open>codec_ok\<close>, round trips of JSON objects).

  \<^bold>\<open>Not modelled.\<close>
  The columns of an event file and their Parquet encoding (\<open>lake/parquet.rs\<close>), the publisher's thread and its
  retry delays (\<open>publisher_loop\<close> of \<open>sink.rs\<close>), queries as SQL text for DuckDB (\<open>query/\<close>, \<open>explore/\<close>),
  users, sessions and resources (\<open>control*.rs\<close>), the HTTP routes and their documents (\<open>routes/\<close>,
  \<open>contract/\<close>), start-up, import and the command line. The reasons stand in the manifest of the components.
\<close>

end
